(* ===== verification/Rpc_Prelude.thy ===== *)
theory Rpc_Prelude
  imports Main "HOL-Library.Word"
begin

text \<open>
  What every component theory shares: the faults a C++ operation can end in and the result
  type that carries them, the \<open>int\<close> and \<open>size_t\<close> conversions of the code, bounds-checked
  reads and writes of byte arrays (\<open>memcpy\<close>), C strings, the model of the clock, and the
  collections \<open>fault_simps\<close> (how results compose) and \<open>mem_simps\<close> (when a memory access is
  in bounds) that the component proofs simplify with.

  A byte is an Isabelle \<open>char\<close> (eight bits), so a \<open>std::string\<close> or a
  \<open>std::vector<char>\<close> is a \<open>string\<close>.
\<close>

named_theorems fault_simps "how results of fallible operations compose"
named_theorems mem_simps "memory accesses that are in bounds"

section \<open>Faults and results\<close>

text \<open>
  \<open>OutOfBounds\<close>, \<open>NullDeref\<close>, \<open>SignedOverflow\<close>, \<open>UseAfterFree\<close> and \<open>MutexMisuse\<close> are undefined behaviour of
  C++, \<open>LengthError\<close> and \<open>SystemError\<close> are the exceptions \<open>std::length_error\<close> and
  \<open>std::system_error\<close>, and \<open>ProcessExit n\<close> is a call of \<open>exit(n)\<close>.
\<close>

datatype fault =
    OutOfBounds
  | NullDeref
  | SignedOverflow
  | UseAfterFree
  | MutexMisuse
  | LengthError
  | SystemError
  | ProcessExit int

type_synonym 'a res = "fault + 'a"

fun bindR :: "'a res \<Rightarrow> ('a \<Rightarrow> 'b res) \<Rightarrow> 'b res" where
  "bindR (Inl e) f = Inl e"
| "bindR (Inr x) f = f x"

definition checkR :: "bool \<Rightarrow> fault \<Rightarrow> unit res" where
  "checkR P e = (if P then Inr () else Inl e)"

lemma bindR_Inr_iff [fault_simps]:
  "bindR m f = Inr y \<longleftrightarrow> (\<exists>x. m = Inr x \<and> f x = Inr y)"
  by (cases m) auto

lemma bindR_Inl_iff:
  "bindR m f = Inl e \<longleftrightarrow> m = Inl e \<or> (\<exists>x. m = Inr x \<and> f x = Inl e)"
  by (cases m) auto

lemma bindR_assoc: "bindR (bindR m f) g = bindR m (\<lambda>x. bindR (f x) g)"
  by (cases m) auto

lemma checkR_Inr_iff [fault_simps]: "checkR P e = Inr u \<longleftrightarrow> P"
  by (simp add: checkR_def)

lemma checkR_True [simp]: "checkR True e = Inr ()"
  by (simp add: checkR_def)

lemma checkR_False [simp]: "checkR False e = Inl e"
  by (simp add: checkR_def)

text \<open>A loop that stops at the first fault.\<close>

fun foldR :: "('x \<Rightarrow> 's \<Rightarrow> 's res) \<Rightarrow> 'x list \<Rightarrow> 's \<Rightarrow> 's res" where
  "foldR f [] s = Inr s"
| "foldR f (x # xs) s = bindR (f x s) (foldR f xs)"

lemma foldR_append: "foldR f (xs @ ys) s = bindR (foldR f xs s) (foldR f ys)"
proof (induction xs arbitrary: s)
  case (Cons x xs)
  then show ?case by (cases "f x s") simp_all
qed simp

text \<open>Collecting the results of a list of calls, up to the first fault.\<close>

fun mapR :: "('x \<Rightarrow> 'y res) \<Rightarrow> 'x list \<Rightarrow> 'y list res" where
  "mapR f [] = Inr []"
| "mapR f (x # xs) = bindR (f x) (\<lambda>y. bindR (mapR f xs) (\<lambda>ys. Inr (y # ys)))"

lemma those_append: "those (xs @ ys) = Option.bind (those xs) (\<lambda>us. map_option ((@) us) (those ys))"
  by (induction xs) (auto split: option.split simp: option.map_ident map_option_case bind_split)

lemma mapR_option:
  assumes "\<And>x. f x = (case g x of None \<Rightarrow> Inl e | Some y \<Rightarrow> Inr y)"
  shows "mapR f xs = (case those (map g xs) of None \<Rightarrow> Inl e | Some ys \<Rightarrow> Inr ys)"
  by (induction xs) (auto simp: assms split: option.split)

text \<open>A computation that may also run for ever: \<open>None\<close>.\<close>

definition bindO :: "'a res option \<Rightarrow> ('a \<Rightarrow> 'b res option) \<Rightarrow> 'b res option" where
  "bindO m f = (case m of None \<Rightarrow> None | Some (Inl e) \<Rightarrow> Some (Inl e) | Some (Inr x) \<Rightarrow> f x)"

lemma bindO_simps [simp]:
  "bindO None f = None" "bindO (Some (Inl e)) f = Some (Inl e)" "bindO (Some (Inr x)) f = f x"
  by (simp_all add: bindO_def)

lemma bindO_Inr_iff [fault_simps]:
  "bindO m f = Some (Inr y) \<longleftrightarrow> (\<exists>x. m = Some (Inr x) \<and> f x = Some (Inr y))"
  by (auto simp: bindO_def split: option.splits sum.splits)

section \<open>Machine integers\<close>

text \<open>
  The code's \<open>int\<close> is 32 bits wide and \<open>size_t\<close> 64. Signed arithmetic that leaves the range
  is undefined (\<open>chk_i32\<close>); converting a wider or unsigned value to \<open>int\<close> wraps (\<open>to_i32\<close>),
  and converting to \<open>size_t\<close> reduces modulo \<open>2 ^ 64\<close> (\<open>to_size\<close>).
\<close>

definition in_i32 :: "int \<Rightarrow> bool" where
  "in_i32 x \<longleftrightarrow> - 2147483648 \<le> x \<and> x \<le> 2147483647"

definition to_i32 :: "int \<Rightarrow> int" where
  "to_i32 x = (x + 2147483648) mod 4294967296 - 2147483648"

definition chk_i32 :: "int \<Rightarrow> int res" where
  "chk_i32 x = (if in_i32 x then Inr x else Inl SignedOverflow)"

definition to_size :: "int \<Rightarrow> int" where
  "to_size x = x mod 18446744073709551616"

lemma in_i32I: "- 2147483648 \<le> x \<Longrightarrow> x \<le> 2147483647 \<Longrightarrow> in_i32 x"
  by (simp add: in_i32_def)

lemma to_i32_id [simp]: "in_i32 x \<Longrightarrow> to_i32 x = x"
  by (simp add: to_i32_def in_i32_def)

lemma in_i32_to_i32 [simp]: "in_i32 (to_i32 x)"
  by (auto simp: in_i32_def to_i32_def intro: pos_mod_bound)

lemma chk_i32_Inr [simp]: "in_i32 x \<Longrightarrow> chk_i32 x = Inr x"
  by (simp add: chk_i32_def)

lemma chk_i32_Inr_iff [fault_simps]: "chk_i32 x = Inr y \<longleftrightarrow> in_i32 x \<and> y = x"
  by (auto simp: chk_i32_def)

lemma to_i32_to_size [simp]: "to_i32 (to_size x) = to_i32 x"
proof -
  have "x mod 18446744073709551616 mod 4294967296 = x mod 4294967296"
    by (rule mod_mod_cancel) simp
  then have "(x mod 18446744073709551616 + 2147483648) mod 4294967296 = (x + 2147483648) mod 4294967296"
    by (rule mod_add_cong) simp
  then show ?thesis by (simp add: to_i32_def to_size_def)
qed

lemma to_size_id: "0 \<le> x \<Longrightarrow> x < 18446744073709551616 \<Longrightarrow> to_size x = x"
  by (simp add: to_size_def)

lemma to_size_neg:
  assumes "x < 0" and "in_i32 x"
  shows "to_size x = x + 18446744073709551616"
proof -
  have "(x + 18446744073709551616) mod 18446744073709551616 = x + 18446744073709551616"
    using assms by (intro mod_pos_pos_trivial) (auto simp: in_i32_def)
  then show ?thesis by (simp add: to_size_def)
qed

text \<open>A negative \<open>int\<close> becomes a \<open>size_t\<close> beyond every object the code allocates.\<close>

lemma to_size_neg_large: "x < 0 \<Longrightarrow> in_i32 x \<Longrightarrow> 2147483647 < to_size x"
  by (simp add: to_size_neg in_i32_def)

section \<open>Byte arrays\<close>

definition mem_read :: "string \<Rightarrow> int \<Rightarrow> int \<Rightarrow> string res" where
  "mem_read xs i n =
     (if 0 \<le> i \<and> 0 \<le> n \<and> i + n \<le> int (length xs)
      then Inr (take (nat n) (drop (nat i) xs)) else Inl OutOfBounds)"

definition mem_write :: "string \<Rightarrow> int \<Rightarrow> string \<Rightarrow> string res" where
  "mem_write xs i ys =
     (if 0 \<le> i \<and> i + int (length ys) \<le> int (length xs)
      then Inr (take (nat i) xs @ ys @ drop (nat i + length ys) xs) else Inl OutOfBounds)"

definition mem_at :: "string \<Rightarrow> int \<Rightarrow> char res" where
  "mem_at xs i = (if 0 \<le> i \<and> i < int (length xs) then Inr (xs ! nat i) else Inl OutOfBounds)"

lemma mem_read_ok [mem_simps]:
  "0 \<le> i \<Longrightarrow> 0 \<le> n \<Longrightarrow> i + n \<le> int (length xs) \<Longrightarrow>
   mem_read xs i n = Inr (take (nat n) (drop (nat i) xs))"
  by (simp add: mem_read_def)

lemma mem_write_ok [mem_simps]:
  "0 \<le> i \<Longrightarrow> i + int (length ys) \<le> int (length xs) \<Longrightarrow>
   mem_write xs i ys = Inr (take (nat i) xs @ ys @ drop (nat i + length ys) xs)"
  by (simp add: mem_write_def)

lemma mem_at_ok [mem_simps]:
  "0 \<le> i \<Longrightarrow> i < int (length xs) \<Longrightarrow> mem_at xs i = Inr (xs ! nat i)"
  by (simp add: mem_at_def)

lemma mem_write_length: "mem_write xs i ys = Inr zs \<Longrightarrow> length zs = length xs"
  by (auto simp: mem_write_def split: if_splits)

text \<open>\<open>std::vector<char> v(n)\<close>: \<open>n\<close> zero bytes; a negative \<open>n\<close> is a huge \<open>size_t\<close> and throws.\<close>

definition nul :: char where
  "nul = char_of (0::nat)"

definition vec_new :: "int \<Rightarrow> string res" where
  "vec_new n = (if n < 0 then Inl LengthError else Inr (replicate (nat n) nul))"

definition memcpy :: "string \<Rightarrow> int \<Rightarrow> string \<Rightarrow> int \<Rightarrow> int \<Rightarrow> string res" where
  "memcpy dst i src j n = bindR (mem_read src j n) (mem_write dst i)"

lemma vec_new_ok [mem_simps]: "0 \<le> n \<Longrightarrow> vec_new n = Inr (replicate (nat n) nul)"
  by (simp add: vec_new_def)

text \<open>The C string that starts a byte array: what precedes its first NUL byte. Without a NUL
  byte the scan leaves the array.\<close>

definition c_string :: "string \<Rightarrow> string res" where
  "c_string xs = (if nul \<in> set xs then Inr (takeWhile (\<lambda>c. c \<noteq> nul) xs) else Inl OutOfBounds)"

lemma c_string_padded:
  assumes "nul \<notin> set xs" and "0 < k"
  shows "c_string (xs @ replicate k nul) = Inr xs"
proof -
  have "takeWhile (\<lambda>c. c \<noteq> nul) (xs @ replicate k nul) = xs"
    using assms by (induction xs) (cases k; auto)+
  then show ?thesis using assms by (simp add: c_string_def)
qed

section \<open>Lists\<close>

lemma take_drop_mid:
  "length a = i \<Longrightarrow> length b = n \<Longrightarrow> take n (drop i (a @ b @ c)) = b"
  by simp

lemma drop_take_eq_Nil: "n \<le> i \<Longrightarrow> drop i (take n xs) = []"
  by simp

lemma filter_key_dropWhile:
  assumes "sorted (map fst xs)"
  shows "dropWhile (\<lambda>p. fst p \<le> k) xs = filter (\<lambda>p. \<not> fst p \<le> (k :: 'k :: linorder)) xs"
  using assms
proof (induction xs)
  case (Cons x xs)
  then have "\<forall>p\<in>set xs. fst x \<le> fst p" by simp
  then have "\<not> fst x \<le> k \<Longrightarrow> filter (\<lambda>p. \<not> fst p \<le> k) xs = xs"
    by (fastforce simp: filter_id_conv)
  with Cons show ?case by simp
qed simp

lemma filter_key_takeWhile:
  assumes "sorted (map fst xs)"
  shows "takeWhile (\<lambda>p. fst p \<le> k) xs = filter (\<lambda>p. fst p \<le> (k :: 'k :: linorder)) xs"
  using assms
proof (induction xs)
  case (Cons x xs)
  then have "\<forall>p\<in>set xs. fst x \<le> fst p" by simp
  then have "\<not> fst x \<le> k \<Longrightarrow> filter (\<lambda>p. fst p \<le> k) xs = []"
    by (fastforce simp: filter_empty_conv)
  with Cons show ?case by simp
qed simp

section \<open>The clock\<close>

text \<open>
  \<open>gettimeofday\<close> is the environment. A \<open>clock\<close> gives the reading (seconds, microseconds) that
  each successive call returns, so nothing is assumed about how time passes between two calls.
\<close>

record clock =
  clk_reading :: "nat \<Rightarrow> int \<times> int"
  clk_calls :: nat

end
