(* ===== verification/Tcp_Buffer.thy ===== *)
theory Tcp_Buffer
  imports Rpc_Prelude
begin

text \<open>
  The growable byte buffer \<open>TcpBuffer\<close> (\<open>src/net/tcp/tcp_buffer.cc\<close>): a vector of bytes with a
  read and a write index. Each member function is one definition; a copy outside the vector, a
  negative vector size or an \<open>int\<close> overflow is a fault of the result.

  The abstraction is the sequence of readable bytes (\<open>content\<close>). The lemmas show that writing
  appends to it, reading takes a prefix, compaction and growth leave it alone, and that no
  operation faults while the indices are in order; the locale \<open>byte_queue\<close> states this contract
  for the components that use the buffer. The last section shows what \<open>adjust_read_index\<close> and
  \<open>adjust_write_index\<close> do at the end of the vector.
\<close>

section \<open>State and operations\<close>

record tcp_buffer =
  m_read_index :: int
  m_write_index :: int
  m_size :: int
  m_buffer :: string

definition TcpBuffer_new :: "int \<Rightarrow> tcp_buffer res" where
  "TcpBuffer_new sz = bindR (vec_new sz)
     (\<lambda>v. Inr \<lparr>m_read_index = 0, m_write_index = 0, m_size = sz, m_buffer = v\<rparr>)"

definition can_read_bytes_num :: "tcp_buffer \<Rightarrow> int" where
  "can_read_bytes_num b = m_write_index b - m_read_index b"

definition can_write_bytes_num :: "tcp_buffer \<Rightarrow> int" where
  "can_write_bytes_num b = to_i32 (to_size (int (length (m_buffer b)) - m_write_index b))"

definition resize_buffer :: "int \<Rightarrow> tcp_buffer \<Rightarrow> tcp_buffer res" where
  "resize_buffer new_size b =
     bindR (vec_new new_size) (\<lambda>new_buffer.
     let count = min new_size (can_read_bytes_num b)
     in bindR (memcpy new_buffer 0 (m_buffer b) (m_read_index b) count) (\<lambda>filled.
        Inr (b\<lparr>m_buffer := filled, m_read_index := 0, m_write_index := 0 + count\<rparr>)))"

text \<open>\<open>static_cast<int>(1.5 * n)\<close> truncates toward zero; a product beyond \<open>int\<close> is undefined.\<close>

definition scale_1_5 :: "int \<Rightarrow> int res" where
  "scale_1_5 n = chk_i32 (if 0 \<le> n then 3 * n div 2 else - (3 * (- n) div 2))"

definition write_to_buffer :: "string \<Rightarrow> tcp_buffer \<Rightarrow> tcp_buffer res" where
  "write_to_buffer buffer b =
     (let sz = int (length buffer)
      in bindR
           (if sz > can_write_bytes_num b
            then bindR (chk_i32 (m_write_index b + sz)) (\<lambda>n.
                 bindR (scale_1_5 n) (\<lambda>new_size. resize_buffer new_size b))
            else Inr b) (\<lambda>b1.
         bindR (mem_write (m_buffer b1) (m_write_index b1) buffer) (\<lambda>v.
         bindR (chk_i32 (m_write_index b1 + sz)) (\<lambda>w.
         Inr (b1\<lparr>m_buffer := v, m_write_index := w\<rparr>)))))"

definition adjust_buffer :: "tcp_buffer \<Rightarrow> tcp_buffer res" where
  "adjust_buffer b =
     (if m_read_index b < to_i32 (int (length (m_buffer b)) div 3) then Inr b
      else let count = can_read_bytes_num b
           in bindR (vec_new (int (length (m_buffer b)))) (\<lambda>new_buffer.
              bindR (memcpy new_buffer 0 (m_buffer b) (m_read_index b) count) (\<lambda>filled.
              Inr (b\<lparr>m_buffer := filled, m_read_index := 0, m_write_index := 0 + count\<rparr>))))"

text \<open>The vector \<open>re\<close> is swapped for the bytes read, and is left alone when there are none.\<close>

definition read_from_buffer :: "string \<Rightarrow> int \<Rightarrow> tcp_buffer \<Rightarrow> (string \<times> tcp_buffer) res" where
  "read_from_buffer re sz b =
     (if can_read_bytes_num b = 0 then Inr (re, b)
      else let read_size = min sz (can_read_bytes_num b)
           in bindR (vec_new read_size) (\<lambda>temp.
              bindR (memcpy temp 0 (m_buffer b) (m_read_index b) read_size) (\<lambda>filled.
              bindR (adjust_buffer (b\<lparr>m_read_index := m_read_index b + read_size\<rparr>)) (\<lambda>b1.
              Inr (filled, b1)))))"

definition adjust_read_index :: "int \<Rightarrow> tcp_buffer \<Rightarrow> tcp_buffer res" where
  "adjust_read_index sz b =
     bindR (chk_i32 (m_read_index b + sz)) (\<lambda>n.
     let j = to_size n
     in if j \<ge> int (length (m_buffer b)) then Inr b
        else adjust_buffer (b\<lparr>m_read_index := to_i32 j\<rparr>))"

definition adjust_write_index :: "int \<Rightarrow> tcp_buffer \<Rightarrow> tcp_buffer res" where
  "adjust_write_index sz b =
     bindR (chk_i32 (m_write_index b + sz)) (\<lambda>n.
     let j = to_size n
     in if j \<ge> int (length (m_buffer b)) then Inr b
        else adjust_buffer (b\<lparr>m_write_index := to_i32 j\<rparr>))"

section \<open>Invariant and abstraction\<close>

definition buf_inv :: "tcp_buffer \<Rightarrow> bool" where
  "buf_inv b \<longleftrightarrow> 0 \<le> m_read_index b \<and> m_read_index b \<le> m_write_index b \<and>
     m_write_index b \<le> int (length (m_buffer b)) \<and> int (length (m_buffer b)) \<le> 2147483647"

text \<open>What compaction keeps true besides: the consumed bytes take less than a third.\<close>

definition buf_tight :: "tcp_buffer \<Rightarrow> bool" where
  "buf_tight b \<longleftrightarrow> buf_inv b \<and>
     (m_read_index b = 0 \<or> m_read_index b < int (length (m_buffer b)) div 3)"

definition content :: "tcp_buffer \<Rightarrow> string" where
  "content b = take (nat (m_write_index b - m_read_index b)) (drop (nat (m_read_index b)) (m_buffer b))"

lemma buf_tight_inv: "buf_tight b \<Longrightarrow> buf_inv b"
  by (simp add: buf_tight_def)

lemma content_length: "buf_inv b \<Longrightarrow> int (length (content b)) = can_read_bytes_num b"
  by (auto simp: buf_inv_def content_def can_read_bytes_num_def)

lemma can_write_bytes_num_inv:
  "buf_inv b \<Longrightarrow> can_write_bytes_num b = int (length (m_buffer b)) - m_write_index b"
  by (auto simp: buf_inv_def can_write_bytes_num_def in_i32_def)

lemma memcpy_prefix:
  assumes "0 \<le> j" "0 \<le> n" "j + n \<le> int (length src)" "n \<le> k"
  shows "memcpy (replicate (nat k) nul) 0 src j n =
    Inr (take (nat n) (drop (nat j) src) @ replicate (nat k - nat n) nul)"
  using assms by (simp add: memcpy_def mem_simps)

text \<open>The new vector of a move: the readable bytes, then zeros.\<close>

lemma resize_buffer_ok:
  assumes "buf_inv b" and "can_read_bytes_num b \<le> n"
  shows "resize_buffer n b = Inr (b\<lparr>m_buffer := content b @ replicate (nat n - length (content b)) nul,
     m_read_index := 0, m_write_index := can_read_bytes_num b\<rparr>)"
  using assms memcpy_prefix [of "m_read_index b" "can_read_bytes_num b" "m_buffer b" n]
  by (auto simp: resize_buffer_def mem_simps buf_inv_def can_read_bytes_num_def content_def
      min_absorb2 nat_diff_distrib)

lemma adjust_buffer_ok:
  assumes "buf_inv b"
  obtains b' where "adjust_buffer b = Inr b'" "buf_tight b'" "content b' = content b"
    "length (m_buffer b') = length (m_buffer b)"
    "can_read_bytes_num b' = can_read_bytes_num b" "m_write_index b' \<le> m_write_index b"
proof (cases "m_read_index b < int (length (m_buffer b)) div 3")
  case True
  with assms have "adjust_buffer b = Inr b" "buf_tight b"
    by (auto simp: adjust_buffer_def buf_inv_def buf_tight_def in_i32_def)
  with that show thesis by blast
next
  case False
  let ?n = "can_read_bytes_num b"
  let ?b = "b\<lparr>m_buffer := content b @ replicate (length (m_buffer b) - nat ?n) nul,
    m_read_index := 0, m_write_index := ?n\<rparr>"
  have len: "length (content b) = nat ?n" "0 \<le> ?n" "nat ?n \<le> length (m_buffer b)"
    using assms content_length [OF assms] by (auto simp: buf_inv_def can_read_bytes_num_def)
  have "adjust_buffer b = Inr ?b"
    using False assms memcpy_prefix [of "m_read_index b" ?n "m_buffer b" "int (length (m_buffer b))"]
    by (auto simp: adjust_buffer_def mem_simps buf_inv_def can_read_bytes_num_def content_def
        in_i32_def Let_def)
  moreover have "buf_tight ?b" "content ?b = content b"
    using assms len by (auto simp: buf_tight_def buf_inv_def content_def can_read_bytes_num_def)
  ultimately show thesis
    using that [of ?b] len assms
    by (auto simp: buf_inv_def can_read_bytes_num_def)
qed

section \<open>The contract of a byte queue\<close>

text \<open>
  What a client of the buffer relies on. A \<open>byte_sink\<close> takes bytes up to a limit and keeps them
  in order; a \<open>byte_queue\<close> also gives them back. Its consequences are proved for any such
  structure: a loop of writes appends everything, and any run of reads and writes answers as
  an unbounded queue of bytes does.
\<close>

datatype queue_op = QWrite string | QRead int

fun queue_run ::
  "(string \<Rightarrow> 'b \<Rightarrow> 'b res) \<Rightarrow> (int \<Rightarrow> 'b \<Rightarrow> (string \<times> 'b) res) \<Rightarrow> queue_op list \<Rightarrow> 'b \<Rightarrow>
   (string list \<times> 'b) res" where
  "queue_run wr rd [] b = Inr ([], b)"
| "queue_run wr rd (QWrite d # xs) b = bindR (wr d b) (queue_run wr rd xs)"
| "queue_run wr rd (QRead n # xs) b =
     bindR (rd n b) (\<lambda>(out, b1). bindR (queue_run wr rd xs b1) (\<lambda>(outs, b2). Inr (out # outs, b2)))"

fun queue_spec :: "queue_op list \<Rightarrow> string \<Rightarrow> string list \<times> string" where
  "queue_spec [] q = ([], q)"
| "queue_spec (QWrite d # xs) q = queue_spec xs (q @ d)"
| "queue_spec (QRead n # xs) q =
     (let (outs, r) = queue_spec xs (drop (nat n) q) in (take (nat n) q # outs, r))"

text \<open>Reads ask for a non-negative number of bytes, and what is queued stays within the limit.\<close>

fun queue_fits :: "nat \<Rightarrow> queue_op list \<Rightarrow> string \<Rightarrow> bool" where
  "queue_fits lim [] q \<longleftrightarrow> length q \<le> lim"
| "queue_fits lim (QWrite d # xs) q \<longleftrightarrow> length q + length d \<le> lim \<and> queue_fits lim xs (q @ d)"
| "queue_fits lim (QRead n # xs) q \<longleftrightarrow> 0 \<le> n \<and> queue_fits lim xs (drop (nat n) q)"

locale byte_sink =
  fixes wr :: "string \<Rightarrow> 'b \<Rightarrow> 'b res"
    and bytes :: "'b \<Rightarrow> string"
    and good :: "'b \<Rightarrow> bool"
    and lim :: nat
  assumes wr_law: "good b \<Longrightarrow> length (bytes b) + length d \<le> lim \<Longrightarrow>
    \<exists>b'. wr d b = Inr b' \<and> good b' \<and> bytes b' = bytes b @ d"
begin

lemma wr_all:
  "good b \<Longrightarrow> length (bytes b) + length (concat ds) \<le> lim \<Longrightarrow>
   \<exists>b'. foldR wr ds b = Inr b' \<and> good b' \<and> bytes b' = bytes b @ concat ds"
proof (induction ds arbitrary: b)
  case (Cons d ds)
  then obtain b1 where "wr d b = Inr b1" "good b1" "bytes b1 = bytes b @ d"
    using wr_law [of b d] by auto
  then show ?case using Cons.IH [of b1] Cons.prems by auto
qed simp

end

locale byte_queue = byte_sink wr bytes good lim
  for wr :: "string \<Rightarrow> 'b \<Rightarrow> 'b res" and bytes good lim +
  fixes rd :: "int \<Rightarrow> 'b \<Rightarrow> (string \<times> 'b) res"
  assumes rd_law: "good b \<Longrightarrow> 0 \<le> n \<Longrightarrow>
    \<exists>b'. rd n b = Inr (take (nat n) (bytes b), b') \<and> good b' \<and> bytes b' = drop (nat n) (bytes b)"
begin

lemma run_refines_spec:
  "good b \<Longrightarrow> queue_fits lim xs (bytes b) \<Longrightarrow>
   \<exists>b'. queue_run wr rd xs b = Inr (fst (queue_spec xs (bytes b)), b') \<and> good b' \<and>
     bytes b' = snd (queue_spec xs (bytes b))"
proof (induction xs arbitrary: b)
  case (Cons x xs)
  show ?case
  proof (cases x)
    case (QWrite d)
    then obtain b1 where "wr d b = Inr b1" "good b1" "bytes b1 = bytes b @ d"
      using wr_law [of b d] Cons.prems by auto
    then show ?thesis using Cons.IH [of b1] Cons.prems QWrite by auto
  next
    case (QRead n)
    then obtain b1 where "rd n b = Inr (take (nat n) (bytes b), b1)" "good b1"
        "bytes b1 = drop (nat n) (bytes b)"
      using rd_law [of b n] Cons.prems by auto
    then show ?thesis using Cons.IH [of b1] Cons.prems QRead
      by (auto simp: Let_def split: prod.splits)
  qed
qed simp

end

section \<open>The buffer keeps the contract\<close>

text \<open>
  A buffer accepts up to \<open>9 * 10 ^ 8\<close> readable bytes: growth to \<open>1.5\<close> times what is needed then
  stays within \<open>int\<close>, because a tight buffer wastes less than a third of its vector.
\<close>

definition buf_limit :: nat where
  "buf_limit = 900000000"

lemma can_read_content: "buf_inv b \<Longrightarrow> can_read_bytes_num b = int (length (content b))"
  by (simp add: content_length)

lemma write_in_place:
  assumes "buf_tight b" and "int (length d) \<le> int (length (m_buffer b)) - m_write_index b"
  obtains b' where
    "bindR (mem_write (m_buffer b) (m_write_index b) d) (\<lambda>v.
       bindR (chk_i32 (m_write_index b + int (length d))) (\<lambda>w.
       Inr (b\<lparr>m_buffer := v, m_write_index := w\<rparr>))) = Inr b'"
    "buf_tight b'" "content b' = content b @ d" "length (m_buffer b') = length (m_buffer b)"
proof -
  let ?v = "take (nat (m_write_index b)) (m_buffer b) @ d @
    drop (nat (m_write_index b) + length d) (m_buffer b)"
  let ?b = "b\<lparr>m_buffer := ?v, m_write_index := m_write_index b + int (length d)\<rparr>"
  have inv: "buf_inv b" using assms(1) by (rule buf_tight_inv)
  have "bindR (mem_write (m_buffer b) (m_write_index b) d) (\<lambda>v.
       bindR (chk_i32 (m_write_index b + int (length d))) (\<lambda>w.
       Inr (b\<lparr>m_buffer := v, m_write_index := w\<rparr>))) = Inr ?b"
    using inv assms(2) by (simp add: mem_simps buf_inv_def in_i32_def)
  moreover have len: "length ?v = length (m_buffer b)"
    using inv assms(2) by (auto simp: buf_inv_def)
  moreover have "buf_tight ?b"
    using assms len by (auto simp: buf_tight_def buf_inv_def)
  moreover have "content ?b = content b @ d"
    using inv assms(2)
    by (auto simp: buf_inv_def content_def nat_add_distrib nat_diff_distrib drop_take min_absorb2
        Suc_diff_le)
  ultimately show thesis using that by auto
qed

text \<open>Growth: the bytes move to the front of a vector with room for the write.\<close>

lemma grow_ok:
  assumes "buf_tight b" and "length (content b) + length d \<le> buf_limit"
    and "int (length (m_buffer b)) - m_write_index b < int (length d)"
  obtains b1 where
    "bindR (chk_i32 (m_write_index b + int (length d))) (\<lambda>n.
       bindR (scale_1_5 n) (\<lambda>new_size. resize_buffer new_size b)) = Inr b1"
    "buf_tight b1" "content b1 = content b"
    "int (length d) \<le> int (length (m_buffer b1)) - m_write_index b1"
    "4 * length (m_buffer b1) \<le> 9 * (length (content b) + length d)"
proof -
  define n where "n = m_write_index b + int (length d)"
  define c where "c = int (length (content b))"
  have inv: "buf_inv b" using assms(1) by (rule buf_tight_inv)
  have c: "c = m_write_index b - m_read_index b"
    using content_length [OF inv] by (simp add: c_def can_read_bytes_num_def)
  have "2 * m_read_index b \<le> c + int (length d)"
    using assms inv c by (auto simp: buf_tight_def buf_inv_def)
  then have n: "2 * n \<le> 3 * (c + int (length d))" "c + int (length d) \<le> n" "0 \<le> c"
    using inv c by (auto simp: n_def buf_inv_def)
  have lim: "c + int (length d) \<le> 900000000"
    using assms(2) by (simp add: c_def buf_limit_def)
  have "0 \<le> n" using n lim by linarith
  moreover have "3 * n div 2 \<le> 4050000000 div 2" using n lim by (intro zdiv_mono1) auto
  ultimately have sc: "in_i32 n" "scale_1_5 n = Inr (3 * n div 2)"
    using n lim by (auto simp: scale_1_5_def in_i32_def chk_i32_def)
  define b1 where "b1 = b\<lparr>m_buffer := content b @ replicate (nat (3 * n div 2) - length (content b)) nul,
     m_read_index := 0, m_write_index := can_read_bytes_num b\<rparr>"
  have grown: "bindR (chk_i32 n) (\<lambda>n. bindR (scale_1_5 n) (\<lambda>sz. resize_buffer sz b)) = Inr b1"
    using n sc resize_buffer_ok [OF inv, of "3 * n div 2"]
    by (simp add: can_read_content [OF inv] c_def [symmetric] b1_def)
  have fields: "m_read_index b1 = 0" "m_write_index b1 = c" "length (m_buffer b1) = nat (3 * n div 2)"
    using n by (simp_all add: b1_def can_read_content [OF inv] c_def)
  have tight: "buf_tight b1"
    using n lim fields by (auto simp: buf_tight_def buf_inv_def)
  have same: "content b1 = content b"
    unfolding content_def [of b1] by (simp add: b1_def can_read_content [OF inv])
  show thesis
    using that [OF _ tight same] grown fields n by (auto simp: n_def [symmetric] c_def)
qed

lemma write_to_buffer_ok:
  assumes "buf_tight b" and "length (content b) + length d \<le> buf_limit"
  obtains b' where "write_to_buffer d b = Inr b'" "buf_tight b'" "content b' = content b @ d"
    "4 * length (m_buffer b') \<le> max (4 * length (m_buffer b)) (9 * (length (content b) + length d))"
proof (cases "int (length (m_buffer b)) - m_write_index b < int (length d)")
  case False
  then obtain b' where b': "bindR (mem_write (m_buffer b) (m_write_index b) d) (\<lambda>v.
       bindR (chk_i32 (m_write_index b + int (length d))) (\<lambda>w.
       Inr (b\<lparr>m_buffer := v, m_write_index := w\<rparr>))) = Inr b'"
    "buf_tight b'" "content b' = content b @ d" "length (m_buffer b') = length (m_buffer b)"
    using write_in_place [OF assms(1), of d] by (metis not_less)
  have "write_to_buffer d b = Inr b'"
    unfolding write_to_buffer_def Let_def can_write_bytes_num_inv [OF buf_tight_inv [OF assms(1)]]
    using False b'(1) by (simp only: if_False bindR.simps)
  with b' show thesis using that [of b'] by simp
next
  case True
  obtain b1 where b1:
    "bindR (chk_i32 (m_write_index b + int (length d))) (\<lambda>n.
       bindR (scale_1_5 n) (\<lambda>new_size. resize_buffer new_size b)) = Inr b1"
    "buf_tight b1" "content b1 = content b"
    "int (length d) \<le> int (length (m_buffer b1)) - m_write_index b1"
    "4 * length (m_buffer b1) \<le> 9 * (length (content b) + length d)"
    using grow_ok [OF assms True] by blast
  obtain b' where b': "bindR (mem_write (m_buffer b1) (m_write_index b1) d) (\<lambda>v.
       bindR (chk_i32 (m_write_index b1 + int (length d))) (\<lambda>w.
       Inr (b1\<lparr>m_buffer := v, m_write_index := w\<rparr>))) = Inr b'"
    "buf_tight b'" "content b' = content b1 @ d" "length (m_buffer b') = length (m_buffer b1)"
    using write_in_place [OF b1(2,4)] by blast
  have "write_to_buffer d b = Inr b'"
    unfolding write_to_buffer_def Let_def can_write_bytes_num_inv [OF buf_tight_inv [OF assms(1)]]
    using True b1(1) b'(1) by (simp only: if_True bindR.simps)
  with b1 b' show thesis using that [of b'] by simp
qed

lemma read_from_buffer_ok:
  assumes "buf_tight b" and "0 \<le> n"
  obtains b' where "read_from_buffer [] n b = Inr (take (nat n) (content b), b')" "buf_tight b'"
    "content b' = drop (nat n) (content b)" "length (m_buffer b') = length (m_buffer b)"
proof (cases "can_read_bytes_num b = 0")
  case True
  then have "content b = []" by (simp add: content_def can_read_bytes_num_def)
  with True assms that show thesis by (simp add: read_from_buffer_def)
next
  case False
  have inv: "buf_inv b" using assms(1) by (rule buf_tight_inv)
  define k where "k = min n (can_read_bytes_num b)"
  let ?b = "b\<lparr>m_read_index := m_read_index b + k\<rparr>"
  have k: "0 \<le> k" "m_read_index b + k \<le> m_write_index b"
    using assms(2) inv by (auto simp: k_def buf_inv_def can_read_bytes_num_def)
  have taken: "take (nat k) (drop (nat (m_read_index b)) (m_buffer b)) = take (nat n) (content b)"
    using assms(2) inv by (auto simp: k_def content_def can_read_bytes_num_def buf_inv_def min_def)
  have "buf_inv ?b" using inv k by (auto simp: buf_inv_def)
  then obtain b' where b': "adjust_buffer ?b = Inr b'" "buf_tight b'" "content b' = content ?b"
      "length (m_buffer b') = length (m_buffer ?b)"
    by (rule adjust_buffer_ok)
  moreover have "content ?b = drop (nat n) (content b)"
    using k inv assms(2)
    by (auto simp: k_def content_def buf_inv_def can_read_bytes_num_def drop_take nat_add_distrib
        nat_diff_distrib min_def diff_diff_eq add.commute)
  moreover have "read_from_buffer [] n b = Inr (take (nat n) (content b), b')"
    using False b'(1) k inv memcpy_prefix [of "m_read_index b" k "m_buffer b" k]
    by (simp add: read_from_buffer_def k_def [symmetric] mem_simps taken buf_inv_def)
  ultimately show thesis using that by simp
qed

interpretation tb: byte_queue write_to_buffer content buf_tight buf_limit "read_from_buffer []"
proof unfold_locales
  show "buf_tight b \<Longrightarrow> length (content b) + length d \<le> buf_limit \<Longrightarrow>
      \<exists>b'. write_to_buffer d b = Inr b' \<and> buf_tight b' \<and> content b' = content b @ d" for b d
    using write_to_buffer_ok [of b d] by blast
  show "buf_tight b \<Longrightarrow> 0 \<le> n \<Longrightarrow>
      \<exists>b'. read_from_buffer [] n b = Inr (take (nat n) (content b), b') \<and> buf_tight b' \<and>
        content b' = drop (nat n) (content b)" for b n
    using read_from_buffer_ok [of b n] by blast
qed

lemma TcpBuffer_new_ok:
  assumes "0 \<le> n" and "n \<le> 2147483647"
  obtains b where "TcpBuffer_new n = Inr b" "buf_tight b" "content b = []"
    "length (m_buffer b) = nat n" "m_write_index b = 0" "m_read_index b = 0"
  using assms that by (simp add: TcpBuffer_new_def mem_simps buf_tight_def buf_inv_def content_def)

text \<open>C14 (The buffer is a FIFO queue of bytes).
  From any tight buffer, every sequence of \<open>write_to_buffer\<close> and \<open>read_from_buffer\<close> calls whose
  queued bytes stay within the limit returns without a fault, hands out exactly the bytes an
  unbounded queue would hand out, in order, and leaves the buffer holding the queue's rest;
  compaction and growth are invisible.\<close>

theorem tcp_buffer_refines_fifo:
  assumes "buf_tight b" and "queue_fits buf_limit xs (content b)"
  shows "\<exists>b'. queue_run write_to_buffer (read_from_buffer []) xs b
      = Inr (fst (queue_spec xs (content b)), b') \<and>
    buf_tight b' \<and> content b' = snd (queue_spec xs (content b))"
  using assms by (rule tb.run_refines_spec)

definition sample_buffer :: tcp_buffer where
  "sample_buffer = \<lparr>m_read_index = 0, m_write_index = 2, m_size = 4, m_buffer = ''abcd''\<rparr>"

lemma sample_buffer: "buf_tight sample_buffer" "content sample_buffer = ''ab''"
  by (simp_all add: sample_buffer_def buf_tight_def buf_inv_def content_def numeral_2_eq_2)

lemma tcp_buffer_refines_fifo_witness:
  "\<exists>b'. queue_run write_to_buffer (read_from_buffer []) [QWrite ''xyz'', QRead 3, QRead 9] sample_buffer
      = Inr ([''abx'', ''yz''], b') \<and> buf_tight b' \<and> content b' = []"
  using tcp_buffer_refines_fifo [of sample_buffer "[QWrite ''xyz'', QRead 3, QRead 9]"] sample_buffer
  by (simp add: buf_limit_def numeral_3_eq_3)

text \<open>Lemma (Writing appends, in bounded memory).
  \<open>write_to_buffer\<close> never copies outside the vector and never overflows \<open>int\<close>: it returns with
  the bytes appended, and the vector grows to at most \<open>9/4\<close> of the bytes it must hold.\<close>

theorem write_to_buffer_appends:
  assumes "buf_tight b" and "length (content b) + length d \<le> buf_limit"
  shows "\<exists>b'. write_to_buffer d b = Inr b' \<and> buf_tight b' \<and> content b' = content b @ d \<and>
    4 * length (m_buffer b') \<le> max (4 * length (m_buffer b)) (9 * (length (content b) + length d))"
  using write_to_buffer_ok [OF assms] by blast

lemma write_to_buffer_appends_witness:
  "\<exists>b'. write_to_buffer ''xyz'' sample_buffer = Inr b' \<and> buf_tight b' \<and> content b' = ''abxyz'' \<and>
    4 * length (m_buffer b') \<le> 45"
  using write_to_buffer_appends [OF sample_buffer(1), of "''xyz''"] sample_buffer(2)
  by (simp add: buf_limit_def sample_buffer_def)

section \<open>Moving the indices directly\<close>

text \<open>
  The decoder consumes with \<open>adjust_read_index\<close> and the connection commits what \<open>read\<close> put into
  the vector with \<open>adjust_write_index\<close>. Both refuse, with a log line only, a move that ends
  exactly at the end of the vector.
\<close>

lemma adjust_read_index_moves:
  assumes "buf_inv b" and "0 \<le> n" and "n \<le> can_read_bytes_num b"
    and "m_read_index b + n < int (length (m_buffer b))"
  obtains b' where "adjust_read_index n b = Inr b'" "buf_tight b'"
    "content b' = drop (nat n) (content b)"
    "length (m_buffer b') = length (m_buffer b)" "m_write_index b' \<le> m_write_index b"
proof -
  let ?b = "b\<lparr>m_read_index := m_read_index b + n\<rparr>"
  have j: "in_i32 (m_read_index b + n)" "to_size (m_read_index b + n) = m_read_index b + n"
    "buf_inv ?b"
    using assms by (auto simp: buf_inv_def can_read_bytes_num_def in_i32_def intro!: to_size_id)
  obtain b' where b': "adjust_buffer ?b = Inr b'" "buf_tight b'" "content b' = content ?b"
      "length (m_buffer b') = length (m_buffer ?b)" "m_write_index b' \<le> m_write_index ?b"
    using adjust_buffer_ok [OF j(3)] by blast
  have "content ?b = drop (nat n) (content b)"
    using assms by (auto simp: content_def buf_inv_def can_read_bytes_num_def drop_take nat_add_distrib
        nat_diff_distrib diff_diff_eq add.commute)
  then show thesis
    using that [of b'] b' j assms(4) by (simp add: adjust_read_index_def Let_def)
qed

lemma adjust_read_index_refuses:
  assumes "buf_inv b" and "0 \<le> n" and "n \<le> can_read_bytes_num b"
    and "\<not> m_read_index b + n < int (length (m_buffer b))"
  shows "adjust_read_index n b = Inr b"
proof -
  have "in_i32 (m_read_index b + n)" "to_size (m_read_index b + n) = m_read_index b + n"
    using assms by (auto simp: buf_inv_def can_read_bytes_num_def in_i32_def intro!: to_size_id)
  then show ?thesis using assms(4) by (simp add: adjust_read_index_def Let_def)
qed

text \<open>Lemma (Consuming bytes, and the end of the vector).
  For \<open>n\<close> readable bytes, \<open>adjust_read_index n\<close> drops exactly the first \<open>n\<close> if the read index stays
  inside the vector; if it would land on the vector's end, the call returns with the buffer
  unchanged, so the bytes stay readable.\<close>

theorem adjust_read_index_consumes:
  assumes "buf_inv b" and "0 \<le> n" and "n \<le> can_read_bytes_num b"
  shows "if m_read_index b + n < int (length (m_buffer b))
    then \<exists>b'. adjust_read_index n b = Inr b' \<and> buf_tight b' \<and> content b' = drop (nat n) (content b) \<and>
           length (m_buffer b') = length (m_buffer b) \<and> m_write_index b' \<le> m_write_index b
    else adjust_read_index n b = Inr b"
  using adjust_read_index_moves [OF assms] adjust_read_index_refuses [OF assms] by (metis (no_types))

lemma adjust_read_index_consumes_witness:
  "if m_read_index sample_buffer + 1 < int (length (m_buffer sample_buffer))
    then \<exists>b'. adjust_read_index 1 sample_buffer = Inr b' \<and> buf_tight b' \<and>
           content b' = drop (nat 1) (content sample_buffer) \<and>
           length (m_buffer b') = length (m_buffer sample_buffer) \<and>
           m_write_index b' \<le> m_write_index sample_buffer
    else adjust_read_index 1 sample_buffer = Inr sample_buffer"
  by (rule adjust_read_index_consumes)
    (simp_all add: sample_buffer_def buf_inv_def can_read_bytes_num_def)

text \<open>What fits behind the write index stays inside the vector.\<close>

lemma can_write_room:
  "buf_inv b \<Longrightarrow> n \<le> can_write_bytes_num b \<Longrightarrow> m_write_index b + n \<le> int (length (m_buffer b))"
  using can_write_bytes_num_inv [of b] by simp

lemma adjust_write_index_moves:
  assumes "buf_inv b" and "0 \<le> n" and "n \<le> can_write_bytes_num b"
    and "m_write_index b + n < int (length (m_buffer b))"
  obtains b' where "adjust_write_index n b = Inr b'" "buf_tight b'"
    "content b' = content b @ take (nat n) (drop (nat (m_write_index b)) (m_buffer b))"
    "length (m_buffer b') = length (m_buffer b)" "m_write_index b' \<le> m_write_index b + n"
proof -
  note room = can_write_room [OF assms(1,3)]
  let ?b = "b\<lparr>m_write_index := m_write_index b + n\<rparr>"
  have j: "in_i32 (m_write_index b + n)" "to_size (m_write_index b + n) = m_write_index b + n"
    "buf_inv ?b"
    using assms room by (auto simp: buf_inv_def in_i32_def intro!: to_size_id)
  obtain b' where b': "adjust_buffer ?b = Inr b'" "buf_tight b'" "content b' = content ?b"
      "length (m_buffer b') = length (m_buffer ?b)" "m_write_index b' \<le> m_write_index ?b"
    using adjust_buffer_ok [OF j(3)] by blast
  have "content ?b = content b @ take (nat n) (drop (nat (m_write_index b)) (m_buffer b))"
  proof -
    have "nat (m_write_index b + n - m_read_index b) = nat (m_write_index b - m_read_index b) + nat n"
      and "drop (nat (m_write_index b - m_read_index b)) (drop (nat (m_read_index b)) (m_buffer b))
        = drop (nat (m_write_index b)) (m_buffer b)"
      using assms by (auto simp: buf_inv_def nat_diff_distrib)
    then show ?thesis by (simp add: content_def take_add)
  qed
  then show thesis
    using that [of b'] b' j assms(4) by (simp add: adjust_write_index_def Let_def)
qed

lemma adjust_write_index_refuses:
  assumes "buf_inv b" and "0 \<le> n" and "n \<le> can_write_bytes_num b"
    and "\<not> m_write_index b + n < int (length (m_buffer b))"
  shows "adjust_write_index n b = Inr b"
proof -
  have "in_i32 (m_write_index b + n)" "to_size (m_write_index b + n) = m_write_index b + n"
    using assms can_write_room [OF assms(1,3)]
    by (auto simp: buf_inv_def in_i32_def intro!: to_size_id)
  then show ?thesis using assms(4) by (simp add: adjust_write_index_def Let_def)
qed

text \<open>Lemma (Committing received bytes, and the end of the vector).
  After \<open>n\<close> bytes have been placed behind the write index, \<open>adjust_write_index n\<close> makes exactly
  those bytes readable if the write index stays inside the vector; if the bytes fill the vector
  to its end, the call returns with the buffer unchanged and the bytes are not readable: they
  are lost to the next \<open>read\<close> into the same place.\<close>

theorem adjust_write_index_commits:
  assumes "buf_inv b" and "0 \<le> n" and "n \<le> can_write_bytes_num b"
  shows "if m_write_index b + n < int (length (m_buffer b))
    then \<exists>b'. adjust_write_index n b = Inr b' \<and> buf_tight b' \<and>
           content b' = content b @ take (nat n) (drop (nat (m_write_index b)) (m_buffer b)) \<and>
           length (m_buffer b') = length (m_buffer b) \<and> m_write_index b' \<le> m_write_index b + n
    else adjust_write_index n b = Inr b"
  using adjust_write_index_moves [OF assms] adjust_write_index_refuses [OF assms] by (metis (no_types))

lemma adjust_write_index_commits_witness:
  "if m_write_index sample_buffer + 2 < int (length (m_buffer sample_buffer))
    then \<exists>b'. adjust_write_index 2 sample_buffer = Inr b' \<and> buf_tight b' \<and>
           content b' = content sample_buffer @
             take (nat 2) (drop (nat (m_write_index sample_buffer)) (m_buffer sample_buffer)) \<and>
           length (m_buffer b') = length (m_buffer sample_buffer) \<and>
           m_write_index b' \<le> m_write_index sample_buffer + 2
    else adjust_write_index 2 sample_buffer = Inr sample_buffer"
  by (rule adjust_write_index_commits)
    (simp_all add: sample_buffer_def buf_inv_def can_write_bytes_num_def in_i32_def)

end
