(* ===== verification/Coder.thy ===== *)
theory Coder
  imports Tcp_Buffer Rpc_Utils
begin

text \<open>
  Messages and their encoders (\<open>src/include/net/coder\<close>, \<open>src/net/coder/protobuf_coder.cc\<close>):
  \<open>AbstractProtocol\<close> and its two subclasses, the frame that \<open>ProtobufCoder::encode_protubuf\<close>
  builds in a \<open>malloc\<close>ed block, \<open>ProtobufCoder::encode\<close> and \<open>StringCoder\<close>.

  The lemmas show that the block is filled exactly, neither overrun nor left short, that the
  encoders append the frames of their messages to the out buffer in order, and state this as
  the locale \<open>abstract_coder\<close>, the interface a connection uses.
\<close>

section \<open>Messages\<close>

record abstract_protocol =
  m_msg_id :: string

record protobuf_protocol = abstract_protocol +
  m_pk_len :: int
  m_msg_id_len :: int
  m_method_name_len :: int
  m_method_name :: string
  m_err_info_len :: int
  m_err_code :: int
  m_err_info :: string
  m_pb_data :: string
  m_check_sum :: int
  m_parse_success :: bool

record string_protocol = abstract_protocol +
  m_info :: string

definition s_start :: char where "s_start = char_of (2::nat)"
definition s_end :: char where "s_end = char_of (3::nat)"

lemma s_start_neq_s_end [simp]: "s_start \<noteq> s_end" "s_end \<noteq> s_start"
  by (simp_all add: s_start_def s_end_def char_of_def)

definition ProtobufProtocol_new :: protobuf_protocol where
  "ProtobufProtocol_new = \<lparr>m_msg_id = [], m_pk_len = 0, m_msg_id_len = 0, m_method_name_len = 0,
     m_method_name = [], m_err_info_len = 0, m_err_code = 0, m_err_info = [], m_pb_data = [],
     m_check_sum = 0, m_parse_success = False\<rparr>"

definition StringProtocol_new :: string_protocol where
  "StringProtocol_new = \<lparr>m_msg_id = [], m_info = []\<rparr>"

text \<open>A \<open>shared_ptr<AbstractProtocol>\<close> points to an object of one of the two subclasses.\<close>

datatype protocol = ProtobufP protobuf_protocol | StringP string_protocol

fun protocol_msg_id :: "protocol \<Rightarrow> string" where
  "protocol_msg_id (ProtobufP p) = m_msg_id p"
| "protocol_msg_id (StringP p) = m_msg_id p"

text \<open>\<open>dynamic_pointer_cast\<close> to the wrong subclass gives a null pointer, which is dereferenced.\<close>

fun as_protobuf :: "protocol \<Rightarrow> protobuf_protocol res" where
  "as_protobuf (ProtobufP p) = Inr p"
| "as_protobuf (StringP p) = Inl NullDeref"

fun as_string_protocol :: "protocol \<Rightarrow> string_protocol res" where
  "as_string_protocol (StringP p) = Inr p"
| "as_string_protocol (ProtobufP p) = Inl NullDeref"

section \<open>Encoding one message\<close>

text \<open>\<open>memcpy(tmp, chunk); tmp += n\<close>: a cursor into the allocated block.\<close>

definition emit :: "string \<Rightarrow> int \<times> string \<Rightarrow> (int \<times> string) res" where
  "emit chunk = (\<lambda>(tmp, buf).
     bindR (mem_write buf tmp chunk) (\<lambda>buf'. Inr (tmp + int (length chunk), buf')))"

text \<open>A negative size becomes a huge \<open>size_t\<close>, for which \<open>malloc\<close> returns a null pointer.\<close>

definition malloc :: "int \<Rightarrow> string res" where
  "malloc n = (if 0 \<le> n then Inr (replicate (nat n) nul) else Inl NullDeref)"

definition int_length :: "string \<Rightarrow> int" where
  "int_length s = to_i32 (int (length s))"

definition with_msg_id :: "protobuf_protocol \<Rightarrow> protobuf_protocol" where
  "with_msg_id m = (if m_msg_id m = [] then m\<lparr>m_msg_id := ''123456789''\<rparr> else m)"

definition pk_len_of :: "protobuf_protocol \<Rightarrow> int" where
  "pk_len_of m = to_i32 (int (2 + 24 + length (m_msg_id m) + length (m_method_name m) +
     length (m_err_info m) + length (m_pb_data m)))"

definition frame_chunks :: "protobuf_protocol \<Rightarrow> string list" where
  "frame_chunks m =
     [[s_start], put_int32 (pk_len_of m),
      put_int32 (int_length (m_msg_id m)), m_msg_id m,
      put_int32 (int_length (m_method_name m)), m_method_name m,
      put_int32 (m_err_code m),
      put_int32 (int_length (m_err_info m)), m_err_info m,
      m_pb_data m, put_int32 1, [s_end]]"

definition encode_protubuf :: "protobuf_protocol \<Rightarrow> (string \<times> protobuf_protocol) res" where
  "encode_protubuf message =
     (let m = with_msg_id message; pk_len = pk_len_of m
      in bindR (malloc pk_len) (\<lambda>buf.
         bindR (foldR emit (frame_chunks m) (0, buf)) (\<lambda>(tmp, buf').
         Inr (buf', m\<lparr>m_pk_len := pk_len, m_msg_id_len := int_length (m_msg_id m),
           m_method_name_len := int_length (m_method_name m),
           m_err_info_len := int_length (m_err_info m), m_parse_success := True\<rparr>))))"

section \<open>The coders' \<open>encode\<close>\<close>

definition encode_one :: "protocol \<Rightarrow> protocol list \<times> tcp_buffer \<Rightarrow> (protocol list \<times> tcp_buffer) res" where
  "encode_one item = (\<lambda>(acc, out_buffer).
     bindR (as_protobuf item) (\<lambda>msg.
     bindR (encode_protubuf msg) (\<lambda>(buf, msg').
     bindR (if m_pk_len msg' \<noteq> 0 then write_to_buffer buf out_buffer else Inr out_buffer) (\<lambda>out'.
     Inr (acc @ [ProtobufP msg'], out')))))"

text \<open>The messages are updated through their pointers, so the result lists them as they are after
  the call.\<close>

definition ProtobufCoder_encode ::
  "protocol list \<Rightarrow> tcp_buffer \<Rightarrow> (protocol list \<times> tcp_buffer) res" where
  "ProtobufCoder_encode messages out_buffer = foldR encode_one messages ([], out_buffer)"

definition string_encode_one ::
  "protocol \<Rightarrow> protocol list \<times> tcp_buffer \<Rightarrow> (protocol list \<times> tcp_buffer) res" where
  "string_encode_one item = (\<lambda>(acc, out_buffer).
     bindR (as_string_protocol item) (\<lambda>msg.
     bindR (write_to_buffer (m_info msg) out_buffer) (\<lambda>out'. Inr (acc @ [item], out'))))"

definition StringCoder_encode ::
  "protocol list \<Rightarrow> tcp_buffer \<Rightarrow> (protocol list \<times> tcp_buffer) res" where
  "StringCoder_encode messages out_buffer = foldR string_encode_one messages ([], out_buffer)"

definition StringCoder_decode ::
  "protocol list \<Rightarrow> tcp_buffer \<Rightarrow> (protocol list \<times> tcp_buffer) res" where
  "StringCoder_decode out_messages buffer =
     bindR (read_from_buffer [] (can_read_bytes_num buffer) buffer) (\<lambda>(receive, buffer').
     Inr (out_messages @ [StringP (StringProtocol_new\<lparr>m_info := receive, m_msg_id := ''123456''\<rparr>)],
       buffer'))"

section \<open>The frame of a message\<close>

definition frame :: "protobuf_protocol \<Rightarrow> string" where
  "frame m = concat (frame_chunks (with_msg_id m))"

text \<open>The message after \<open>encode_protubuf\<close>: the id and the length fields are filled in.\<close>

definition encoded :: "protobuf_protocol \<Rightarrow> protobuf_protocol" where
  "encoded message =
     (let m = with_msg_id message
      in m\<lparr>m_pk_len := int (length (frame message)), m_msg_id_len := int (length (m_msg_id m)),
           m_method_name_len := int (length (m_method_name m)),
           m_err_info_len := int (length (m_err_info m)), m_parse_success := True\<rparr>)"

definition sized :: "protobuf_protocol \<Rightarrow> bool" where
  "sized m \<longleftrightarrow> length (frame m) \<le> buf_limit"

lemma with_msg_id_idem [simp]: "with_msg_id (with_msg_id m) = with_msg_id m"
  by (simp add: with_msg_id_def)

lemma with_msg_id_nonempty [simp]: "m_msg_id (with_msg_id m) \<noteq> []"
  by (simp add: with_msg_id_def)

lemma frame_length:
  "length (frame m) = 26 + length (m_msg_id (with_msg_id m)) + length (m_method_name (with_msg_id m)) +
     length (m_err_info (with_msg_id m)) + length (m_pb_data (with_msg_id m))"
  by (simp add: frame_def frame_chunks_def)

lemma sized_lengths:
  assumes "sized m"
  shows "pk_len_of (with_msg_id m) = int (length (frame m))"
    "int_length (m_msg_id (with_msg_id m)) = int (length (m_msg_id (with_msg_id m)))"
    "int_length (m_method_name (with_msg_id m)) = int (length (m_method_name (with_msg_id m)))"
    "int_length (m_err_info (with_msg_id m)) = int (length (m_err_info (with_msg_id m)))"
  using assms
  by (auto simp: sized_def frame_length pk_len_of_def int_length_def in_i32_def buf_limit_def)

lemma emit_all:
  "length pre + length (concat chunks) \<le> length pre + length rest \<Longrightarrow>
   foldR emit chunks (int (length pre), pre @ rest) =
     Inr (int (length pre) + int (length (concat chunks)),
       pre @ concat chunks @ drop (length (concat chunks)) rest)"
proof (induction chunks arbitrary: pre rest)
  case (Cons c cs)
  have "emit c (int (length pre), pre @ rest) =
      Inr (int (length (pre @ c)), (pre @ c) @ drop (length c) rest)"
    using Cons.prems by (simp add: emit_def mem_simps)
  then show ?case
    using Cons.IH [of "pre @ c" "drop (length c) rest"] Cons.prems by (simp add: algebra_simps)
qed simp

lemma encode_protubuf_ok:
  assumes "sized m"
  shows "encode_protubuf m = Inr (frame m, encoded m)"
proof -
  have "foldR emit (frame_chunks (with_msg_id m)) (0, replicate (length (frame m)) nul) =
      Inr (int (length (frame m)), frame m)"
    using emit_all [of "[]" "frame_chunks (with_msg_id m)" "replicate (length (frame m)) nul"]
    by (simp add: frame_def)
  then show ?thesis
    using assms by (simp add: encode_protubuf_def sized_lengths malloc_def encoded_def Let_def)
qed

section \<open>The coder interface\<close>

text \<open>
  \<open>AbstractCoder::encode\<close> as a connection uses it: admissible messages are appended to the out
  buffer in their wire form. Encoding in several calls then appends the same bytes as one call.
\<close>

locale abstract_coder =
  fixes enc :: "protocol list \<Rightarrow> tcp_buffer \<Rightarrow> (protocol list \<times> tcp_buffer) res"
    and wire :: "protocol \<Rightarrow> string"
    and sent :: "protocol \<Rightarrow> protocol"
    and admissible :: "protocol \<Rightarrow> bool"
  assumes enc_law: "buf_tight b \<Longrightarrow> list_all admissible ps \<Longrightarrow>
    length (content b) + length (concat (map wire ps)) \<le> buf_limit \<Longrightarrow>
    \<exists>b'. enc ps b = Inr (map sent ps, b') \<and> buf_tight b' \<and> content b' = content b @ concat (map wire ps)"
begin

lemma enc_batches:
  "buf_tight b \<Longrightarrow> list_all (list_all admissible) pss \<Longrightarrow>
   length (content b) + length (concat (map wire (concat pss))) \<le> buf_limit \<Longrightarrow>
   \<exists>b'. foldR (\<lambda>ps b. bindR (enc ps b) (\<lambda>(_, b1). Inr b1)) pss b = Inr b' \<and> buf_tight b' \<and>
     content b' = content b @ concat (map wire (concat pss))"
proof (induction pss arbitrary: b)
  case (Cons ps pss)
  then obtain b1 where "enc ps b = Inr (map sent ps, b1)" "buf_tight b1"
      "content b1 = content b @ concat (map wire ps)"
    using enc_law [of b ps] by auto
  then show ?case using Cons.IH [of b1] Cons.prems by auto
qed simp

end

fun protocol_wire :: "protocol \<Rightarrow> string" where
  "protocol_wire (ProtobufP m) = frame m"
| "protocol_wire (StringP s) = m_info s"

fun protocol_sent :: "protocol \<Rightarrow> protocol" where
  "protocol_sent (ProtobufP m) = ProtobufP (encoded m)"
| "protocol_sent (StringP s) = StringP s"

fun protobuf_admissible :: "protocol \<Rightarrow> bool" where
  "protobuf_admissible (ProtobufP m) \<longleftrightarrow> sized m"
| "protobuf_admissible (StringP s) \<longleftrightarrow> False"

fun string_admissible :: "protocol \<Rightarrow> bool" where
  "string_admissible (StringP s) \<longleftrightarrow> True"
| "string_admissible (ProtobufP m) \<longleftrightarrow> False"

fun_cases protobuf_admissibleE: "protobuf_admissible p"

fun_cases string_admissibleE: "string_admissible p"

lemma frame_nonempty: "length (frame m) \<noteq> 0"
  by (simp add: frame_length)

text \<open>Both coders go through the messages one by one; the loop is proved once.\<close>

lemma encode_loop:
  assumes one: "\<And>p acc b. buf_tight b \<Longrightarrow> adm p \<Longrightarrow> length (content b) + length (protocol_wire p) \<le> buf_limit \<Longrightarrow>
      \<exists>b'. f p (acc, b) = Inr (acc @ [protocol_sent p], b') \<and> buf_tight b' \<and>
        content b' = content b @ protocol_wire p"
    and "buf_tight b" and "list_all adm ps"
    and "length (content b) + length (concat (map protocol_wire ps)) \<le> buf_limit"
  shows "\<exists>b'. foldR f ps (acc, b) = Inr (acc @ map protocol_sent ps, b') \<and> buf_tight b' \<and>
    content b' = content b @ concat (map protocol_wire ps)"
  using assms(2-)
proof (induction ps arbitrary: acc b)
  case (Cons p ps)
  then obtain b1 where "f p (acc, b) = Inr (acc @ [protocol_sent p], b1)" "buf_tight b1"
      "content b1 = content b @ protocol_wire p"
    using one [of b p acc] by auto
  then show ?case using Cons.IH [of b1 "acc @ [protocol_sent p]"] Cons.prems by auto
qed simp

lemma encode_one_ok:
  assumes "buf_tight b" and "protobuf_admissible p"
    and "length (content b) + length (protocol_wire p) \<le> buf_limit"
  shows "\<exists>b'. encode_one p (acc, b) = Inr (acc @ [protocol_sent p], b') \<and> buf_tight b' \<and>
    content b' = content b @ protocol_wire p"
proof -
  obtain m where p: "p = ProtobufP m" "sized m" using assms(2) by (auto elim: protobuf_admissibleE)
  obtain b' where "write_to_buffer (frame m) b = Inr b'" "buf_tight b'" "content b' = content b @ frame m"
    using tb.wr_law [of b "frame m"] assms p by auto
  moreover have "m_pk_len (encoded m) \<noteq> 0"
    using frame_nonempty [of m] by (simp add: encoded_def Let_def)
  ultimately show ?thesis using p by (simp add: encode_one_def encode_protubuf_ok)
qed

lemma string_encode_one_ok:
  assumes "buf_tight b" and "string_admissible p"
    and "length (content b) + length (protocol_wire p) \<le> buf_limit"
  shows "\<exists>b'. string_encode_one p (acc, b) = Inr (acc @ [protocol_sent p], b') \<and> buf_tight b' \<and>
    content b' = content b @ protocol_wire p"
proof -
  obtain s where p: "p = StringP s" using assms(2) by (auto elim: string_admissibleE)
  obtain b' where "write_to_buffer (m_info s) b = Inr b'" "buf_tight b'" "content b' = content b @ m_info s"
    using tb.wr_law [of b "m_info s"] assms p by auto
  then show ?thesis using p by (simp add: string_encode_one_def)
qed

interpretation protobuf_coder:
  abstract_coder ProtobufCoder_encode protocol_wire protocol_sent protobuf_admissible
  using encode_loop [of protobuf_admissible encode_one _ _ "[]", OF encode_one_ok]
  by unfold_locales (simp add: ProtobufCoder_encode_def)

interpretation string_coder:
  abstract_coder StringCoder_encode protocol_wire protocol_sent string_admissible
  using encode_loop [of string_admissible string_encode_one _ _ "[]", OF string_encode_one_ok]
  by unfold_locales (simp add: StringCoder_encode_def)

section \<open>Properties of the encoders\<close>

text \<open>C19 (The frame fills its block exactly).
  For a message whose frame fits a buffer, \<open>encode_protubuf\<close> writes every chunk inside the block
  it allocated, the cursor ends exactly at the block's end, and the result is start byte, length
  fields and fields in order, end byte, with the block's length in the length field of the
  message.\<close>

theorem encode_protubuf_fills_block:
  assumes "sized m"
  shows "\<exists>m'. encode_protubuf m = Inr (frame m, m') \<and> m_pk_len m' = int (length (frame m)) \<and>
    m_msg_id m' \<noteq> [] \<and> m_pb_data m' = m_pb_data m \<and>
    hd (frame m) = s_start \<and> last (frame m) = s_end \<and>
    get_int32_from_netbyte (frame m) 1 = Inr (m_pk_len m')"
proof -
  have "get_int32_from_netbyte (frame m) 1 = Inr (int (length (frame m)))"
  proof (rule get_put_int32)
    show "in_i32 (int (length (frame m)))"
      using assms by (simp add: sized_def buf_limit_def in_i32_def)
    show "take 4 (drop (nat 1) (frame m)) = put_int32 (int (length (frame m)))"
      unfolding sized_lengths(1) [OF assms, symmetric] by (simp add: frame_def frame_chunks_def)
  qed simp
  moreover have "hd (frame m) = s_start" "last (frame m) = s_end"
    by (simp_all add: frame_def frame_chunks_def)
  moreover have "m_msg_id (encoded m) \<noteq> []" "m_pb_data (encoded m) = m_pb_data m"
      "m_pk_len (encoded m) = int (length (frame m))"
    by (simp_all add: encoded_def Let_def) (simp add: with_msg_id_def)
  ultimately show ?thesis by (simp add: encode_protubuf_ok [OF assms])
qed

definition sample_message :: protobuf_protocol where
  "sample_message = ProtobufProtocol_new\<lparr>m_msg_id := ''42'', m_method_name := ''Order.make'',
     m_pb_data := ''body''\<rparr>"

lemma sample_message_sized: "sized sample_message"
  by (simp add: sized_def frame_length sample_message_def with_msg_id_def ProtobufProtocol_new_def
      buf_limit_def)

lemma encode_protubuf_fills_block_witness:
  "\<exists>m'. encode_protubuf sample_message = Inr (frame sample_message, m') \<and>
    m_pk_len m' = int (length (frame sample_message)) \<and>
    m_msg_id m' \<noteq> [] \<and> m_pb_data m' = ''body'' \<and>
    hd (frame sample_message) = s_start \<and> last (frame sample_message) = s_end \<and>
    get_int32_from_netbyte (frame sample_message) 1 = Inr (m_pk_len m')"
  using encode_protubuf_fills_block [OF sample_message_sized]
  by (simp add: sample_message_def)

text \<open>Lemma (Encoding in batches appends the frames in order).
  Any number of calls of \<open>ProtobufCoder::encode\<close> on the same out buffer returns without a fault
  and appends the frames of all messages, in order, as long as they fit; how the messages are
  split into calls does not matter.\<close>

theorem ProtobufCoder_encode_batches:
  assumes "buf_tight b" and "list_all (list_all protobuf_admissible) pss"
    and "length (content b) + length (concat (map protocol_wire (concat pss))) \<le> buf_limit"
  shows "\<exists>b'. foldR (\<lambda>ps b. bindR (ProtobufCoder_encode ps b) (\<lambda>(_, b1). Inr b1)) pss b = Inr b' \<and>
    buf_tight b' \<and> content b' = content b @ concat (map protocol_wire (concat pss))"
  using assms by (rule protobuf_coder.enc_batches)

lemma ProtobufCoder_encode_batches_witness:
  "\<exists>b'. foldR (\<lambda>ps b. bindR (ProtobufCoder_encode ps b) (\<lambda>(_, b1). Inr b1))
      [[ProtobufP sample_message], [ProtobufP sample_message]] sample_buffer = Inr b' \<and>
    buf_tight b' \<and> content b' = ''ab'' @ frame sample_message @ frame sample_message"
  using ProtobufCoder_encode_batches
    [of sample_buffer "[[ProtobufP sample_message], [ProtobufP sample_message]]"]
    sample_buffer sample_message_sized
  by (simp add: frame_length sample_message_def with_msg_id_def ProtobufProtocol_new_def buf_limit_def)

text \<open>Lemma (The string coder keeps the bytes, not the message boundaries).
  \<open>StringCoder::decode\<close> of a buffer that \<open>StringCoder::encode\<close> filled returns one message whose
  text is all texts in order, whatever number of messages was encoded, and empties the buffer.\<close>

theorem StringCoder_roundtrip:
  assumes "buf_tight b" and "content b = []" and "list_all string_admissible ps"
    and "length (concat (map protocol_wire ps)) \<le> buf_limit"
  shows "\<exists>b' b''. StringCoder_encode ps b = Inr (ps, b') \<and>
    StringCoder_decode [] b' = Inr ([StringP \<lparr>m_msg_id = ''123456'',
      m_info = concat (map protocol_wire ps)\<rparr>], b'') \<and> content b'' = []"
proof -
  have same: "map protocol_sent ps = ps"
    using assms(3) by (induction ps) (auto elim: string_admissibleE)
  obtain b' where b': "StringCoder_encode ps b = Inr (ps, b')" "buf_tight b'"
      "content b' = concat (map protocol_wire ps)"
    using string_coder.enc_law [of b ps] assms same by auto
  moreover have n: "can_read_bytes_num b' = int (length (content b'))"
    using b'(2) by (simp add: can_read_content buf_tight_inv)
  obtain b'' where "read_from_buffer [] (can_read_bytes_num b') b' =
      Inr (take (nat (can_read_bytes_num b')) (content b'), b'')"
      "content b'' = drop (nat (can_read_bytes_num b')) (content b')"
    using tb.rd_law [of b' "can_read_bytes_num b'"] b'(2) n by auto
  ultimately show ?thesis
    using n by (simp add: StringCoder_decode_def StringProtocol_new_def)
qed

lemma StringCoder_roundtrip_witness:
  "\<exists>b' b''. StringCoder_encode [StringP \<lparr>m_msg_id = [], m_info = ''he''\<rparr>,
        StringP \<lparr>m_msg_id = [], m_info = ''llo''\<rparr>]
      \<lparr>m_read_index = 0, m_write_index = 0, m_size = 4, m_buffer = ''abcd''\<rparr> =
      Inr ([StringP \<lparr>m_msg_id = [], m_info = ''he''\<rparr>, StringP \<lparr>m_msg_id = [], m_info = ''llo''\<rparr>], b') \<and>
    StringCoder_decode [] b' = Inr ([StringP \<lparr>m_msg_id = ''123456'', m_info = ''hello''\<rparr>], b'') \<and>
    content b'' = []"
  using StringCoder_roundtrip
    [of "\<lparr>m_read_index = 0, m_write_index = 0, m_size = 4, m_buffer = ''abcd''\<rparr>"
      "[StringP \<lparr>m_msg_id = [], m_info = ''he''\<rparr>, StringP \<lparr>m_msg_id = [], m_info = ''llo''\<rparr>]"]
  by (simp add: buf_tight_def buf_inv_def content_def buf_limit_def)

end
