(* ===== verification/Decoder.thy ===== *)
theory Decoder
  imports Coder
begin

text \<open>
  \<open>ProtobufCoder::decode\<close> (\<open>src/net/coder/protobuf_coder.cc\<close>): the scan for a frame, the parse of
  its fields into fixed-size arrays, and the loop over the buffer, as a partial function because
  the loop need not end.

  The lemmas show that the decoder inverts the encoder on a stream of frames, batch boundaries
  and unfinished frames included, when the buffer keeps a byte to spare, and what happens
  otherwise: the loop that never ends, the reads and writes outside an array, the message that bytes before
  its frame repeat. Whatever the bytes, a message that is delivered is well formed.
\<close>

section \<open>The decoder\<close>

text \<open>
  The scan from \<open>i\<close> up to the write index \<open>w\<close>: a start byte whose length field leads to an end
  byte inside the readable range. The result is start, end and length.
\<close>

function scan_frame :: "string \<Rightarrow> int \<Rightarrow> int \<Rightarrow> (int \<times> int \<times> int) option res" where
  "scan_frame tmp w i =
     (if i < w then
        bindR (mem_at tmp i) (\<lambda>c.
        if c = s_start \<and> i + 1 < w then
          bindR (get_int32_from_netbyte tmp (i + 1)) (\<lambda>pk_len.
          bindR (chk_i32 (i + pk_len)) (\<lambda>n.
          bindR (chk_i32 (n - 1)) (\<lambda>j.
          if j \<ge> w then scan_frame tmp w (i + 1)
          else bindR (mem_at tmp j) (\<lambda>e.
               if e = s_end then Inr (Some (i, j, pk_len)) else scan_frame tmp w (i + 1)))))
        else scan_frame tmp w (i + 1))
      else Inr None)"
  by pat_completeness auto
termination by (relation "measure (\<lambda>(_, w, i). nat (w - i))") auto

declare scan_frame.simps [simp del]

text \<open>\<open>char a[cap] = {0}; memcpy(a, &tmp[i], n); std::string(a)\<close>\<close>

definition read_field :: "int \<Rightarrow> string \<Rightarrow> int \<Rightarrow> int \<Rightarrow> string res" where
  "read_field cap tmp i n = bindR (memcpy (replicate (nat cap) nul) 0 tmp i n) c_string"

text \<open>
  The fields of the frame from \<open>start_index\<close> to \<open>end_index\<close>; \<open>None\<close> when an index is at or beyond
  the end byte and the message is dropped. Additions of \<open>sizeof\<close> wrap to \<open>int\<close>, additions of two
  \<open>int\<close>s must not overflow. \<open>std::string(p, n)\<close> with a negative \<open>n\<close> throws.
\<close>

definition parse_message ::
  "string \<Rightarrow> int \<Rightarrow> int \<Rightarrow> int \<Rightarrow> protobuf_protocol option res" where
  "parse_message tmp start_index end_index pk_len =
     (let message = ProtobufProtocol_new\<lparr>m_pk_len := pk_len\<rparr>;
          msg_id_len_index = to_i32 (start_index + 1 + 4)
      in if msg_id_len_index \<ge> end_index then Inr None
      else bindR (get_int32_from_netbyte tmp msg_id_len_index) (\<lambda>msg_id_len.
      let msg_id_index = to_i32 (msg_id_len_index + 4)
      in bindR (read_field 100 tmp msg_id_index msg_id_len) (\<lambda>msg_id.
      bindR (chk_i32 (msg_id_index + msg_id_len)) (\<lambda>method_name_len_index.
      if method_name_len_index \<ge> end_index then Inr None
      else bindR (get_int32_from_netbyte tmp method_name_len_index) (\<lambda>method_name_len.
      let method_name_index = to_i32 (method_name_len_index + 4)
      in bindR (read_field 512 tmp method_name_index method_name_len) (\<lambda>method_name.
      bindR (chk_i32 (method_name_index + method_name_len)) (\<lambda>err_code_index.
      if err_code_index \<ge> end_index then Inr None
      else bindR (get_int32_from_netbyte tmp err_code_index) (\<lambda>err_code.
      let error_info_len_index = to_i32 (err_code_index + 4)
      in if error_info_len_index \<ge> end_index then Inr None
      else bindR (get_int32_from_netbyte tmp error_info_len_index) (\<lambda>err_info_len.
      let err_info_index = to_i32 (error_info_len_index + 4)
      in bindR (read_field 512 tmp err_info_index err_info_len) (\<lambda>error_info.
      bindR (chk_i32 (pk_len - method_name_len - msg_id_len - err_info_len - 2 - 24)) (\<lambda>pb_data_len.
      bindR (chk_i32 (err_info_index + err_info_len)) (\<lambda>pd_data_index.
      bindR (checkR (0 \<le> pb_data_len) LengthError) (\<lambda>_.
      bindR (mem_read tmp pd_data_index pb_data_len) (\<lambda>pb_data.
      Inr (Some (message\<lparr>m_msg_id_len := msg_id_len, m_msg_id := msg_id,
        m_method_name_len := method_name_len, m_method_name := method_name,
        m_err_code := err_code, m_err_info_len := err_info_len, m_err_info := error_info,
        m_pb_data := pb_data, m_parse_success := True\<rparr>))))))))))))))))"

text \<open>One round of the loop; the flag tells whether \<open>decode\<close> returns.\<close>

definition decode_step :: "protocol list \<Rightarrow> tcp_buffer \<Rightarrow> (bool \<times> protocol list \<times> tcp_buffer) res" where
  "decode_step out_messages buffer =
     (let tmp = m_buffer buffer
      in bindR (scan_frame tmp (m_write_index buffer) (m_read_index buffer)) (\<lambda>found.
      case found of
        None \<Rightarrow> Inr (True, out_messages, buffer)
      | Some (start_index, end_index, pk_len) \<Rightarrow>
          bindR (chk_i32 (end_index - start_index + 1)) (\<lambda>n.
          bindR (adjust_read_index n buffer) (\<lambda>buffer'.
          bindR (parse_message tmp start_index end_index pk_len) (\<lambda>message.
          Inr (False, out_messages @ map ProtobufP (case message of None \<Rightarrow> [] | Some m \<Rightarrow> [m]),
            buffer'))))))"

partial_function (option) ProtobufCoder_decode ::
  "protocol list \<Rightarrow> tcp_buffer \<Rightarrow> (protocol list \<times> tcp_buffer) res option" where
  "ProtobufCoder_decode out_messages buffer =
     (case decode_step out_messages buffer of
        Inl e \<Rightarrow> Some (Inl e)
      | Inr (returned, out', buffer') \<Rightarrow>
          if returned then Some (Inr (out', buffer')) else ProtobufCoder_decode out' buffer')"

section \<open>A frame in the buffer\<close>

text \<open>What a frame carries through the decoder's arrays: ids shorter than 100 bytes, names and
  error texts shorter than 512, none with a NUL byte.\<close>

definition wire_ok :: "protobuf_protocol \<Rightarrow> bool" where
  "wire_ok m \<longleftrightarrow> sized m \<and> in_i32 (m_err_code m) \<and>
     length (m_msg_id m) < 100 \<and> nul \<notin> set (m_msg_id m) \<and>
     length (m_method_name m) < 512 \<and> nul \<notin> set (m_method_name m) \<and>
     length (m_err_info m) < 512 \<and> nul \<notin> set (m_err_info m)"

text \<open>The message that comes out: what \<open>encode\<close> sent, without the checksum.\<close>

definition decoded :: "protobuf_protocol \<Rightarrow> protobuf_protocol" where
  "decoded m = (encoded m)\<lparr>m_check_sum := 0\<rparr>"

lemma get_int32_at:
  "tmp = a @ put_int32 x @ c \<Longrightarrow> i = int (length a) \<Longrightarrow> in_i32 x \<Longrightarrow>
   get_int32_from_netbyte tmp i = Inr x"
  by (rule get_put_int32) simp_all

lemma read_field_at:
  assumes "tmp = a @ s @ c" and "i = int (length a)" and "n = int (length s)"
    and "length s < nat cap" and "nul \<notin> set s"
  shows "read_field cap tmp i n = Inr s"
proof -
  have "memcpy (replicate (nat cap) nul) 0 tmp i n = Inr (s @ replicate (nat cap - length s) nul)"
    using assms by (auto simp: memcpy_def mem_simps mem_write_def)
  then show ?thesis using assms by (simp add: read_field_def c_string_padded)
qed

lemma mem_read_at:
  "tmp = a @ s @ c \<Longrightarrow> i = int (length a) \<Longrightarrow> n = int (length s) \<Longrightarrow> mem_read tmp i n = Inr s"
  by (simp add: mem_read_def)

lemma mem_at_mid: "tmp = a @ x # c \<Longrightarrow> i = int (length a) \<Longrightarrow> mem_at tmp i = Inr x"
  by (simp add: mem_at_def)

lemma frame_split:
  assumes "sized m"
  shows "frame m = s_start # put_int32 (int (length (frame m))) @
    put_int32 (int (length (m_msg_id (with_msg_id m)))) @ m_msg_id (with_msg_id m) @
    put_int32 (int (length (m_method_name m))) @ m_method_name m @ put_int32 (m_err_code m) @
    put_int32 (int (length (m_err_info m))) @ m_err_info m @ m_pb_data m @ put_int32 1 @ [s_end]"
proof -
  have "m_method_name (with_msg_id m) = m_method_name m" "m_err_info (with_msg_id m) = m_err_info m"
    "m_err_code (with_msg_id m) = m_err_code m" "m_pb_data (with_msg_id m) = m_pb_data m"
    by (simp_all add: with_msg_id_def)
  then show ?thesis
    using sized_lengths [OF assms] by (simp add: frame_def [of m] frame_chunks_def)
qed

text \<open>The scan accepts a frame that starts at the index it is at.\<close>

lemma scan_frame_at:
  assumes "sized m" and "length pre + length (frame m) \<le> 2147483646"
    and "int (length pre) + int (length (frame m)) \<le> w"
  shows "scan_frame (pre @ frame m @ post) w (int (length pre)) =
    Inr (Some (int (length pre), int (length pre) + int (length (frame m)) - 1, int (length (frame m))))"
proof -
  let ?tmp = "pre @ frame m @ post" and ?p = "int (length pre)" and ?n = "int (length (frame m))"
  have n: "26 \<le> ?n" by (simp add: frame_length)
  have a: "mem_at ?tmp ?p = Inr s_start"
    by (rule mem_at_mid [OF _ refl]) (subst frame_split [OF assms(1)], simp)
  have b: "get_int32_from_netbyte ?tmp (?p + 1) = Inr ?n"
    using assms by (intro get_int32_at [of _ "pre @ [s_start]"])
      (subst frame_split [OF assms(1)], simp, simp_all add: in_i32_def)
  have "frame m = butlast (frame m) @ [s_end]"
    using append_butlast_last_id [of "frame m"] by (simp add: frame_def frame_chunks_def)
  then have c: "mem_at ?tmp (?p + ?n - 1) = Inr s_end"
    using n by (intro mem_at_mid [of _ "pre @ butlast (frame m)" _ post])
      (simp, simp add: of_nat_diff)
  show ?thesis
    using assms n a b c by (subst scan_frame.simps) (simp add: in_i32_def)
qed

lemma parse_message_frame:
  assumes "wire_ok m" and "length pre + length (frame m) \<le> 2147483646"
  shows "parse_message (pre @ frame m @ post) (int (length pre))
      (int (length pre) + int (length (frame m)) - 1) (int (length (frame m))) =
    Inr (Some (decoded m))"
proof -
  let ?m = "with_msg_id m"
  let ?tmp = "pre @ frame m @ post" and ?p = "int (length pre)" and ?n = "int (length (frame m))"
  let ?i = "int (length (m_msg_id ?m))" and ?k = "int (length (m_method_name m))"
    and ?e = "int (length (m_err_info m))" and ?d = "int (length (m_pb_data m))"
  have sz: "sized m" using assms(1) by (simp add: wire_ok_def)
  have same: "m_method_name ?m = m_method_name m" "m_err_info ?m = m_err_info m"
    "m_err_code ?m = m_err_code m" "m_pb_data ?m = m_pb_data m"
    by (simp_all add: with_msg_id_def)
  have n: "?n = 26 + ?i + ?k + ?e + ?d" by (simp add: frame_length same)
  have id: "length (m_msg_id ?m) < 100" "nul \<notin> set (m_msg_id ?m)"
    using assms(1) by (auto simp: wire_ok_def with_msg_id_def nul_def char_of_def)
  note small = assms(2) [unfolded of_nat_le_iff [where 'a = int, symmetric] of_nat_add]
  have r: "in_i32 (?p + x)" if "0 \<le> x" "x \<le> ?n" for x
    using that small by (simp add: in_i32_def)
  have l: "in_i32 ?i" "in_i32 ?k" "in_i32 ?e"
    using id assms(1) by (auto simp: wire_ok_def in_i32_def)
  have g1: "get_int32_from_netbyte ?tmp (?p + 5) = Inr ?i"
    using l by (intro get_int32_at [of _ "pre @ s_start # put_int32 ?n"])
      (subst frame_split [OF sz], simp, simp_all)
  have f1: "read_field 100 ?tmp (?p + 9) ?i = Inr (m_msg_id ?m)"
    using id by (intro read_field_at [of _ "pre @ s_start # put_int32 ?n @ put_int32 ?i"])
      (subst frame_split [OF sz], simp, simp_all)
  have g2: "get_int32_from_netbyte ?tmp (?p + 9 + ?i) = Inr ?k"
    using l by (intro get_int32_at [of _ "pre @ s_start # put_int32 ?n @ put_int32 ?i @ m_msg_id ?m"])
      (subst frame_split [OF sz], simp, simp_all)
  have f2: "read_field 512 ?tmp (?p + 13 + ?i) ?k = Inr (m_method_name m)"
    using assms(1) by (intro read_field_at
        [of _ "pre @ s_start # put_int32 ?n @ put_int32 ?i @ m_msg_id ?m @ put_int32 ?k"])
      (subst frame_split [OF sz], simp, simp_all add: wire_ok_def)
  let ?q = "pre @ s_start # put_int32 ?n @ put_int32 ?i @ m_msg_id ?m @ put_int32 ?k @ m_method_name m"
  have g3: "get_int32_from_netbyte ?tmp (?p + 13 + ?i + ?k) = Inr (m_err_code m)"
    using assms(1) by (intro get_int32_at [of _ ?q])
      (subst frame_split [OF sz], simp, simp_all add: wire_ok_def)
  have g4: "get_int32_from_netbyte ?tmp (?p + 17 + ?i + ?k) = Inr ?e"
    using l by (intro get_int32_at [of _ "?q @ put_int32 (m_err_code m)"])
      (subst frame_split [OF sz], simp, simp_all)
  have f3: "read_field 512 ?tmp (?p + 21 + ?i + ?k) ?e = Inr (m_err_info m)"
    using assms(1) by (intro read_field_at [of _ "?q @ put_int32 (m_err_code m) @ put_int32 ?e"])
      (subst frame_split [OF sz], simp, simp_all add: wire_ok_def)
  have f4: "mem_read ?tmp (?p + 21 + ?i + ?k + ?e) ?d = Inr (m_pb_data m)"
    by (intro mem_read_at [of _ "?q @ put_int32 (m_err_code m) @ put_int32 ?e @ m_err_info m"])
      (subst frame_split [OF sz], simp, simp_all)
  have "decoded m = ProtobufProtocol_new\<lparr>m_pk_len := ?n, m_msg_id_len := ?i, m_msg_id := m_msg_id ?m,
      m_method_name_len := ?k, m_method_name := m_method_name m, m_err_code := m_err_code m,
      m_err_info_len := ?e, m_err_info := m_err_info m, m_pb_data := m_pb_data m,
      m_parse_success := True\<rparr>"
    by (simp add: decoded_def encoded_def Let_def same ProtobufProtocol_new_def)
  then show ?thesis
    using n small g1 f1 g2 f2 g3 g4 f3 f4
    by (simp add: parse_message_def Let_def in_i32_def algebra_simps)
qed

lemma take_mid_drop:
  "i \<le> j \<Longrightarrow> xs = take i xs @ take (j - i) (drop i xs) @ drop j xs"
  by (metis append_assoc append_take_drop_id le_add_diff_inverse take_add)

lemma buffer_split:
  "buf_inv b \<Longrightarrow> m_buffer b = take (nat (m_read_index b)) (m_buffer b) @ content b @
     drop (nat (m_write_index b)) (m_buffer b)"
  using take_mid_drop [of "nat (m_read_index b)" "nat (m_write_index b)" "m_buffer b"]
  by (auto simp: buf_inv_def content_def nat_diff_distrib)

text \<open>The scan passes over bytes that are no start byte.\<close>

lemma scan_frame_skips:
  "s_start \<notin> set junk \<Longrightarrow> int (length pre) + int (length junk) \<le> w \<Longrightarrow>
   scan_frame (pre @ junk @ post) w (int (length pre)) = scan_frame (pre @ junk @ post) w (int (length pre) + int (length junk))"
proof (induction junk arbitrary: pre)
  case (Cons c junk)
  have "mem_at (pre @ (c # junk) @ post) (int (length pre)) = Inr c"
    by (rule mem_at_mid) simp_all
  then have "scan_frame (pre @ (c # junk) @ post) w (int (length pre)) =
      scan_frame (pre @ (c # junk) @ post) w (int (length pre) + 1)"
    using Cons.prems by (subst scan_frame.simps) auto
  then show ?case using Cons.IH [of "pre @ [c]"] Cons.prems by (simp add: algebra_simps)
qed simp

text \<open>One round of the loop takes the first frame among the readable bytes, if the vector has a byte to spare behind the
  write index, and consumes as many bytes as the frame has, from the front.\<close>

lemma decode_step_junk:
  assumes "buf_inv b" and "m_write_index b < int (length (m_buffer b))" and "wire_ok m"
    and "content b = junk @ frame m @ r" and "s_start \<notin> set junk"
  obtains b' where "decode_step out b = Inr (False, out @ [ProtobufP (decoded m)], b')" "buf_tight b'"
    "content b' = drop (length (frame m)) (content b)"
    "length (m_buffer b') = length (m_buffer b)" "m_write_index b' \<le> m_write_index b"
proof -
  define front where "front = take (nat (m_read_index b)) (m_buffer b)"
  define pre where "pre = front @ junk"
  define post where "post = r @ drop (nat (m_write_index b)) (m_buffer b)"
  let ?p = "m_read_index b + int (length junk)"
  have buf: "m_buffer b = pre @ frame m @ post"
    using buffer_split [OF assms(1)] assms(4) by (simp add: front_def pre_def post_def)
  have f: "int (length front) = m_read_index b"
    using assms(1) by (auto simp: front_def buf_inv_def)
  then have p: "int (length pre) = ?p" by (simp add: pre_def)
  have "int (length (junk @ frame m @ r)) = m_write_index b - m_read_index b"
    using content_length [OF assms(1)] assms(4) by (simp add: can_read_bytes_num_def)
  then have fits: "?p + int (length (frame m)) \<le> m_write_index b"
    "int (length (frame m)) \<le> can_read_bytes_num b" "m_read_index b + int (length (frame m)) \<le> m_write_index b"
    by (auto simp: can_read_bytes_num_def)
  have small: "length pre + length (frame m) \<le> 2147483646"
    using fits p assms(1,2) by (auto simp: buf_inv_def)
  obtain b' where b': "adjust_read_index (int (length (frame m))) b = Inr b'" "buf_tight b'"
      "content b' = drop (length (frame m)) (content b)"
      "length (m_buffer b') = length (m_buffer b)" "m_write_index b' \<le> m_write_index b"
    using adjust_read_index_moves [OF assms(1), of "int (length (frame m))"] fits assms(2) by auto
  have "scan_frame (m_buffer b) (m_write_index b) (m_read_index b) = scan_frame (m_buffer b) (m_write_index b) ?p"
    using scan_frame_skips [of junk front "m_write_index b" "frame m @ post"] assms(5) fits f by (simp add: buf pre_def)
  also have "\<dots> = Inr (Some (?p, ?p + int (length (frame m)) - 1, int (length (frame m))))"
    using scan_frame_at [of m pre "m_write_index b" post] small fits p assms(3)
    by (simp add: buf wire_ok_def)
  finally have found: "scan_frame (m_buffer b) (m_write_index b) (m_read_index b) =
      Inr (Some (?p, ?p + int (length (frame m)) - 1, int (length (frame m))))" .
  have parsed: "parse_message (m_buffer b) ?p (?p + int (length (frame m)) - 1) (int (length (frame m))) = Inr (Some (decoded m))"
    using parse_message_frame [OF assms(3) small, of post] by (simp add: buf p)
  have "in_i32 (int (length (frame m)))" using small by (simp add: in_i32_def)
  then have "decode_step out b = Inr (False, out @ [ProtobufP (decoded m)], b')"
    using b'(1) by (simp add: decode_step_def Let_def found parsed)
  with b' that show thesis by simp
qed

lemma decode_step_frame:
  assumes "buf_inv b" and "m_write_index b < int (length (m_buffer b))" and "wire_ok m"
    and "content b = frame m @ r"
  obtains b' where "decode_step out b = Inr (False, out @ [ProtobufP (decoded m)], b')" "buf_tight b'"
    "content b' = r" "length (m_buffer b') = length (m_buffer b)" "m_write_index b' \<le> m_write_index b"
  using decode_step_junk [OF assms(1-3), of "[]" r out] assms(4) that by auto

section \<open>An unfinished tail\<close>

text \<open>
  The bytes at the end of a stream that the decoder leaves for later: they hold no start byte
  (but perhaps a last one), or they start a frame that is longer than what has arrived and
  contain no other start byte.
\<close>

definition awaits :: "string \<Rightarrow> bool" where
  "awaits r \<longleftrightarrow> s_start \<notin> set (butlast r) \<or>
     (5 \<le> length r \<and> hd r = s_start \<and> s_start \<notin> set (butlast (tl r)) \<and>
      (case get_int32_from_netbyte r 1 of Inl e \<Rightarrow> False
       | Inr n \<Rightarrow> int (length r) < n \<and> n \<le> int buf_limit))"

lemma scan_frame_quiet:
  "s_start \<notin> set (butlast r) \<Longrightarrow>
   scan_frame (pre @ r @ post) (int (length pre) + int (length r)) (int (length pre)) = Inr None"
proof (induction r arbitrary: pre)
  case Nil
  then show ?case by (simp add: scan_frame.simps)
next
  case (Cons c r)
  have "mem_at (pre @ (c # r) @ post) (int (length pre)) = Inr c"
    by (rule mem_at_mid) simp_all
  moreover have "c = s_start \<Longrightarrow> r = []" using Cons.prems by (auto split: if_splits)
  moreover have "s_start \<notin> set (butlast r)" using Cons.prems by (auto split: if_splits)
  ultimately show ?case
    using Cons.IH [of "pre @ [c]"] by (subst scan_frame.simps) (auto simp: algebra_simps)
qed

lemma get_int32_shift:
  assumes "5 \<le> length r"
  shows "get_int32_from_netbyte (pre @ r @ post) (int (length pre) + 1) = get_int32_from_netbyte r 1"
proof -
  have "nat (int (length pre) + 1) = length pre + 1" by simp
  then have "mem_read (pre @ r @ post) (int (length pre) + 1) 4 = mem_read r 1 4"
    using assms by (simp add: mem_read_def)
  then show ?thesis by (simp add: get_int32_from_netbyte_def)
qed

lemma scan_frame_awaits:
  assumes "awaits r" and "int (length pre) \<le> 715827882"
  shows "scan_frame (pre @ r @ post) (int (length pre) + int (length r)) (int (length pre)) = Inr None"
proof (cases "s_start \<notin> set (butlast r)")
  case True
  then show ?thesis by (rule scan_frame_quiet)
next
  case False
  then obtain n where r: "5 \<le> length r" "hd r = s_start" "s_start \<notin> set (butlast (tl r))"
      "get_int32_from_netbyte r 1 = Inr n" "int (length r) < n" "n \<le> 900000000"
    using assms(1) by (auto simp: awaits_def buf_limit_def split: sum.splits)
  then obtain t where t: "r = s_start # t" by (cases r) auto
  have "mem_at (pre @ r @ post) (int (length pre)) = Inr s_start"
    using t by (intro mem_at_mid [OF _ refl]) simp
  moreover have "scan_frame (pre @ r @ post) (int (length pre) + int (length r)) (int (length pre) + 1) = Inr None"
    using scan_frame_quiet [of t "pre @ [s_start]" post] r t by (simp add: algebra_simps)
  ultimately show ?thesis
    using r assms(2) get_int32_shift [OF r(1), of pre post]
    by (subst scan_frame.simps) (auto simp: in_i32_def)
qed

lemma decode_step_awaits:
  assumes "buf_tight b" and "awaits (content b)"
  shows "decode_step out b = Inr (True, out, b)"
proof -
  have inv: "buf_inv b" using assms(1) by (rule buf_tight_inv)
  define pre where "pre = take (nat (m_read_index b)) (m_buffer b)"
  have p: "int (length pre) = m_read_index b" "m_read_index b \<le> 715827882"
    using assms(1) by (auto simp: pre_def buf_tight_def buf_inv_def)
  have "int (length pre) + int (length (content b)) = m_write_index b"
    using content_length [OF inv] p by (simp add: can_read_bytes_num_def)
  then have "scan_frame (m_buffer b) (m_write_index b) (m_read_index b) = Inr None"
    using scan_frame_awaits [OF assms(2), of pre "drop (nat (m_write_index b)) (m_buffer b)"] p
      buffer_split [OF inv]
    by (simp add: pre_def [symmetric])
  then show ?thesis by (simp add: decode_step_def Let_def)
qed

section \<open>Decoding a stream\<close>

text \<open>
  The contract between the two ends of a connection, on top of \<open>abstract_coder\<close>: from a buffer
  with room that holds the wire form of admissible messages and an unfinished tail, \<open>dec\<close> returns
  the messages as received and leaves the tail. What one side encodes the other side then
  decodes, in one piece or in several.
\<close>

locale stream_coder = abstract_coder enc wire sent admissible
  for enc wire sent admissible +
  fixes dec :: "protocol list \<Rightarrow> tcp_buffer \<Rightarrow> (protocol list \<times> tcp_buffer) res option"
    and received :: "protocol \<Rightarrow> protocol"
    and idle :: "string \<Rightarrow> bool"
    and roomy :: "tcp_buffer \<Rightarrow> bool"
  assumes dec_law: "roomy b \<Longrightarrow> list_all admissible ps \<Longrightarrow> content b = concat (map wire ps) @ r \<Longrightarrow>
      idle r \<Longrightarrow>
      \<exists>b'. dec out b = Some (Inr (out @ map received ps, b')) \<and> roomy b' \<and> content b' = r"
    and idle_Nil: "idle []"
begin

lemma relay:
  assumes "buf_tight b" and "content b = []" and "list_all admissible ps"
    and "length (concat (map wire ps)) \<le> buf_limit"
  shows "\<exists>sent_ps b'. enc ps b = Inr (sent_ps, b') \<and>
    (\<forall>in_b. roomy in_b \<longrightarrow> content in_b = content b' \<longrightarrow>
      (\<exists>in_b'. dec [] in_b = Some (Inr (map received ps, in_b')) \<and> content in_b' = []))"
proof -
  obtain b' where "enc ps b = Inr (map sent ps, b')" "content b' = concat (map wire ps)"
    using enc_law [of b ps] assms by auto
  then show ?thesis using dec_law [of _ ps "[]" "[]"] idle_Nil assms(3) by fastforce
qed

end

fun wire_admissible :: "protocol \<Rightarrow> bool" where
  "wire_admissible (ProtobufP m) \<longleftrightarrow> wire_ok m"
| "wire_admissible (StringP s) \<longleftrightarrow> False"

fun protocol_received :: "protocol \<Rightarrow> protocol" where
  "protocol_received (ProtobufP m) = ProtobufP (decoded m)"
| "protocol_received (StringP s) = StringP s"

fun_cases wire_admissibleE: "wire_admissible p"

definition roomy :: "tcp_buffer \<Rightarrow> bool" where
  "roomy b \<longleftrightarrow> buf_tight b \<and> m_write_index b < int (length (m_buffer b))"

lemma wire_admissible_protobuf: "wire_admissible p \<Longrightarrow> protobuf_admissible p"
  by (erule wire_admissibleE) (simp add: wire_ok_def)

lemma decode_stream_ok:
  "roomy b \<Longrightarrow> list_all wire_admissible ps \<Longrightarrow> content b = concat (map protocol_wire ps) @ r \<Longrightarrow>
   awaits r \<Longrightarrow>
   \<exists>b'. ProtobufCoder_decode out b = Some (Inr (out @ map protocol_received ps, b')) \<and> roomy b' \<and>
     content b' = r"
proof (induction ps arbitrary: out b)
  case Nil
  then show ?case
    by (subst ProtobufCoder_decode.simps) (simp add: roomy_def decode_step_awaits)
next
  case (Cons p ps)
  then obtain m where m: "p = ProtobufP m" "wire_ok m" by (auto elim: wire_admissibleE)
  then obtain b' where b': "decode_step out b = Inr (False, out @ [ProtobufP (decoded m)], b')"
      "buf_tight b'" "content b' = concat (map protocol_wire ps) @ r"
      "length (m_buffer b') = length (m_buffer b)" "m_write_index b' \<le> m_write_index b"
    using decode_step_frame [of b m "concat (map protocol_wire ps) @ r" out] Cons.prems
    by (auto simp: roomy_def buf_tight_inv)
  then have "roomy b'" using Cons.prems(1) by (simp add: roomy_def)
  then show ?case
    using Cons.IH [of b' "out @ [ProtobufP (decoded m)]"] b' Cons.prems m
    by (subst ProtobufCoder_decode.simps) simp
qed

interpretation protobuf_stream:
  stream_coder ProtobufCoder_encode protocol_wire protocol_sent wire_admissible
    ProtobufCoder_decode protocol_received awaits roomy
proof unfold_locales
  show "buf_tight b \<Longrightarrow> list_all wire_admissible ps \<Longrightarrow>
      length (content b) + length (concat (map protocol_wire ps)) \<le> buf_limit \<Longrightarrow>
      \<exists>b'. ProtobufCoder_encode ps b = Inr (map protocol_sent ps, b') \<and> buf_tight b' \<and>
        content b' = content b @ concat (map protocol_wire ps)" for b ps
    using protobuf_coder.enc_law [of b ps] wire_admissible_protobuf by (simp add: list.pred_mono_strong)
  show "roomy b \<Longrightarrow> list_all wire_admissible ps \<Longrightarrow> content b = concat (map protocol_wire ps) @ r \<Longrightarrow>
      awaits r \<Longrightarrow>
      \<exists>b'. ProtobufCoder_decode out b = Some (Inr (out @ map protocol_received ps, b')) \<and> roomy b' \<and>
        content b' = r" for b ps r out
    by (rule decode_stream_ok)
  show "awaits []" by (simp add: awaits_def)
qed

section \<open>Loops that do not end\<close>

lemma decode_diverges:
  assumes "\<And>out. \<exists>out'. decode_step out b = Inr (False, out', b)"
  shows "ProtobufCoder_decode out b = None"
proof -
  have "b1 \<noteq> b" if "ProtobufCoder_decode o1 b1 = Some y" for o1 b1 y
  proof (rule ProtobufCoder_decode.raw_induct [of "\<lambda>_ b1 _. b1 \<noteq> b", OF _ that])
    fix dec o2 b2 z
    assume IH: "\<And>o3 b3 z. dec o3 b3 = Some z \<Longrightarrow> b3 \<noteq> b"
      and step: "(case decode_step o2 b2 of Inl e \<Rightarrow> Some (Inl e)
        | Inr (returned, out', buffer') \<Rightarrow>
            if returned then Some (Inr (out', buffer')) else dec out' buffer') = Some z"
    show "b2 \<noteq> b"
    proof
      assume "b2 = b"
      moreover obtain o3 where "decode_step o2 b = Inr (False, o3, b)" using assms by blast
      ultimately have "dec o3 b = Some z" using step by simp
      then show False using IH by blast
    qed
  qed
  then show ?thesis by (cases "ProtobufCoder_decode out b") auto
qed

section \<open>Properties of the decoder\<close>

text \<open>C10 (Decoding a stream).
  From a buffer with a byte to spare that holds the frames of well-formed messages followed by an
  unfinished tail, \<open>ProtobufCoder::decode\<close> returns, appends to the out messages exactly these
  messages in order (with the checksum dropped), and leaves exactly the tail, whatever bytes the
  payloads contain.\<close>

theorem ProtobufCoder_decode_stream:
  assumes "roomy b" and "list_all wire_admissible ps"
    and "content b = concat (map protocol_wire ps) @ r" and "awaits r"
  shows "\<exists>b'. ProtobufCoder_decode out b = Some (Inr (out @ map protocol_received ps, b')) \<and>
    roomy b' \<and> content b' = r"
  using assms by (rule protobuf_stream.dec_law)

lemma sample_message_wire: "wire_ok sample_message"
  by (simp add: wire_ok_def sample_message_sized)
    (simp add: sample_message_def ProtobufProtocol_new_def in_i32_def nul_def char_of_def)

definition stream_buffer :: "string \<Rightarrow> tcp_buffer" where
  "stream_buffer s = \<lparr>m_read_index = 0, m_write_index = int (length s),
     m_size = int (length s) + 1, m_buffer = s @ [nul]\<rparr>"

lemma stream_buffer:
  "length s \<le> buf_limit \<Longrightarrow> roomy (stream_buffer s)" "content (stream_buffer s) = s"
  by (simp_all add: stream_buffer_def roomy_def buf_tight_def buf_inv_def content_def buf_limit_def)

lemma sample_frame_length: "length (frame sample_message) = 42"
  by (simp add: frame_length sample_message_def with_msg_id_def ProtobufProtocol_new_def)

lemma ProtobufCoder_decode_stream_witness:
  "\<exists>b'. ProtobufCoder_decode [] (stream_buffer (frame sample_message @ frame sample_message @ ''tail'')) =
      Some (Inr ([ProtobufP (decoded sample_message), ProtobufP (decoded sample_message)], b')) \<and>
    roomy b' \<and> content b' = ''tail''"
  using ProtobufCoder_decode_stream
    [of "stream_buffer (frame sample_message @ frame sample_message @ ''tail'')"
      "[ProtobufP sample_message, ProtobufP sample_message]" "''tail''" "[]"]
    sample_message_wire
  by (simp add: stream_buffer sample_frame_length buf_limit_def awaits_def s_start_def char_of_def)

text \<open>C9 (What one side encodes the other side decodes).
  The bytes \<open>ProtobufCoder::encode\<close> puts into an empty out buffer for well-formed messages, once
  they are in the peer's in buffer, are decoded by \<open>ProtobufCoder::decode\<close> to the same messages,
  in order, and nothing is left over.\<close>

theorem ProtobufCoder_roundtrip:
  assumes "buf_tight b" and "content b = []" and "list_all wire_admissible ps"
    and "length (concat (map protocol_wire ps)) \<le> buf_limit"
  shows "\<exists>sent_ps b'. ProtobufCoder_encode ps b = Inr (sent_ps, b') \<and>
    (\<forall>in_b. roomy in_b \<longrightarrow> content in_b = content b' \<longrightarrow>
      (\<exists>in_b'. ProtobufCoder_decode [] in_b = Some (Inr (map protocol_received ps, in_b')) \<and>
        content in_b' = []))"
  using assms by (rule protobuf_stream.relay)

lemma ProtobufCoder_roundtrip_witness:
  "\<exists>sent_ps b'. ProtobufCoder_encode [ProtobufP sample_message] (sample_buffer\<lparr>m_write_index := 0\<rparr>) =
      Inr (sent_ps, b') \<and>
    (\<forall>in_b. roomy in_b \<longrightarrow> content in_b = content b' \<longrightarrow>
      (\<exists>in_b'. ProtobufCoder_decode [] in_b = Some (Inr ([ProtobufP (decoded sample_message)], in_b')) \<and>
        content in_b' = []))"
  using ProtobufCoder_roundtrip [of "sample_buffer\<lparr>m_write_index := 0\<rparr>" "[ProtobufP sample_message]"]
    sample_message_wire
  by (simp add: sample_buffer_def buf_tight_def buf_inv_def content_def sample_frame_length buf_limit_def)

text \<open>C25 (A frame at the end of the vector).
  If the readable bytes are one frame that ends exactly at the end of the vector, the decoder
  never returns: \<open>adjust_read_index\<close> refuses to consume the frame, and each round decodes the
  same message again.\<close>

theorem decode_at_vector_end_diverges:
  assumes "buf_inv b" and "m_write_index b = int (length (m_buffer b))" and "wire_ok m"
    and "content b = frame m" and "length (m_buffer b) < 2147483647"
  shows "ProtobufCoder_decode out b = None"
proof (rule decode_diverges)
  fix out
  define pre where "pre = take (nat (m_read_index b)) (m_buffer b)"
  have buf: "m_buffer b = pre @ frame m @ []"
    using buffer_split [OF assms(1)] assms(2,4) by (simp add: pre_def)
  have p: "int (length pre) = m_read_index b"
    using assms(1) by (auto simp: pre_def buf_inv_def)
  have n: "int (length (frame m)) = can_read_bytes_num b"
    using content_length [OF assms(1)] assms(4) by simp
  have small: "length pre + length (frame m) \<le> 2147483646"
    using arg_cong [OF buf, of length] assms(5) by simp
  have "scan_frame (m_buffer b) (m_write_index b) (m_read_index b) =
      Inr (Some (m_read_index b, m_read_index b + int (length (frame m)) - 1, int (length (frame m))))"
    using scan_frame_at [of m pre "m_write_index b" "[]"] small p assms(2,3) buf
    by (simp add: wire_ok_def)
  moreover have "parse_message (m_buffer b) (m_read_index b)
      (m_read_index b + int (length (frame m)) - 1) (int (length (frame m))) = Inr (Some (decoded m))"
    using parse_message_frame [OF assms(3) small, of "[]"] buf p by simp
  moreover have "adjust_read_index (int (length (frame m))) b = Inr b"
    using n assms(2) by (intro adjust_read_index_refuses [OF assms(1)]) (auto simp: can_read_bytes_num_def)
  moreover have "in_i32 (int (length (frame m)))" using small by (simp add: in_i32_def)
  ultimately show "\<exists>out'. decode_step out b = Inr (False, out', b)"
    by (simp add: decode_step_def Let_def)
qed

definition full_buffer :: tcp_buffer where
  "full_buffer = \<lparr>m_read_index = 0, m_write_index = 42, m_size = 42, m_buffer = frame sample_message\<rparr>"

lemma decode_at_vector_end_diverges_witness: "ProtobufCoder_decode [] full_buffer = None"
  using decode_at_vector_end_diverges [of full_buffer sample_message "[]"] sample_message_wire
  by (simp add: full_buffer_def buf_inv_def sample_frame_length content_def)

text \<open>Lemma (A header with length zero).
  Five bytes sent by a peer, a start byte and the length 0, put the end index before the start
  index. At the front of the vector the decoder reads the byte before the vector; behind a
  consumed frame, whose last byte is an end byte, it loops for ever.\<close>

theorem decode_zero_length_header:
  assumes "buf_tight b" and "content b = s_start # put_int32 0 @ t"
  shows "if m_read_index b = 0 then ProtobufCoder_decode out b = Some (Inl OutOfBounds)
    else m_buffer b ! nat (m_read_index b - 1) = s_end \<longrightarrow> ProtobufCoder_decode out b = None"
proof -
  let ?i = "m_read_index b"
  have inv: "buf_inv b" using assms(1) by (rule buf_tight_inv)
  define pre where "pre = take (nat ?i) (m_buffer b)"
  define post where "post = t @ drop (nat (m_write_index b)) (m_buffer b)"
  have buf: "m_buffer b = pre @ (s_start # put_int32 0 @ post)"
    using buffer_split [OF inv] assms(2) by (simp add: pre_def post_def)
  have p: "int (length pre) = ?i" "0 \<le> ?i" "?i < 2147483647"
    using assms(1) by (auto simp: pre_def buf_tight_def buf_inv_def)
  have w: "?i + 1 < m_write_index b"
    using content_length [OF inv] assms(2) by (simp add: can_read_bytes_num_def)
  have first: "mem_at (m_buffer b) ?i = Inr s_start"
    using p buf by (intro mem_at_mid [of _ pre]) auto
  have len: "get_int32_from_netbyte (m_buffer b) (?i + 1) = Inr 0"
    using p buf by (intro get_int32_at [of _ "pre @ [s_start]"]) (auto simp: in_i32_def)
  show ?thesis
  proof (cases "?i = 0")
    case True
    then have "decode_step out b = Inl OutOfBounds"
      using first len w
      by (simp add: decode_step_def Let_def scan_frame.simps in_i32_def mem_at_def)
    then show ?thesis using True by (subst ProtobufCoder_decode.simps) simp
  next
    case False
    have "decode_step out b = Inr (False, out @ [], b)" if "m_buffer b ! nat (?i - 1) = s_end" for out
    proof -
      have "mem_at (m_buffer b) (?i - 1) = Inr s_end"
        using that False p inv by (auto simp: mem_at_def buf_inv_def)
      then have "scan_frame (m_buffer b) (m_write_index b) ?i = Inr (Some (?i, ?i - 1, 0))"
        using first len w p by (subst scan_frame.simps) (simp add: in_i32_def)
      moreover have "parse_message (m_buffer b) ?i (?i - 1) 0 = Inr None"
        using assms(1) False p
        by (auto simp: parse_message_def Let_def in_i32_def buf_tight_def buf_inv_def)
      moreover have "adjust_read_index 0 b = Inr b"
        using assms(1) False
        by (auto simp: adjust_read_index_def adjust_buffer_def buf_tight_def buf_inv_def in_i32_def to_size_id Let_def)
      ultimately show ?thesis by (simp add: decode_step_def Let_def in_i32_def)
    qed
    then have "m_buffer b ! nat (?i - 1) = s_end \<longrightarrow> ProtobufCoder_decode out b = None"
      by (blast intro: decode_diverges)
    with False show ?thesis by simp
  qed
qed

lemma decode_zero_length_header_witness:
  "if m_read_index (stream_buffer (s_start # put_int32 0)) = 0
   then ProtobufCoder_decode [] (stream_buffer (s_start # put_int32 0)) = Some (Inl OutOfBounds)
   else m_buffer (stream_buffer (s_start # put_int32 0)) !
       nat (m_read_index (stream_buffer (s_start # put_int32 0)) - 1) = s_end \<longrightarrow>
     ProtobufCoder_decode [] (stream_buffer (s_start # put_int32 0)) = None"
  by (rule decode_zero_length_header [where t = "[]"])
    (use stream_buffer [of "s_start # put_int32 0"] in \<open>auto simp: roomy_def buf_limit_def\<close>)

text \<open>Lemma (A message id of more than 100 bytes).
  The decoder copies as many bytes as the peer's length field says into an array of 100 bytes: a
  frame with a longer message id, which the encoder itself produces, is written past the array.\<close>

theorem decode_long_msg_id_overflows:
  assumes "roomy b" and "sized m" and "100 < length (m_msg_id m)" and "content b = frame m @ r"
  shows "ProtobufCoder_decode out b = Some (Inl OutOfBounds)"
proof -
  let ?i = "m_read_index b" and ?n = "int (length (frame m))"
  have inv: "buf_inv b" using assms(1) by (simp add: roomy_def buf_tight_inv)
  define pre where "pre = take (nat ?i) (m_buffer b)"
  define post where "post = r @ drop (nat (m_write_index b)) (m_buffer b)"
  have buf: "m_buffer b = pre @ frame m @ post"
    using buffer_split [OF inv] assms(4) by (simp add: pre_def post_def)
  have p: "int (length pre) = ?i" using inv by (auto simp: pre_def buf_inv_def)
  have "int (length (frame m @ r)) = m_write_index b - ?i"
    using content_length [OF inv] assms(4) by (simp add: can_read_bytes_num_def)
  then have fits: "?i + ?n \<le> m_write_index b" "?n \<le> can_read_bytes_num b" "length pre + length (frame m) \<le> 2147483646"
    using p assms(1) by (auto simp: can_read_bytes_num_def roomy_def buf_tight_def buf_inv_def)
  have same: "with_msg_id m = m" using assms(3) by (auto simp: with_msg_id_def)
  have len: "get_int32_from_netbyte (m_buffer b) (?i + 5) = Inr (int (length (m_msg_id m)))"
    unfolding buf using p fits same
    by (intro get_int32_at [of _ "pre @ s_start # put_int32 ?n"])
      (subst frame_split [OF assms(2)], simp, simp_all add: in_i32_def frame_length)
  have "read_field 100 (m_buffer b) (9 + ?i) (int (length (m_msg_id m))) = Inl OutOfBounds"
    using assms(3) by (auto simp: read_field_def memcpy_def mem_read_def mem_write_def min_def nat_add_distrib)
  with len have parsed: "parse_message (m_buffer b) ?i (?i + ?n - 1) ?n = Inl OutOfBounds"
    using fits p same assms(3)
    by (simp add: parse_message_def Let_def in_i32_def frame_length add.commute)
  have found: "scan_frame (m_buffer b) (m_write_index b) ?i = Inr (Some (?i, ?i + ?n - 1, ?n))"
    using scan_frame_at [of m pre "m_write_index b" post] fits p assms(2) by (simp add: buf)
  obtain b' where "adjust_read_index ?n b = Inr b'"
    using adjust_read_index_moves [OF inv, of ?n] fits assms(1) by (auto simp: roomy_def)
  moreover have "in_i32 ?n" using fits by (simp add: in_i32_def)
  ultimately have "decode_step out b = Inl OutOfBounds"
    by (simp add: decode_step_def Let_def found parsed)
  then show ?thesis by (subst ProtobufCoder_decode.simps) simp
qed

definition long_id_message :: protobuf_protocol where
  "long_id_message = ProtobufProtocol_new\<lparr>m_msg_id := replicate 101 (CHR ''7'')\<rparr>"

lemma decode_long_msg_id_overflows_witness:
  "ProtobufCoder_decode [] (stream_buffer (frame long_id_message)) = Some (Inl OutOfBounds)"
proof (rule decode_long_msg_id_overflows [where m = long_id_message and r = "[]"])
  have "length (frame long_id_message) = 127"
    by (simp add: frame_length long_id_message_def with_msg_id_def ProtobufProtocol_new_def)
  then show "roomy (stream_buffer (frame long_id_message))" "sized long_id_message"
      "content (stream_buffer (frame long_id_message)) = frame long_id_message @ []"
    by (simp_all add: stream_buffer buf_limit_def sized_def)
qed (simp add: long_id_message_def)

section \<open>Bytes before a frame\<close>

lemma decode_junk:
  assumes "wire_ok m" and "s_start \<notin> set (drop (length (frame m) - length junk mod length (frame m)) (frame m))"
  shows "roomy b \<Longrightarrow> content b = junk @ frame m \<Longrightarrow> s_start \<notin> set junk \<Longrightarrow>
   \<exists>b'. ProtobufCoder_decode out b = Some (Inr (out @ replicate (Suc (length junk div length (frame m))) (ProtobufP (decoded m)), b')) \<and>
     content b' = drop (length (frame m) - length junk mod length (frame m)) (frame m)"
  using assms(2)
proof (induction "length junk" arbitrary: junk b out rule: less_induct)
  case less
  let ?n = "length (frame m)"
  have n: "0 < ?n" using frame_nonempty by auto
  obtain b1 where b1: "decode_step out b = Inr (False, out @ [ProtobufP (decoded m)], b1)" "buf_tight b1"
    "content b1 = drop ?n (junk @ frame m)" "length (m_buffer b1) = length (m_buffer b)" "m_write_index b1 \<le> m_write_index b"
    using decode_step_junk [of b m junk "[]" out] less.prems assms(1) by (auto simp: roomy_def buf_tight_inv)
  have roomy: "roomy b1" using b1 less.prems(1) by (simp add: roomy_def)
  have one: "ProtobufCoder_decode out b = ProtobufCoder_decode (out @ [ProtobufP (decoded m)]) b1"
    using b1(1) by (subst ProtobufCoder_decode.simps) simp
  show ?case
  proof (cases "?n \<le> length junk")
    case True
    then have c: "content b1 = drop ?n junk @ frame m" using b1(3) by simp
    have "length (drop ?n junk) < length junk" using n True unfolding length_drop by linarith
    moreover have q: "length junk div ?n = Suc (length (drop ?n junk) div ?n)" "length (drop ?n junk) mod ?n = length junk mod ?n"
      using True n by (simp_all add: le_div_geq le_mod_geq)
    moreover have "s_start \<notin> set (drop ?n junk)" using less.prems(3) by (meson in_set_dropD)
    ultimately obtain b' where
      "ProtobufCoder_decode (out @ [ProtobufP (decoded m)]) b1 =
        Some (Inr ((out @ [ProtobufP (decoded m)]) @ replicate (Suc (length (drop ?n junk) div ?n)) (ProtobufP (decoded m)), b'))"
      "content b' = drop (?n - length junk mod ?n) (frame m)"
      using less.hyps [of "drop ?n junk" b1 "out @ [ProtobufP (decoded m)]"] roomy c less.prems(4) by auto
    then show ?thesis unfolding one q by simp
  next
    case False
    then have "content b1 = drop (?n - length junk mod ?n) (frame m)" "length junk div ?n = 0"
      using b1(3) by simp_all
    moreover have "s_start \<notin> set (butlast (content b1))" using less.prems(4) calculation(1) by (auto dest: in_set_butlastD)
    then have "awaits (content b1)" by (simp add: awaits_def)
    ultimately show ?thesis
      unfolding one using decode_step_awaits [of b1 "out @ [ProtobufP (decoded m)]"] b1(2)
      by (subst ProtobufCoder_decode.simps) simp
  qed
qed

text \<open>C40 (Bytes before a frame repeat its message).
  Bytes that are no start byte stand before the frame of a well-formed message. The decoder passes over them to the
  frame, but consumes only as many bytes as the frame has, from the front of the buffer. So it delivers the message once, and once more for
  each whole frame length of such bytes, and leaves the last bytes of the frame, as many as remain of them, in the
  buffer (where no start byte may be among them for this description to hold).\<close>

theorem decode_junk_repeats_message:
  assumes "roomy b" and "wire_ok m" and "content b = junk @ frame m" and "s_start \<notin> set junk"
    and "s_start \<notin> set (drop (length (frame m) - length junk mod length (frame m)) (frame m))"
  shows "\<exists>b'. ProtobufCoder_decode out b =
      Some (Inr (out @ replicate (Suc (length junk div length (frame m))) (ProtobufP (decoded m)), b')) \<and>
    content b' = drop (length (frame m) - length junk mod length (frame m)) (frame m)"
  by (rule decode_junk [OF assms(2,5,1,3,4)])

lemma decode_junk_repeats_message_witness:
  "\<exists>b'. ProtobufCoder_decode [] (stream_buffer (replicate 84 (CHR ''x'') @ frame sample_message)) =
      Some (Inr ([ProtobufP (decoded sample_message), ProtobufP (decoded sample_message), ProtobufP (decoded sample_message)], b')) \<and>
    content b' = []"
  using decode_junk_repeats_message [of "stream_buffer (replicate 84 (CHR ''x'') @ frame sample_message)" sample_message
      "replicate 84 (CHR ''x'')" "[]"] sample_message_wire sample_frame_length
  by (auto simp: stream_buffer buf_limit_def numeral_3_eq_3 s_start_def char_of_def)

section \<open>The vector keeps its length\<close>

lemma adjust_read_index_length: "adjust_read_index n b = Inr b' \<Longrightarrow> length (m_buffer b') = length (m_buffer b)"
  by (auto simp: adjust_read_index_def adjust_buffer_def vec_new_def memcpy_def Let_def fault_simps dest!: mem_write_length split: if_splits)

lemma decode_step_length:
  assumes "decode_step out b = Inr (returned, out', b')"
  shows "length (m_buffer b') = length (m_buffer b)"
proof (cases "scan_frame (m_buffer b) (m_write_index b) (m_read_index b)")
  case (Inr found)
  then show ?thesis
    using assms by (cases found) (auto simp: decode_step_def Let_def fault_simps dest: adjust_read_index_length)
qed (use assms in \<open>simp add: decode_step_def Let_def\<close>)

lemma decode_length:
  assumes "ProtobufCoder_decode out b = Some (Inr (out', b'))"
  shows "length (m_buffer b') = length (m_buffer b)"
proof -
  define P where "P = (\<lambda>(out :: protocol list) (b :: tcp_buffer) (r :: (protocol list \<times> tcp_buffer) res).
    \<forall>out' b'. r = Inr (out', b') \<longrightarrow> length (m_buffer b') = length (m_buffer b))"
  have "P out b (Inr (out', b'))"
  proof (rule ProtobufCoder_decode.raw_induct [of P, OF _ assms])
    fix dec o1 b1 r
    assume IH: "\<And>o2 b2 r. dec o2 b2 = Some r \<Longrightarrow> P o2 b2 r"
      and step: "(case decode_step o1 b1 of Inl e \<Rightarrow> Some (Inl e)
        | Inr (returned, out', buffer') \<Rightarrow>
            if returned then Some (Inr (out', buffer')) else dec out' buffer') = Some r"
    show "P o1 b1 r"
      unfolding P_def
    proof (intro allI impI)
      fix out' b'
      assume r: "r = Inr (out', b')"
      then obtain returned o2 b2 where one: "decode_step o1 b1 = Inr (returned, o2, b2)"
        using step by (auto split: sum.splits)
      show "length (m_buffer b') = length (m_buffer b1)"
        using decode_step_length [OF one] IH [of o2 b2 r] step one r by (cases returned) (auto simp: P_def)
    qed
  qed
  then show ?thesis by (simp add: P_def)
qed

section \<open>Whatever arrives\<close>

text \<open>A message as the decoder fills it in: a successful parse, the texts within their arrays and no longer than their
  length fields, and a total that is the frame's length.\<close>

definition well_formed :: "protobuf_protocol \<Rightarrow> bool" where
  "well_formed m \<longleftrightarrow> m_parse_success m \<and> in_i32 (m_pk_len m) \<and> in_i32 (m_err_code m) \<and> m_check_sum m = 0 \<and>
     int (length (m_msg_id m)) \<le> m_msg_id_len m \<and> m_msg_id_len m \<le> 100 \<and> length (m_msg_id m) < 100 \<and> nul \<notin> set (m_msg_id m) \<and>
     int (length (m_method_name m)) \<le> m_method_name_len m \<and> m_method_name_len m \<le> 512 \<and> length (m_method_name m) < 512 \<and>
     nul \<notin> set (m_method_name m) \<and>
     int (length (m_err_info m)) \<le> m_err_info_len m \<and> m_err_info_len m \<le> 512 \<and> length (m_err_info m) < 512 \<and> nul \<notin> set (m_err_info m) \<and>
     m_pk_len m = 26 + m_msg_id_len m + m_method_name_len m + m_err_info_len m + int (length (m_pb_data m))"


lemma c_string_typed: "c_string xs = Inr s \<Longrightarrow> length s < length xs \<and> nul \<notin> set s"
proof -
  assume "c_string xs = Inr s"
  then have s: "s = takeWhile (\<lambda>c. c \<noteq> nul) xs" "nul \<in> set xs" by (auto simp: c_string_def split: if_splits)
  then have "s \<noteq> xs" by (auto simp: takeWhile_eq_all_conv)
  then show ?thesis
    using s(1) takeWhile_dropWhile_id [of "\<lambda>c. c \<noteq> nul" xs]
    by (metis append_Nil2 length_append less_add_same_cancel1 length_greater_0_conv set_takeWhileD)
qed

lemma read_field_typed:
  assumes "read_field cap tmp i n = Inr s" and "0 \<le> cap"
  shows "int (length s) \<le> n \<and> n \<le> cap \<and> int (length s) < cap \<and> nul \<notin> set s"
proof -
  obtain ds where ds: "mem_read tmp i n = Inr ds" "0 \<le> n" "length ds = nat n" "n \<le> cap"
    "c_string (ds @ replicate (nat cap - nat n) nul) = Inr s"
    using assms by (auto simp: read_field_def memcpy_def mem_read_def mem_write_def fault_simps split: if_splits)
  have "length s \<le> length ds"
  proof (cases "nul \<in> set ds")
    case True
    then have "c_string ds = Inr s" using ds(5) by (auto simp: c_string_def takeWhile_append split: if_splits)
    then show ?thesis using c_string_typed [of ds s] by simp
  next
    case False
    then show ?thesis using ds(5) by (auto simp: c_string_def takeWhile_append takeWhile_eq_all_conv split: if_splits)
  qed
  then show ?thesis using ds(2-4) c_string_typed [OF ds(5)] by (simp add: le_nat_iff zless_nat_eq_int_zless)
qed

lemma get_int32_typed: "get_int32_from_netbyte tmp i = Inr x \<Longrightarrow> in_i32 x"
proof -
  assume "get_int32_from_netbyte tmp i = Inr x"
  then obtain w :: "32 word" where "x = sint w" by (auto simp: get_int32_from_netbyte_def fault_simps)
  then show ?thesis using sint_lt [of w] sint_ge [of w] by (simp add: in_i32_def)
qed

lemma parse_message_typed:
  assumes "parse_message tmp start_index end_index pk_len = Inr (Some m)" and "in_i32 pk_len"
  shows "well_formed m"
proof -
  obtain i1 l1 s1 i2 l2 s2 i3 code i4 l3 s3 i5 n pb where
    f: "read_field 100 tmp i1 l1 = Inr s1" "read_field 512 tmp i2 l2 = Inr s2" "get_int32_from_netbyte tmp i3 = Inr code"
      "read_field 512 tmp i4 l3 = Inr s3" "n = pk_len - l2 - l1 - l3 - 2 - 24" "0 \<le> n" "mem_read tmp i5 n = Inr pb"
    and m: "m = ProtobufProtocol_new\<lparr>m_pk_len := pk_len, m_msg_id_len := l1, m_msg_id := s1, m_method_name_len := l2, m_method_name := s2,
      m_err_code := code, m_err_info_len := l3, m_err_info := s3, m_pb_data := pb, m_parse_success := True\<rparr>"
    using assms(1) by (auto simp: parse_message_def Let_def fault_simps split: if_splits)
  have "int (length pb) = n" using f(6,7) by (auto simp: mem_read_def split: if_splits)
  then show ?thesis
    using read_field_typed [OF f(1)] read_field_typed [OF f(2)] read_field_typed [OF f(4)] get_int32_typed [OF f(3)] f(5) assms(2)
    by (simp add: well_formed_def m ProtobufProtocol_new_def)
qed

lemma scan_frame_typed: "scan_frame tmp w i = Inr (Some (i', j, n)) \<Longrightarrow> in_i32 n"
proof (induction tmp w i rule: scan_frame.induct)
  case (1 tmp w i)
  from "1.prems" show ?case
    by (subst (asm) scan_frame.simps) (auto simp: fault_simps dest: get_int32_typed intro: "1.IH" split: if_splits)
qed

lemma decode_step_typed:
  assumes "decode_step out b = Inr (returned, out', b')"
  shows "\<exists>ms. out' = out @ map ProtobufP ms \<and> list_all well_formed ms"
proof (cases "scan_frame (m_buffer b) (m_write_index b) (m_read_index b)")
  case (Inr found)
  show ?thesis
  proof (cases found)
    case None
    then show ?thesis using assms Inr by (simp add: decode_step_def Let_def)
  next
    case (Some t)
    obtain i j n where t: "t = (i, j, n)" by (cases t)
    have "in_i32 n" using scan_frame_typed Inr Some t by blast
    moreover obtain message where "parse_message (m_buffer b) i j n = Inr message"
      "out' = out @ map ProtobufP (case message of None \<Rightarrow> [] | Some m \<Rightarrow> [m])"
      using assms Inr Some t by (auto simp: decode_step_def Let_def fault_simps)
    ultimately show ?thesis
      using parse_message_typed
      by (intro exI [of _ "case message of None \<Rightarrow> [] | Some m \<Rightarrow> [m]"]) (auto split: option.splits)
  qed
qed (use assms in \<open>simp add: decode_step_def Let_def\<close>)

lemma decode_typed:
  assumes "ProtobufCoder_decode out b = Some (Inr (out', b'))"
  shows "\<exists>ms. out' = out @ map ProtobufP ms \<and> list_all well_formed ms"
proof -
  define P where "P = (\<lambda>out (b :: tcp_buffer) (r :: (protocol list \<times> tcp_buffer) res).
    \<forall>out' b'. r = Inr (out', b') \<longrightarrow> (\<exists>ms. out' = out @ map ProtobufP ms \<and> list_all well_formed ms))"
  have "P out b (Inr (out', b'))"
  proof (rule ProtobufCoder_decode.raw_induct [of P, OF _ assms])
    fix dec o1 b1 r
    assume IH: "\<And>o2 b2 r. dec o2 b2 = Some r \<Longrightarrow> P o2 b2 r"
      and step: "(case decode_step o1 b1 of Inl e \<Rightarrow> Some (Inl e)
        | Inr (returned, out', buffer') \<Rightarrow>
            if returned then Some (Inr (out', buffer')) else dec out' buffer') = Some r"
    show "P o1 b1 r"
      unfolding P_def
    proof (intro allI impI)
      fix out' b'
      assume r: "r = Inr (out', b')"
      then obtain returned o2 b2 where one: "decode_step o1 b1 = Inr (returned, o2, b2)"
        using step by (auto split: sum.splits)
      obtain ms where ms: "o2 = o1 @ map ProtobufP ms" "list_all well_formed ms"
        using decode_step_typed [OF one] by blast
      show "\<exists>ms. out' = o1 @ map ProtobufP ms \<and> list_all well_formed ms"
      proof (cases returned)
        case True
        then show ?thesis using step one r ms by auto
      next
        case False
        then obtain ns where "out' = o2 @ map ProtobufP ns" "list_all well_formed ns"
          using IH [of o2 b2 r] step one r by (auto simp: P_def)
        then show ?thesis using ms by (intro exI [of _ "ms @ ns"]) simp
      qed
    qed
  qed
  then show ?thesis by (simp add: P_def)
qed



end
