(* ===== verification/Msg_Id.thy ===== *)
theory Msg_Id
  imports Rpc_Utils
begin

text \<open>
  The message-id generator \<open>MsgIdUtils::gen_msg_id\<close> (\<open>src/common/msg_id_utils.cc\<close>). An id is a
  string of twenty decimal digits, seeded from \<open>/dev/urandom\<close> and then counted up in place.

  The lemmas read the digits as a number: within a block every call returns the successor of
  the previous id, so a run of calls returns consecutive, hence distinct, ids. They also show
  what happens when a block is used up.
\<close>

section \<open>State and operations\<close>

definition g_msg_id_length :: nat where "g_msg_id_length = 20"

record msg_id_state =
  t_cur_msg_id_number :: string
  t_max_msg_id_number :: string
  g_random_fd :: int

definition msg_id_initial :: msg_id_state where
  "msg_id_initial =
     \<lparr>t_cur_msg_id_number = [], t_max_msg_id_number = [], g_random_fd = -1\<rparr>"

text \<open>\<open>while (i >= 0 && cur[i] == '9') i--;\<close> the index is one less than the argument.\<close>

fun skip_nines :: "string \<Rightarrow> nat \<Rightarrow> nat" where
  "skip_nines s 0 = 0"
| "skip_nines s (Suc i) = (if s ! i = CHR ''9'' then skip_nines s i else Suc i)"

definition zero_digit :: "nat \<Rightarrow> string \<Rightarrow> string res" where
  "zero_digit j s = (if j < length s then Inr (s[j := CHR ''0'']) else Inl OutOfBounds)"

definition increment_id :: "string \<Rightarrow> string \<Rightarrow> string res" where
  "increment_id cur mx =
     (case skip_nines cur (length cur) of
        0 \<Rightarrow> Inr cur
      | Suc i \<Rightarrow>
          foldR zero_digit [Suc i..<length mx]
            (cur[i := char_of (of_char (cur ! i) + (1::nat))]))"

definition seed_digit :: "char \<Rightarrow> char" where
  "seed_digit c = char_of (of_char c mod 10 + (48::nat))"

text \<open>
  \<open>urandom\<close> holds the bytes the \<open>read\<close> of \<open>/dev/urandom\<close> delivers, \<open>open_fd\<close> what \<open>open\<close>
  returns. A short read reports an error and returns the empty string.
\<close>

definition gen_msg_id :: "int \<Rightarrow> string \<Rightarrow> msg_id_state \<Rightarrow> (string \<times> msg_id_state) res" where
  "gen_msg_id open_fd urandom st =
     (if t_cur_msg_id_number st = [] \<or> t_cur_msg_id_number st = t_max_msg_id_number st then
        let st1 = (if g_random_fd st = -1 then st\<lparr>g_random_fd := open_fd\<rparr> else st)
        in if length urandom \<noteq> g_msg_id_length then Inr ([], st1)
           else let res = map seed_digit urandom
                in Inr (res, st1\<lparr>t_cur_msg_id_number := res,
                     t_max_msg_id_number :=
                       t_max_msg_id_number st1 @ replicate g_msg_id_length (CHR ''9'')\<rparr>)
      else bindR (increment_id (t_cur_msg_id_number st) (t_max_msg_id_number st))
             (\<lambda>cur. Inr (cur, st\<lparr>t_cur_msg_id_number := cur\<rparr>)))"

section \<open>Digit strings as numbers\<close>

definition digit_ok :: "char \<Rightarrow> bool" where
  "digit_ok c \<longleftrightarrow> 48 \<le> (of_char c :: nat) \<and> (of_char c :: nat) \<le> 57"

definition digit_val :: "char \<Rightarrow> nat" where
  "digit_val c = of_char c - 48"

definition dec_val :: "string \<Rightarrow> nat" where
  "dec_val s = foldl (\<lambda>a c. 10 * a + digit_val c) 0 s"

lemma dec_val_Nil [simp]: "dec_val [] = 0"
  by (simp add: dec_val_def)

lemma dec_val_snoc [simp]: "dec_val (s @ [c]) = 10 * dec_val s + digit_val c"
  by (simp add: dec_val_def)

lemma dec_val_append: "dec_val (s @ t) = dec_val s * 10 ^ length t + dec_val t"
proof (induction t rule: rev_induct)
  case (snoc c t)
  then show ?case by (simp flip: append_assoc)
qed simp

lemma digit_val_le: "digit_ok c \<Longrightarrow> digit_val c \<le> 9"
  by (auto simp: digit_ok_def digit_val_def)

lemma digit_nine [simp]: "digit_val (CHR ''9'') = 9" "digit_val (CHR ''0'') = 0"
  by (simp_all add: digit_val_def)

lemma replicate_snoc: "replicate (Suc n) x = replicate n x @ [x]"
  by (simp add: replicate_append_same)

lemma dec_val_nines: "dec_val (replicate n (CHR ''9'')) + 1 = 10 ^ n"
  by (induction n) (simp_all add: replicate_snoc del: replicate_Suc)

lemma dec_val_zeros: "dec_val (replicate n (CHR ''0'')) = 0"
  by (induction n) (simp_all add: replicate_snoc del: replicate_Suc)

lemma dec_val_less: "list_all digit_ok s \<Longrightarrow> dec_val s < 10 ^ length s"
proof (induction s rule: rev_induct)
  case (snoc c s)
  then have "dec_val s < 10 ^ length s" and "digit_val c \<le> 9"
    by (auto dest: digit_val_le)
  then show ?case by simp
qed simp

lemma digit_val_inj: "digit_ok c \<Longrightarrow> digit_ok d \<Longrightarrow> digit_val c = digit_val d \<Longrightarrow> c = d"
  unfolding digit_ok_def digit_val_def
  by (metis eq_diff_iff of_char_eq_iff)

lemma dec_val_inj:
  assumes "length s = length t" and "list_all digit_ok s" and "list_all digit_ok t"
    and "dec_val s = dec_val t"
  shows "s = t"
  using assms
proof (induction s arbitrary: t rule: rev_induct)
  case (snoc c s)
  then obtain d u where t: "t = u @ [d]" and "length u = length s"
    by (cases t rule: rev_cases) auto
  moreover from snoc.prems t have "digit_val c \<le> 9" "digit_val d \<le> 9"
    and eq: "10 * dec_val s + digit_val c = 10 * dec_val u + digit_val d"
    by (auto dest: digit_val_le)
  moreover from calculation have "dec_val s = dec_val u" by linarith
  moreover from calculation have "digit_val c = digit_val d" by linarith
  ultimately show ?case using snoc by (auto intro: digit_val_inj)
qed simp

section \<open>Counting up\<close>

lemma skip_nines_spec:
  "n \<le> length s \<Longrightarrow> skip_nines s n \<le> n \<and>
     (\<forall>j. skip_nines s n \<le> j \<and> j < n \<longrightarrow> s ! j = CHR ''9'') \<and>
     (0 < skip_nines s n \<longrightarrow> s ! (skip_nines s n - 1) \<noteq> CHR ''9'')"
  by (induction n) (auto simp: less_Suc_eq)

text \<open>Every string is nines throughout, or a character before its trailing nines.\<close>

lemma skip_nines_cases:
  obtains "skip_nines s (length s) = 0" "s = replicate (length s) (CHR ''9'')"
  | u c k where "s = u @ c # replicate k (CHR ''9'')" "c \<noteq> CHR ''9''"
      "skip_nines s (length s) = Suc (length u)"
proof (cases "skip_nines s (length s)")
  case 0
  then have "s = replicate (length s) (CHR ''9'')"
    using skip_nines_spec [of "length s" s] by (intro nth_equalityI) auto
  with 0 that(1) show ?thesis by blast
next
  case (Suc i)
  have i: "i < length s" and c: "s ! i \<noteq> CHR ''9''"
    and nines: "\<forall>j. Suc i \<le> j \<and> j < length s \<longrightarrow> s ! j = CHR ''9''"
    using skip_nines_spec [of "length s" s] Suc by auto
  have "drop (Suc i) s = replicate (length s - Suc i) (CHR ''9'')"
    using nines by (intro nth_equalityI) auto
  then have "s = take i s @ s ! i # replicate (length s - Suc i) (CHR ''9'')"
    using id_take_nth_drop [OF i] by simp
  with c Suc i that(2) [of "take i s" "s ! i"] show ?thesis by auto
qed

lemma zero_loop:
  "i \<le> m \<Longrightarrow> m \<le> length s \<Longrightarrow>
   foldR zero_digit [i..<m] s = Inr (take i s @ replicate (m - i) (CHR ''0'') @ drop m s)"
proof (induction m)
  case (Suc m)
  show ?case
  proof (cases "i = Suc m")
    case False
    with Suc.prems have im: "i \<le> m" "m < length s" by auto
    then have "foldR zero_digit [i..<m] s = Inr (take i s @ replicate (m - i) (CHR ''0'') @ drop m s)"
      using Suc.IH by simp
    moreover have "(take i s @ replicate (m - i) (CHR ''0'') @ drop m s)[m := CHR ''0'']
        = take i s @ replicate (Suc m - i) (CHR ''0'') @ drop (Suc m) s"
      using im by (simp add: list_update_append Cons_nth_drop_Suc [symmetric] Suc_diff_le
          replicate_snoc del: replicate_Suc)
    moreover have "m < length (take i s @ replicate (m - i) (CHR ''0'') @ drop m s)"
      using im by simp
    ultimately have "zero_digit m (take i s @ replicate (m - i) (CHR ''0'') @ drop m s)
        = Inr (take i s @ replicate (Suc m - i) (CHR ''0'') @ drop (Suc m) s)"
      unfolding zero_digit_def by (simp only: if_True)
    with \<open>foldR zero_digit [i..<m] s = _\<close> im show ?thesis
      by (simp add: foldR_append del: replicate_Suc)
  qed simp
qed simp

definition next_char :: "char \<Rightarrow> char" where
  "next_char c = char_of (of_char c + (1::nat))"

lemma next_char_digit:
  assumes "digit_ok c" and "c \<noteq> CHR ''9''"
  shows "digit_ok (next_char c)" "digit_val (next_char c) = digit_val c + 1"
proof -
  have "(of_char c :: nat) \<noteq> of_char (CHR ''9'')"
    using assms(2) by (metis of_char_eq_iff)
  then have "(of_char c :: nat) \<le> 56" using assms(1) by (auto simp: digit_ok_def)
  then have "(of_char (next_char c) :: nat) = of_char c + 1"
    by (simp add: next_char_def)
  then show "digit_ok (next_char c)" "digit_val (next_char c) = digit_val c + 1"
    using assms(1) \<open>of_char c \<le> 56\<close> by (auto simp: digit_ok_def digit_val_def)
qed

lemma increment_id_nines: "increment_id (replicate n (CHR ''9'')) mx = Inr (replicate n (CHR ''9''))"
proof -
  have "m \<le> n \<Longrightarrow> skip_nines (replicate n (CHR ''9'')) m = 0" for m
    by (induction m) auto
  then show ?thesis by (simp add: increment_id_def)
qed

lemma increment_id_carry:
  assumes "c \<noteq> CHR ''9''" and cur: "cur = u @ c # replicate k (CHR ''9'')"
    and "length mx = length cur" and "skip_nines cur (length cur) = Suc (length u)"
  shows "increment_id cur mx = Inr (u @ next_char c # replicate k (CHR ''0''))"
proof -
  let ?t = "cur[length u := next_char (cur ! length u)]"
  have "increment_id cur mx = foldR zero_digit [Suc (length u)..<length mx] ?t"
    by (simp add: increment_id_def assms(4) next_char_def)
  also have "\<dots> = Inr (take (Suc (length u)) ?t @
      replicate (length mx - Suc (length u)) (CHR ''0'') @ drop (length mx) ?t)"
    using assms(3) by (intro zero_loop) (simp_all add: cur)
  finally show ?thesis using assms(3) by (simp add: cur)
qed

lemma increment_id_succ:
  assumes "list_all digit_ok cur" and "length mx = length cur"
    and "cur \<noteq> replicate (length cur) (CHR ''9'')"
  obtains nxt where "increment_id cur mx = Inr nxt" "length nxt = length cur"
    "list_all digit_ok nxt" "dec_val nxt = dec_val cur + 1"
proof (rule skip_nines_cases [of cur])
  fix u c k
  assume cur: "cur = u @ c # replicate k (CHR ''9'')" and c: "c \<noteq> CHR ''9''"
    and "skip_nines cur (length cur) = Suc (length u)"
  then have inc: "increment_id cur mx = Inr (u @ next_char c # replicate k (CHR ''0''))"
    using assms(2) by (intro increment_id_carry)
  have ok: "list_all digit_ok u" "digit_ok c" using assms(1) cur by auto
  have val: "dec_val (u @ d # r) = (10 * dec_val u + digit_val d) * 10 ^ length r + dec_val r"
    for d and r :: string
    using dec_val_append [of "u @ [d]" r] by simp
  have "dec_val (u @ next_char c # replicate k (CHR ''0'')) = dec_val cur + 1"
    using dec_val_nines [of k] next_char_digit(2) [OF ok(2) c]
    by (simp add: val cur dec_val_zeros algebra_simps)
  moreover have "list_all digit_ok (u @ next_char c # replicate k (CHR ''0''))"
    using ok next_char_digit(1) [OF ok(2) c]
    by (auto simp: list_all_iff digit_ok_def)
  ultimately show thesis using inc that cur by auto
qed (use assms(3) in simp)

section \<open>Correctness of the generator\<close>

text \<open>A block: twenty digits, and the maximum is twenty nines.\<close>

definition msg_block :: "msg_id_state \<Rightarrow> bool" where
  "msg_block st \<longleftrightarrow>
     length (t_cur_msg_id_number st) = g_msg_id_length \<and>
     list_all digit_ok (t_cur_msg_id_number st) \<and>
     t_max_msg_id_number st = replicate g_msg_id_length (CHR ''9'')"

lemma seed_digit_ok: "digit_ok (seed_digit c)"
proof -
  have "(of_char c :: nat) mod 10 < 10" by simp
  then have "(of_char (seed_digit c) :: nat) = of_char c mod 10 + 48"
    by (simp add: seed_digit_def)
  then show ?thesis using \<open>of_char c mod 10 < 10\<close> by (simp add: digit_ok_def)
qed

lemma gen_msg_id_seeds:
  assumes "length urandom = g_msg_id_length"
  shows "\<exists>st. gen_msg_id fd urandom msg_id_initial = Inr (map seed_digit urandom, st) \<and>
    msg_block st \<and> t_cur_msg_id_number st = map seed_digit urandom"
  using assms
  by (simp add: gen_msg_id_def msg_id_initial_def msg_block_def list_all_iff seed_digit_ok Let_def)

lemma gen_msg_id_counts:
  assumes "msg_block st" and "t_cur_msg_id_number st \<noteq> t_max_msg_id_number st"
  obtains nxt where
    "gen_msg_id fd urandom st = Inr (nxt, st\<lparr>t_cur_msg_id_number := nxt\<rparr>)"
    "msg_block (st\<lparr>t_cur_msg_id_number := nxt\<rparr>)"
    "dec_val nxt = dec_val (t_cur_msg_id_number st) + 1"
proof -
  let ?cur = "t_cur_msg_id_number st" and ?max = "t_max_msg_id_number st"
  have blk: "length ?cur = g_msg_id_length" "list_all digit_ok ?cur"
      "?max = replicate g_msg_id_length (CHR ''9'')"
    using assms(1) by (auto simp: msg_block_def)
  then have ne: "?cur \<noteq> replicate (length ?cur) (CHR ''9'')" and len: "length ?max = length ?cur"
    using assms(2) by auto
  obtain nxt where nxt: "increment_id ?cur ?max = Inr nxt" "length nxt = length ?cur"
      "list_all digit_ok nxt" "dec_val nxt = dec_val ?cur + 1"
    by (rule increment_id_succ [OF blk(2) len ne])
  moreover have "?cur \<noteq> []" using blk(1) by (auto simp: g_msg_id_length_def)
  ultimately show thesis
    using that [of nxt] blk assms(2) by (simp add: gen_msg_id_def msg_block_def)
qed

text \<open>A run of calls, one \<open>urandom\<close> reading each, and the ids it returns.\<close>

fun gen_msg_ids :: "int \<Rightarrow> string list \<Rightarrow> msg_id_state \<Rightarrow> (string list \<times> msg_id_state) res" where
  "gen_msg_ids fd [] st = Inr ([], st)"
| "gen_msg_ids fd (u # us) st =
     bindR (gen_msg_id fd u st) (\<lambda>(i, st1).
     bindR (gen_msg_ids fd us st1) (\<lambda>(ids, st2). Inr (i # ids, st2)))"

lemma msg_block_max: "msg_block st \<Longrightarrow> dec_val (t_max_msg_id_number st) = 10 ^ 20 - 1"
  using dec_val_nines [of g_msg_id_length] by (simp add: msg_block_def g_msg_id_length_def)

lemma gen_msg_ids_counts:
  assumes "msg_block st" and "dec_val (t_cur_msg_id_number st) + length us < 10 ^ 20"
  shows "\<exists>ids st'. gen_msg_ids fd us st = Inr (ids, st') \<and> msg_block st' \<and>
    map dec_val ids = map (\<lambda>k. dec_val (t_cur_msg_id_number st) + 1 + k) [0..<length us] \<and>
    (\<forall>i\<in>set ids. length i = g_msg_id_length)"
  using assms
proof (induction us arbitrary: st)
  case (Cons u us)
  let ?v = "dec_val (t_cur_msg_id_number st)"
  have "?v < 10 ^ 20 - 1" using Cons.prems(2) by simp
  then have "t_cur_msg_id_number st \<noteq> t_max_msg_id_number st"
    using msg_block_max [OF Cons.prems(1)] by auto
  with Cons.prems(1) obtain nxt where
      gen: "gen_msg_id fd u st = Inr (nxt, st\<lparr>t_cur_msg_id_number := nxt\<rparr>)" and
      blk: "msg_block (st\<lparr>t_cur_msg_id_number := nxt\<rparr>)" and val: "dec_val nxt = ?v + 1"
    by (rule gen_msg_id_counts)
  have "\<exists>ids st'. gen_msg_ids fd us (st\<lparr>t_cur_msg_id_number := nxt\<rparr>) = Inr (ids, st') \<and>
      msg_block st' \<and> map dec_val ids = map (\<lambda>k. dec_val nxt + 1 + k) [0..<length us] \<and>
      (\<forall>i\<in>set ids. length i = g_msg_id_length)"
    using Cons.IH [OF blk] Cons.prems(2) val by simp
  then obtain ids st' where ids: "gen_msg_ids fd us (st\<lparr>t_cur_msg_id_number := nxt\<rparr>) = Inr (ids, st')"
      "msg_block st'" "map dec_val ids = map (\<lambda>k. ?v + 1 + Suc k) [0..<length us]"
      "\<forall>i\<in>set ids. length i = g_msg_id_length"
    by (auto simp: val)
  moreover have "map dec_val (nxt # ids) = map (\<lambda>k. ?v + 1 + k) [0..<length (u # us)]"
    using ids(3) val by (simp add: upt_conv_Cons map_Suc_upt [symmetric] del: upt_Suc)
  ultimately show ?case using gen blk by (auto simp: msg_block_def)
qed simp

text \<open>C23 (Ids of a block are consecutive and distinct).
  Started in a block with room for them, any number of calls of \<open>gen_msg_id\<close> all return; the ids
  are twenty characters long, as numbers they are the consecutive successors of the current id,
  and no two of them are equal, so concurrent calls of one thread cannot be confused.\<close>

theorem gen_msg_ids_consecutive:
  assumes "msg_block st" and "dec_val (t_cur_msg_id_number st) + length us < 10 ^ 20"
  shows "\<exists>ids st'. gen_msg_ids fd us st = Inr (ids, st') \<and> distinct ids \<and>
    map dec_val ids = map (\<lambda>k. dec_val (t_cur_msg_id_number st) + 1 + k) [0..<length us] \<and>
    (\<forall>i\<in>set ids. length i = g_msg_id_length)"
proof -
  let ?v = "dec_val (t_cur_msg_id_number st)"
  obtain ids st' where ids: "gen_msg_ids fd us st = Inr (ids, st')"
      "map dec_val ids = map (\<lambda>k. ?v + 1 + k) [0..<length us]"
      "\<forall>i\<in>set ids. length i = g_msg_id_length"
    using gen_msg_ids_counts [OF assms] by blast
  moreover have "distinct (map (\<lambda>k. ?v + 1 + k) [0..<length us])"
    by (simp add: distinct_map inj_on_def)
  then have "distinct (map dec_val ids)" using ids(2) by simp
  then have "distinct ids" by (simp add: distinct_map)
  ultimately show ?thesis by blast
qed

definition sample_block :: msg_id_state where
  "sample_block = \<lparr>t_cur_msg_id_number = ''00000000000000000099'',
     t_max_msg_id_number = replicate g_msg_id_length (CHR ''9''), g_random_fd = 3\<rparr>"

lemma sample_block: "msg_block sample_block" "dec_val (t_cur_msg_id_number sample_block) = 99"
  by (simp_all add: msg_block_def sample_block_def g_msg_id_length_def digit_ok_def dec_val_def
      digit_val_def)

lemma gen_msg_ids_consecutive_witness:
  "\<exists>ids st'. gen_msg_ids 3 [[], []] sample_block = Inr (ids, st') \<and> distinct ids \<and>
    map dec_val ids = [100, 101] \<and> (\<forall>i\<in>set ids. length i = g_msg_id_length)"
  using gen_msg_ids_consecutive [OF sample_block(1), of "[[], []]" 3]
  by (simp add: sample_block(2))

text \<open>
  When a block is used up the generator reseeds, but it appends twenty more nines to the
  maximum instead of replacing it. From then on the digits after the incremented one are
  cleared up to the length of the maximum, which is past the end of the id.
\<close>

lemma zero_loop_overrun:
  "i \<le> length s \<Longrightarrow> length s < m \<Longrightarrow> foldR zero_digit [i..<m] s = Inl OutOfBounds"
proof -
  assume i: "i \<le> length s" and m: "length s < m"
  have "[i..<m] = [i..<length s] @ length s # [Suc (length s)..<m]"
    using i m by (metis le_add_diff_inverse less_imp_le_nat upt_add_eq_append upt_conv_Cons)
  then show ?thesis
    using i by (simp add: foldR_append zero_loop zero_digit_def)
qed

lemma increment_id_overrun:
  assumes "skip_nines cur (length cur) \<noteq> 0" and "length cur < length mx"
  shows "increment_id cur mx = Inl OutOfBounds"
proof -
  obtain i where i: "skip_nines cur (length cur) = Suc i" using assms(1) by (cases "skip_nines cur (length cur)") auto
  moreover have "Suc i \<le> length cur" using skip_nines_spec [of "length cur" cur] i by simp
  ultimately show ?thesis
    using assms(2) by (simp add: increment_id_def zero_loop_overrun)
qed

text \<open>Lemma (After a block is used up the next id is out of bounds).
  If the current id equals the maximum, a call reseeds and returns the fresh digits; the call
  after that writes past the end of the id, or, when the fresh digits are all nines, returns
  the same id again. The generator never works a second time.\<close>

theorem gen_msg_id_second_block_faults:
  assumes "msg_block st" and "t_cur_msg_id_number st = t_max_msg_id_number st"
    and "length urandom = g_msg_id_length"
  shows "\<exists>st'. gen_msg_id fd urandom st = Inr (map seed_digit urandom, st') \<and>
    gen_msg_id fd urandom' st' =
      (if map seed_digit urandom = replicate g_msg_id_length (CHR ''9'')
       then Inr (map seed_digit urandom, st') else Inl OutOfBounds)"
proof -
  let ?id = "map seed_digit urandom"
  let ?st = "(if g_random_fd st = -1 then st\<lparr>g_random_fd := fd\<rparr> else st)
    \<lparr>t_cur_msg_id_number := ?id,
     t_max_msg_id_number := replicate (g_msg_id_length + g_msg_id_length) (CHR ''9'')\<rparr>"
  have first: "gen_msg_id fd urandom st = Inr (?id, ?st)"
    using assms by (simp add: gen_msg_id_def msg_block_def Let_def replicate_add)
  have len: "length ?id = g_msg_id_length" "?id \<noteq> []"
    "?id \<noteq> replicate (g_msg_id_length + g_msg_id_length) (CHR ''9'')"
    using assms(3) by (auto simp: g_msg_id_length_def dest!: arg_cong [where f = length])
  then have next_id: "gen_msg_id fd urandom' ?st =
      bindR (increment_id ?id (t_max_msg_id_number ?st)) (\<lambda>cur. Inr (cur, ?st\<lparr>t_cur_msg_id_number := cur\<rparr>))"
    unfolding gen_msg_id_def by simp
  show ?thesis
  proof (cases "?id = replicate g_msg_id_length (CHR ''9'')")
    case True
    then show ?thesis using first next_id increment_id_nines by auto
  next
    case False
    then have "skip_nines ?id (length ?id) \<noteq> 0"
      using len(1) by (cases rule: skip_nines_cases [of ?id]) auto
    then have "increment_id ?id (t_max_msg_id_number ?st) = Inl OutOfBounds"
      using len(1) by (intro increment_id_overrun) (simp_all add: g_msg_id_length_def)
    then show ?thesis using first next_id False by auto
  qed
qed

definition last_of_block :: msg_id_state where
  "last_of_block = sample_block\<lparr>t_cur_msg_id_number := replicate g_msg_id_length (CHR ''9'')\<rparr>"

lemma gen_msg_id_second_block_faults_witness:
  "\<exists>st'. gen_msg_id 3 (replicate 20 (CHR ''0'')) last_of_block =
      Inr (map seed_digit (replicate 20 (CHR ''0'')), st') \<and>
    gen_msg_id 3 [] st' = Inl OutOfBounds"
proof -
  have "msg_block last_of_block"
    by (simp add: msg_block_def last_of_block_def sample_block_def g_msg_id_length_def digit_ok_def
        list_all_iff)
  moreover have "map seed_digit (replicate 20 (CHR ''0'')) \<noteq> replicate g_msg_id_length (CHR ''9'')"
    by (simp add: g_msg_id_length_def seed_digit_def char_of_def)
  ultimately show ?thesis
    using gen_msg_id_second_block_faults [of last_of_block "replicate 20 (CHR ''0'')" 3 "[]"]
    by (simp add: last_of_block_def sample_block_def g_msg_id_length_def)
qed

end
