(* ===== verification/Net_Addr.thy ===== *)
theory Net_Addr
  imports Msg_Id
begin

text \<open>
  IPv4 addresses \<open>IPv4NetAddr\<close> (\<open>src/net/tcp/ipv4_net_addr.cc\<close>): the three constructors, the
  validity check and the printed form. \<open>inet_addr\<close> and \<open>inet_ntoa\<close> are the C library's and are
  parameters; \<open>atoi\<close>, \<open>htons\<close> and the decimal printing of a port are written out.

  The lemmas show that printing and parsing an address are inverse, and which port a numeral in
  an address string stands for.
\<close>

section \<open>Numerals\<close>

fun dec_digits :: "nat \<Rightarrow> string" where
  "dec_digits n = (if n < 10 then [char_of (n + 48)] else dec_digits (n div 10) @ [char_of (n mod 10 + 48)])"

declare dec_digits.simps [simp del]

text \<open>\<open>std::to_string\<close> of a signed number.\<close>

definition int_to_string :: "int \<Rightarrow> string" where
  "int_to_string n = (if n < 0 then ''-'' @ dec_digits (nat (- n)) else dec_digits (nat n))"

definition is_space :: "char \<Rightarrow> bool" where
  "is_space c \<longleftrightarrow> (of_char c :: nat) \<in> {9, 10, 11, 12, 13, 32}"

text \<open>\<open>atoi\<close> as the C library has it: blanks, a sign, digits; the value saturates at the bounds of
  \<open>long\<close> and is converted to \<open>int\<close>.\<close>

definition atoi :: "string \<Rightarrow> int" where
  "atoi s =
     (let t = dropWhile is_space s;
          neg = (t \<noteq> [] \<and> hd t = CHR ''-'');
          u = (if t \<noteq> [] \<and> (hd t = CHR ''-'' \<or> hd t = CHR ''+'') then tl t else t);
          v = int (dec_val (takeWhile digit_ok u))
      in to_i32 (max (- 9223372036854775808) (min 9223372036854775807 (if neg then - v else v))))"

lemma digit_char: "n < 10 \<Longrightarrow> digit_ok (char_of (n + 48)) \<and> digit_val (char_of (n + 48 :: nat)) = n"
  by (simp add: digit_ok_def digit_val_def)

lemma dec_digits_ok: "list_all digit_ok (dec_digits n)" "dec_val (dec_digits n) = n" "dec_digits n \<noteq> []"
proof (induction n rule: dec_digits.induct)
  case (1 n)
  {
    case 1
    then show ?case using "1.IH"(1) digit_char [of n] digit_char [of "n mod 10"]
      by (subst dec_digits.simps) auto
  next
    case 2
    then show ?case using "1.IH"(2) digit_char [of n] digit_char [of "n mod 10"] dec_val_snoc [of "[]"]
      by (subst dec_digits.simps) auto
  next
    case 3
    then show ?case by (subst dec_digits.simps) auto
  }
qed

lemma digit_ok_not_space: "digit_ok c \<Longrightarrow> \<not> is_space c \<and> c \<noteq> CHR ''-'' \<and> c \<noteq> CHR ''+'' \<and> c \<noteq> CHR '':''"
  by (auto simp: digit_ok_def is_space_def)

lemma atoi_dec_digits: "atoi (dec_digits n) = to_i32 (min 9223372036854775807 (int n))"
proof -
  obtain c cs where s: "dec_digits n = c # cs" using dec_digits_ok(3) by (cases "dec_digits n") auto
  then have c: "digit_ok c" using dec_digits_ok(1) [of n] by simp
  have "takeWhile digit_ok (dec_digits n) = dec_digits n"
    using dec_digits_ok(1) [of n] by (simp add: takeWhile_eq_all_conv list_all_iff)
  then show ?thesis
    using digit_ok_not_space [OF c] dec_digits_ok(2) [of n] by (simp add: atoi_def s Let_def)
qed

section \<open>Addresses\<close>

definition htons :: "16 word \<Rightarrow> 16 word" where
  "htons w = push_bit 8 w OR drop_bit 8 w"

definition ntohs :: "16 word \<Rightarrow> 16 word" where
  "ntohs w = htons w"

lemma ntohs_htons [simp]: "ntohs (htons w) = w" "htons (ntohs w) = w"
  by (rule bit_word_eqI; auto simp: ntohs_def htons_def bit_simps)+

definition AF_INET :: int where "AF_INET = 2"
definition INADDR_NONE :: "32 word" where "INADDR_NONE = 0xFFFFFFFF"

record sockaddr_in =
  sin_family :: int
  sin_addr :: "32 word"
  sin_port :: "16 word"

record ipv4_net_addr =
  m_ip :: string
  m_port :: "16 word"
  m_addr :: sockaddr_in

definition sockaddr_zero :: sockaddr_in where
  "sockaddr_zero = \<lparr>sin_family = 0, sin_addr = 0, sin_port = 0\<rparr>"

definition IPv4NetAddr_ip_port :: "(string \<Rightarrow> 32 word) \<Rightarrow> string \<Rightarrow> 16 word \<Rightarrow> ipv4_net_addr" where
  "IPv4NetAddr_ip_port inet_addr ip port =
     \<lparr>m_ip = ip, m_port = port,
      m_addr = \<lparr>sin_family = AF_INET, sin_addr = inet_addr ip, sin_port = htons port\<rparr>\<rparr>"

definition IPv4NetAddr_string :: "(string \<Rightarrow> 32 word) \<Rightarrow> string \<Rightarrow> ipv4_net_addr" where
  "IPv4NetAddr_string inet_addr addr =
     (if CHR '':'' \<notin> set addr then \<lparr>m_ip = [], m_port = 0, m_addr = sockaddr_zero\<rparr>
      else let ip = takeWhile (\<lambda>c. c \<noteq> CHR '':'') addr;
               temp_port = drop (length ip + 1) addr;
               port = word_of_int (atoi temp_port)
           in \<lparr>m_ip = ip, m_port = port,
               m_addr = \<lparr>sin_family = AF_INET, sin_addr = inet_addr ip, sin_port = htons port\<rparr>\<rparr>)"

definition IPv4NetAddr_sockaddr :: "(32 word \<Rightarrow> string) \<Rightarrow> sockaddr_in \<Rightarrow> ipv4_net_addr" where
  "IPv4NetAddr_sockaddr inet_ntoa addr =
     \<lparr>m_ip = inet_ntoa (sin_addr addr), m_port = ntohs (sin_port addr), m_addr = addr\<rparr>"

definition check_valid :: "(string \<Rightarrow> 32 word) \<Rightarrow> ipv4_net_addr \<Rightarrow> bool" where
  "check_valid inet_addr a \<longleftrightarrow> m_ip a \<noteq> [] \<and> inet_addr (m_ip a) \<noteq> INADDR_NONE"

definition get_family :: "ipv4_net_addr \<Rightarrow> int" where
  "get_family a = AF_INET"

definition addr_to_string :: "ipv4_net_addr \<Rightarrow> string" where
  "addr_to_string a = m_ip a @ '':'' @ dec_digits (unat (m_port a))"

section \<open>Printing and parsing\<close>

lemma IPv4NetAddr_string_numeral:
  assumes "CHR '':'' \<notin> set ip" and "n \<le> 2147483647"
  shows "IPv4NetAddr_string inet_addr (ip @ '':'' @ dec_digits n) =
    IPv4NetAddr_ip_port inet_addr ip (word_of_nat n)"
proof -
  have "takeWhile (\<lambda>c. c \<noteq> CHR '':'') (ip @ '':'' @ dec_digits n) = ip"
    using assms(1) by (induction ip) auto
  moreover have "in_i32 (int n)" using assms(2) by (simp add: in_i32_def)
  ultimately show ?thesis
    using assms(2) by (simp add: IPv4NetAddr_string_def IPv4NetAddr_ip_port_def Let_def atoi_dec_digits min_def)
qed

lemma port_small: "unat (p :: 16 word) \<le> 2147483647"
  using unsigned_less [of p, where 'a = nat] by simp

text \<open>Lemma (Addresses survive printing and parsing).
  For an ip without a colon, the address built from ip and port is parsed back from its printed
  form, unchanged in text, port and socket address; and an address string with any other numeral
  up to the bound of \<open>int\<close> as its port is accepted with the port reduced modulo 65536.\<close>

theorem net_addr_print_parse:
  assumes "CHR '':'' \<notin> set ip" and "n \<le> 2147483647"
  shows "IPv4NetAddr_string inet_addr (addr_to_string (IPv4NetAddr_ip_port inet_addr ip port)) =
      IPv4NetAddr_ip_port inet_addr ip port \<and>
    unat (m_port (IPv4NetAddr_string inet_addr (ip @ '':'' @ dec_digits n))) = n mod 65536"
  using IPv4NetAddr_string_numeral [OF assms(1) port_small, of inet_addr port]
    IPv4NetAddr_string_numeral [OF assms, of inet_addr]
  by (simp add: addr_to_string_def IPv4NetAddr_ip_port_def unat_of_nat)

lemma net_addr_print_parse_witness:
  "IPv4NetAddr_string (\<lambda>s. if s = ''127.0.0.1'' then 0x0100007F else INADDR_NONE)
     (addr_to_string (IPv4NetAddr_ip_port (\<lambda>s. if s = ''127.0.0.1'' then 0x0100007F else INADDR_NONE) ''127.0.0.1'' 8080)) =
   IPv4NetAddr_ip_port (\<lambda>s. if s = ''127.0.0.1'' then 0x0100007F else INADDR_NONE) ''127.0.0.1'' 8080 \<and>
   unat (m_port (IPv4NetAddr_string (\<lambda>s. if s = ''127.0.0.1'' then 0x0100007F else INADDR_NONE)
     (''127.0.0.1'' @ '':'' @ dec_digits 70000))) = 4464"
  using net_addr_print_parse [of "''127.0.0.1''" 70000 "\<lambda>s. if s = ''127.0.0.1'' then 0x0100007F else INADDR_NONE" 8080]
  by simp

text \<open>Lemma (A peer's address can be printed and used again).
  If \<open>inet_addr\<close> reads back what \<open>inet_ntoa\<close> prints, the address the server builds from an accepted
  socket address and the one parsed from its printed form are the same address.\<close>

theorem net_addr_sockaddr_roundtrip:
  assumes "\<And>a. inet_addr (inet_ntoa a) = a" and "CHR '':'' \<notin> set (inet_ntoa (sin_addr sa))"
    and "sin_family sa = AF_INET"
  shows "IPv4NetAddr_string inet_addr (addr_to_string (IPv4NetAddr_sockaddr inet_ntoa sa)) =
    IPv4NetAddr_sockaddr inet_ntoa sa"
proof -
  let ?p = "ntohs (sin_port sa)"
  show ?thesis
    using IPv4NetAddr_string_numeral [OF assms(2) port_small, of inet_addr ?p] assms(1,3)
    by (simp add: addr_to_string_def IPv4NetAddr_sockaddr_def IPv4NetAddr_ip_port_def)
qed

lemma net_addr_sockaddr_roundtrip_witness:
  "IPv4NetAddr_string (\<lambda>s. word_of_nat (dec_val s))
     (addr_to_string (IPv4NetAddr_sockaddr (\<lambda>a. dec_digits (unat a)) \<lparr>sin_family = AF_INET, sin_addr = 77, sin_port = 258\<rparr>)) =
   IPv4NetAddr_sockaddr (\<lambda>a. dec_digits (unat a)) \<lparr>sin_family = AF_INET, sin_addr = 77, sin_port = 258\<rparr>"
proof (rule net_addr_sockaddr_roundtrip)
  show "CHR '':'' \<notin> set (dec_digits (unat (sin_addr \<lparr>sin_family = AF_INET, sin_addr = 77, sin_port = 258\<rparr>)))"
    using dec_digits_ok(1) digit_ok_not_space by (fastforce simp: list_all_iff)
qed (simp_all add: dec_digits_ok(2))

end
