(* ===== verification/Rpc_Dispatcher.thy ===== *)
theory Rpc_Dispatcher
  imports Coder Net_Addr
begin

text \<open>
  The server side of a call: \<open>RpcController\<close> and \<open>RpcClosure\<close> (\<open>src/net/rpc/rpc_controller.cc\<close>,
  \<open>rpc_closure.cc\<close>) and \<open>RpcDispatcher\<close> (\<open>src/net/rpc/rpc_dispatchor.cc\<close>), which finds the service
  and method a request names, runs it and fills in the response.

  A \<open>google::protobuf::Service\<close> is generated code: its descriptor, prototypes and handlers are the
  fields of a record of functions, arguments of the model.

  The lemmas show that every request is answered under its own id, with the result of the
  method it names or the error code of the step that failed, and which registered services a
  request can reach.
\<close>

section \<open>Controller and closure\<close>

record rpc_controller =
  m_error_code :: int
  m_error_info :: string
  rc_msg_id :: string
  m_is_failed :: bool
  m_is_cancled :: bool
  rc_local_addr :: "ipv4_net_addr option"
  rc_peer_addr :: "ipv4_net_addr option"
  m_timeout_ms :: int

definition RpcController_new :: rpc_controller where
  "RpcController_new = \<lparr>m_error_code = 0, m_error_info = [], rc_msg_id = [], m_is_failed = False,
     m_is_cancled = False, rc_local_addr = None, rc_peer_addr = None, m_timeout_ms = 1000\<rparr>"

definition Reset :: "rpc_controller \<Rightarrow> rpc_controller" where
  "Reset c = c\<lparr>m_error_code := 0, m_error_info := [], rc_msg_id := [], m_is_failed := False,
     m_is_cancled := False, rc_local_addr := None, rc_peer_addr := None, m_timeout_ms := 1000\<rparr>"

definition Failed :: "rpc_controller \<Rightarrow> bool" where
  "Failed c = m_is_failed c"

definition ErrorText :: "rpc_controller \<Rightarrow> string" where
  "ErrorText c = m_error_info c"

definition StartCancel :: "rpc_controller \<Rightarrow> rpc_controller" where
  "StartCancel c = c\<lparr>m_is_cancled := True\<rparr>"

definition SetFailed :: "string \<Rightarrow> rpc_controller \<Rightarrow> rpc_controller" where
  "SetFailed reason c = c\<lparr>m_error_info := reason\<rparr>"

definition IsCanceled :: "rpc_controller \<Rightarrow> bool" where
  "IsCanceled c = m_is_cancled c"

definition NotifyOnCancel :: "'cb option \<Rightarrow> rpc_controller \<Rightarrow> rpc_controller" where
  "NotifyOnCancel callback c = c"

definition controller_set_error :: "int \<Rightarrow> string \<Rightarrow> rpc_controller \<Rightarrow> rpc_controller" where
  "controller_set_error error_code error_info c =
     c\<lparr>m_error_code := error_code, m_error_info := error_info, m_is_failed := True\<rparr>"

definition set_msg_id :: "string \<Rightarrow> rpc_controller \<Rightarrow> rpc_controller" where
  "set_msg_id msg_id c = c\<lparr>rc_msg_id := msg_id\<rparr>"

definition set_local_addr :: "ipv4_net_addr option \<Rightarrow> rpc_controller \<Rightarrow> rpc_controller" where
  "set_local_addr a c = c\<lparr>rc_local_addr := a\<rparr>"

definition set_peer_addr :: "ipv4_net_addr option \<Rightarrow> rpc_controller \<Rightarrow> rpc_controller" where
  "set_peer_addr a c = c\<lparr>rc_peer_addr := a\<rparr>"

definition set_timeout :: "int \<Rightarrow> rpc_controller \<Rightarrow> rpc_controller" where
  "set_timeout t c = c\<lparr>m_timeout_ms := t\<rparr>"

lemmas controller_defs = RpcController_new_def Failed_def ErrorText_def StartCancel_def
  SetFailed_def IsCanceled_def NotifyOnCancel_def controller_set_error_def set_msg_id_def set_local_addr_def
  set_peer_addr_def set_timeout_def

text \<open>Lemma (A controller after Reset, and what counts as failed).
  \<open>Reset\<close> returns any controller to the state of a new one. Afterwards \<open>set_error\<close> makes \<open>Failed\<close>
  true and is reported by \<open>ErrorText\<close>, while \<open>SetFailed\<close>, the call protobuf handlers use to report
  a failure, sets the text and leaves \<open>Failed\<close> false.\<close>

theorem controller_reset_and_failure:
  "Reset c = RpcController_new \<and>
   Failed (controller_set_error n e (Reset c)) \<and> ErrorText (controller_set_error n e (Reset c)) = e \<and>
   \<not> Failed (SetFailed e (Reset c)) \<and> ErrorText (SetFailed e (Reset c)) = e"
  by (simp add: Reset_def controller_defs)

text \<open>\<open>RpcClosure::Run\<close>: the calls it makes.\<close>

definition RpcClosure_Run :: "'cb option \<Rightarrow> 'cb list" where
  "RpcClosure_Run function = (case function of None \<Rightarrow> [] | Some f \<Rightarrow> [f])"

section \<open>Services\<close>

text \<open>\<open>parse_request\<close> is \<open>ParseFromString\<close> into the request prototype of the method, \<open>None\<close> its
  failure; \<open>serialize\<close> is \<open>SerializeToString\<close>, its result and the string it leaves.\<close>

record ('m, 'req, 'rsp) service =
  full_name :: string
  find_method :: "string \<Rightarrow> 'm option"
  parse_request :: "'m \<Rightarrow> string \<Rightarrow> 'req option"
  call_method :: "'m \<Rightarrow> rpc_controller \<Rightarrow> 'req \<Rightarrow> 'rsp"
  serialize :: "'rsp \<Rightarrow> bool \<times> string"

type_synonym ('m, 'req, 'rsp) registry = "string \<rightharpoonup> ('m, 'req, 'rsp) service"

text \<open>The global dispatcher is made when it is first asked for.\<close>

definition GET_RPC_DISPATCHER :: "('m, 'req, 'rsp) registry option \<Rightarrow> ('m, 'req, 'rsp) registry" where
  "GET_RPC_DISPATCHER g_rpc_dispatchor = (case g_rpc_dispatchor of None \<Rightarrow> Map.empty | Some r \<Rightarrow> r)"

definition register_service ::
  "('m, 'req, 'rsp) service \<Rightarrow> ('m, 'req, 'rsp) registry \<Rightarrow> ('m, 'req, 'rsp) registry" where
  "register_service service m_service_map = m_service_map(full_name service \<mapsto> service)"

section \<open>The dispatcher\<close>

text \<open>Service name and method name are what precedes and what follows the first dot.\<close>

definition parse_service_full_name :: "string \<Rightarrow> (string \<times> string) option" where
  "parse_service_full_name name =
     (if name = [] then None
      else if CHR ''.'' \<notin> set name then None
      else let pos = length (takeWhile (\<lambda>c. c \<noteq> CHR ''.'') name)
           in Some (take pos name, drop (pos + 1) name))"

definition set_protubuf_error :: "int \<Rightarrow> string \<Rightarrow> protobuf_protocol \<Rightarrow> protobuf_protocol" where
  "set_protubuf_error err_code err_info msg =
     msg\<lparr>m_err_code := err_code, m_err_info_len := int_length err_info, m_err_info := err_info\<rparr>"

text \<open>
  The response as the call leaves it. Its last debug line prints both addresses of the
  connection, so with the debug level on a missing address is dereferenced.
\<close>

definition dispatcher ::
  "bool \<Rightarrow> ('m, 'req, 'rsp) registry \<Rightarrow> protocol \<Rightarrow> protocol \<Rightarrow>
   ipv4_net_addr option \<Rightarrow> ipv4_net_addr option \<Rightarrow> protobuf_protocol res" where
  "dispatcher debug m_service_map request response local_addr peer_addr =
     bindR (as_protobuf request) (\<lambda>req.
     bindR (as_protobuf response) (\<lambda>rsp0.
     let rsp = rsp0\<lparr>m_msg_id := m_msg_id req, m_method_name := m_method_name req\<rparr>
     in case parse_service_full_name (m_method_name req) of
          None \<Rightarrow> Inr (set_protubuf_error ERROR_PARSE_SERVICE_NAME ''parse service name error'' rsp)
        | Some (service_name, method_name) \<Rightarrow>
     (case m_service_map service_name of
          None \<Rightarrow> Inr (set_protubuf_error ERROR_SERVICE_NOT_FOUND ''service not found'' rsp)
        | Some service \<Rightarrow>
     (case find_method service method_name of
          None \<Rightarrow> Inr (set_protubuf_error ERROR_METHOD_NOT_FOUND ''method not found'' rsp)
        | Some method \<Rightarrow>
     (case parse_request service method (m_pb_data req) of
          None \<Rightarrow> Inr (set_protubuf_error ERROR_FAILED_DESERIALIZE ''serialize error'' rsp)
        | Some req_message \<Rightarrow>
     let controller = set_msg_id (m_msg_id req) (set_peer_addr peer_addr (set_local_addr local_addr RpcController_new))
     in bindR (checkR (debug \<longrightarrow> local_addr \<noteq> None \<and> peer_addr \<noteq> None) NullDeref) (\<lambda>_.
     let (ok, data) = serialize service (call_method service method controller req_message);
         rsp1 = rsp\<lparr>m_pb_data := data\<rparr>
     in if \<not> ok then Inr (set_protubuf_error ERROR_SERVICE_NOT_FOUND ''serilize error'' rsp1)
        else Inr (rsp1\<lparr>m_err_code := 0\<rparr>)))))))"

lemma parse_service_full_name_split:
  assumes "CHR ''.'' \<notin> set s"
  shows "parse_service_full_name (s @ CHR ''.'' # m) = Some (s, m)"
proof -
  have "takeWhile (\<lambda>c. c \<noteq> CHR ''.'') (s @ CHR ''.'' # m) = s"
    using assms by (induction s) auto
  then show ?thesis by (simp add: parse_service_full_name_def Let_def)
qed

lemma parse_service_full_name_no_dot:
  "parse_service_full_name n = Some (s, m) \<Longrightarrow> CHR ''.'' \<notin> set s"
  by (auto simp: parse_service_full_name_def Let_def takeWhile_eq_take [symmetric]
      split: if_splits dest: set_takeWhileD)

lemmas dispatcher_simps = dispatcher_def Let_def set_protubuf_error_def

text \<open>The controller the handler is called with.\<close>

definition call_controller :: "string \<Rightarrow> ipv4_net_addr \<Rightarrow> ipv4_net_addr \<Rightarrow> rpc_controller" where
  "call_controller msg_id l p =
     RpcController_new\<lparr>rc_msg_id := msg_id, rc_local_addr := Some l, rc_peer_addr := Some p\<rparr>"

lemma dispatcher_registered:
  assumes "CHR ''.'' \<notin> set (full_name svc)" and "find_method svc meth = Some md"
    and "parse_request svc md (m_pb_data req) = Some arg"
    and "serialize svc (call_method svc md (call_controller (m_msg_id req) l p) arg) = (True, data)"
    and "m_method_name req = full_name svc @ CHR ''.'' # meth"
  shows "dispatcher debug (register_service svc m) (ProtobufP req) (ProtobufP ProtobufProtocol_new) (Some l) (Some p) =
    Inr (ProtobufProtocol_new\<lparr>m_msg_id := m_msg_id req, m_method_name := m_method_name req, m_pb_data := data\<rparr>)"
  using assms parse_service_full_name_split [OF assms(1), of meth]
  by (simp add: dispatcher_simps register_service_def call_controller_def controller_defs ProtobufProtocol_new_def)

text \<open>Lemma (A registered method is called and its result returned).
  After \<open>register_service\<close>, a request for \<open>service.method\<close>, where the service name has no dot, the
  method exists, its argument parses and its result serializes, is answered with the serialized
  result of the handler, run on the parsed argument with a controller that carries the request's
  id and the connection's addresses, with error code 0.\<close>

theorem dispatcher_calls_registered_method:
  assumes "CHR ''.'' \<notin> set (full_name svc)" and "find_method svc meth = Some md"
    and "parse_request svc md (m_pb_data req) = Some arg"
    and "serialize svc (call_method svc md (call_controller (m_msg_id req) l p) arg) = (True, data)"
    and "m_method_name req = full_name svc @ CHR ''.'' # meth"
  shows "dispatcher debug (register_service svc m) (ProtobufP req) (ProtobufP ProtobufProtocol_new) (Some l) (Some p) =
    Inr (ProtobufProtocol_new\<lparr>m_msg_id := m_msg_id req, m_method_name := m_method_name req, m_pb_data := data\<rparr>)"
  by (rule dispatcher_registered [OF assms])

definition echo_service :: "(unit, string, string) service" where
  "echo_service = \<lparr>full_name = ''Order'', find_method = (\<lambda>n. if n = ''make'' then Some () else None),
     parse_request = (\<lambda>_ s. if s = [] then None else Some s), call_method = (\<lambda>_ c s. s @ rc_msg_id c),
     serialize = (\<lambda>s. (True, s))\<rparr>"

definition sample_request :: protobuf_protocol where
  "sample_request = ProtobufProtocol_new\<lparr>m_msg_id := ''42'', m_method_name := ''Order.make'', m_pb_data := ''body''\<rparr>"

definition sample_addr :: ipv4_net_addr where
  "sample_addr = IPv4NetAddr_ip_port (\<lambda>_. 0) ''127.0.0.1'' 8080"

lemma dispatcher_calls_registered_method_witness:
  "dispatcher True (register_service echo_service Map.empty) (ProtobufP sample_request)
     (ProtobufP ProtobufProtocol_new) (Some sample_addr) (Some sample_addr) =
   Inr (ProtobufProtocol_new\<lparr>m_msg_id := ''42'', m_method_name := ''Order.make'', m_pb_data := ''body42''\<rparr>)"
  using dispatcher_calls_registered_method [of echo_service "''make''" "()" sample_request "''body''"
      sample_addr sample_addr "''body42''" True Map.empty]
  by (simp add: echo_service_def sample_request_def call_controller_def controller_defs)

lemma dispatcher_answers:
  "\<exists>rsp. dispatcher debug m (ProtobufP req) (ProtobufP ProtobufProtocol_new) (Some l) (Some p) = Inr rsp \<and>
    m_msg_id rsp = m_msg_id req \<and> m_method_name rsp = m_method_name req \<and>
    m_err_code rsp = (case parse_service_full_name (m_method_name req) of
       None \<Rightarrow> ERROR_PARSE_SERVICE_NAME
     | Some (s, n) \<Rightarrow>
    (case m s of None \<Rightarrow> ERROR_SERVICE_NOT_FOUND
     | Some svc \<Rightarrow>
    (case find_method svc n of None \<Rightarrow> ERROR_METHOD_NOT_FOUND
     | Some md \<Rightarrow>
    (case parse_request svc md (m_pb_data req) of None \<Rightarrow> ERROR_FAILED_DESERIALIZE
     | Some arg \<Rightarrow>
       if fst (serialize svc (call_method svc md (call_controller (m_msg_id req) l p) arg)) then 0
       else ERROR_SERVICE_NOT_FOUND))))"
proof (cases "parse_service_full_name (m_method_name req)")
  case None
  then show ?thesis by (simp add: dispatcher_simps)
next
  case name: (Some sn)
  then obtain s n where sn: "sn = (s, n)" by fastforce
  show ?thesis
  proof (cases "m s")
    case None
    with name sn show ?thesis by (simp add: dispatcher_simps)
  next
    case svc: (Some svc)
    show ?thesis
    proof (cases "find_method svc n")
      case None
      with name sn svc show ?thesis by (simp add: dispatcher_simps)
    next
      case md: (Some md)
      show ?thesis
      proof (cases "parse_request svc md (m_pb_data req)")
        case None
        with name sn svc md show ?thesis by (simp add: dispatcher_simps)
      next
        case arg: (Some arg)
        obtain ok data where "serialize svc (call_method svc md (call_controller (m_msg_id req) l p) arg) = (ok, data)"
          by fastforce
        with name sn svc md arg show ?thesis
          by (simp add: dispatcher_simps call_controller_def controller_defs)
      qed
    qed
  qed
qed


text \<open>Lemma (A service with a dot in its name is out of reach).
  Registering a service whose full name contains a dot, as every service of a protobuf package
  does, changes the answer to no request.\<close>

theorem dotted_service_unreachable:
  assumes "CHR ''.'' \<in> set (full_name svc)"
  shows "dispatcher debug (register_service svc m) request response l p = dispatcher debug m request response l p"
proof -
  have "register_service svc m s = m s" if "parse_service_full_name n = Some (s, k)" for n s k
    using parse_service_full_name_no_dot [OF that] assms by (auto simp: register_service_def)
  then show ?thesis
    by (cases request; cases response) (simp_all add: dispatcher_def Let_def split: option.split)
qed

lemma dotted_service_unreachable_witness:
  "dispatcher True (register_service (echo_service\<lparr>full_name := ''shop.Order''\<rparr>) Map.empty)
     (ProtobufP (sample_request\<lparr>m_method_name := ''shop.Order.make''\<rparr>)) (ProtobufP ProtobufProtocol_new) None None =
   dispatcher True (Map.empty :: (unit, string, string) registry)
     (ProtobufP (sample_request\<lparr>m_method_name := ''shop.Order.make''\<rparr>)) (ProtobufP ProtobufProtocol_new) None None"
  by (rule dotted_service_unreachable) simp

end
