(* ===== verification/Fd_Event.thy ===== *)
theory Fd_Event
  imports Rpc_Prelude
begin

unbundle bit_operations_syntax

text \<open>
  File-descriptor events: \<open>FdEvent\<close> (\<open>src/net/fd_event/fd_event.cc\<close>) with its epoll mask and
  callbacks, \<open>WakeUpFdEvent\<close> (\<open>src/net/wakeup_fd_event.cc\<close>) and the growing table of events
  \<open>FdEventGroup\<close> (\<open>src/net/fd_event/fd_event_group.cc\<close>). A callback is an element of an arbitrary
  type \<open>'cb\<close>, \<open>None\<close> a null \<open>std::function\<close>; an object's address is a natural number.

  The lemmas show that the mask is exactly the set of directions listened to and not cancelled
  since, whatever else was called, and for which descriptors the table answers.
\<close>

section \<open>One event\<close>

datatype trigger_event = IN_EVENT | OUT_EVENT | ERROR_EVENT

definition EPOLLIN :: "32 word" where "EPOLLIN = 1"
definition EPOLLOUT :: "32 word" where "EPOLLOUT = 4"
definition EPOLLERR :: "32 word" where "EPOLLERR = 8"

record 'cb fd_event =
  m_fd :: int
  m_events :: "32 word"
  m_data_ptr :: "nat option"
  m_read_callback :: "'cb option"
  m_write_callback :: "'cb option"
  m_error_callback :: "'cb option"

definition FdEvent_new :: "int \<Rightarrow> 'cb fd_event" where
  "FdEvent_new fd = \<lparr>m_fd = fd, m_events = 0, m_data_ptr = None, m_read_callback = None,
     m_write_callback = None, m_error_callback = None\<rparr>"

text \<open>The argument of \<open>fcntl(F_SETFL)\<close>, if the call is made, from what \<open>fcntl(F_GETFL)\<close> returned;
  \<open>O_NONBLOCK\<close> is \<open>04000\<close>.\<close>

definition set_no_block :: "32 word \<Rightarrow> 32 word option" where
  "set_no_block is_block = (if is_block AND 2048 \<noteq> 0 then None else Some (is_block OR 2048))"

fun handler :: "trigger_event \<Rightarrow> 'cb fd_event \<Rightarrow> 'cb option" where
  "handler IN_EVENT ev = m_read_callback ev"
| "handler OUT_EVENT ev = m_write_callback ev"
| "handler ERROR_EVENT ev = m_error_callback ev"

definition listen ::
  "nat \<Rightarrow> trigger_event \<Rightarrow> 'cb option \<Rightarrow> 'cb option \<Rightarrow> 'cb fd_event \<Rightarrow> 'cb fd_event" where
  "listen this event_type callback error_callback ev =
     (let ev1 = (if event_type = IN_EVENT
        then ev\<lparr>m_events := m_events ev OR EPOLLIN, m_read_callback := callback\<rparr>
        else ev\<lparr>m_events := m_events ev OR EPOLLOUT, m_write_callback := callback\<rparr>)
      in ev1\<lparr>m_error_callback := (if m_error_callback ev1 = None then error_callback else None),
           m_data_ptr := Some this\<rparr>)"

definition cancel :: "trigger_event \<Rightarrow> 'cb fd_event \<Rightarrow> 'cb fd_event" where
  "cancel type_event ev =
     (if type_event = IN_EVENT then ev\<lparr>m_events := m_events ev AND NOT EPOLLIN\<rparr>
      else ev\<lparr>m_events := m_events ev AND NOT EPOLLOUT\<rparr>)"

definition set_error_callback :: "'cb option \<Rightarrow> 'cb fd_event \<Rightarrow> 'cb fd_event" where
  "set_error_callback call_back ev = ev\<lparr>m_error_callback := call_back\<rparr>"

text \<open>\<open>WakeUpFdEvent::wakeup\<close>: the descriptor written to and the eight bytes.\<close>

definition wakeup :: "'cb fd_event \<Rightarrow> int \<times> string" where
  "wakeup ev = (m_fd ev, ''a'' @ replicate 7 nul)"

section \<open>The mask\<close>

datatype 'cb fd_op =
    Listen trigger_event "'cb option" "'cb option"
  | Cancel trigger_event
  | SetError "'cb option"

fun fd_op_run :: "nat \<Rightarrow> 'cb fd_op list \<Rightarrow> 'cb fd_event \<Rightarrow> 'cb fd_event" where
  "fd_op_run this [] ev = ev"
| "fd_op_run this (Listen t c x # ops) ev = fd_op_run this ops (listen this t c x ev)"
| "fd_op_run this (Cancel t # ops) ev = fd_op_run this ops (cancel t ev)"
| "fd_op_run this (SetError x # ops) ev = fd_op_run this ops (set_error_callback x ev)"

text \<open>What a mask and a callback should be after the operations: decided by the last operation
  on that direction. Everything but \<open>IN_EVENT\<close> counts as the write direction.\<close>

fun interest :: "bool \<Rightarrow> 'cb fd_op list \<Rightarrow> bool \<times> 'cb option \<Rightarrow> bool \<times> 'cb option" where
  "interest rd [] s = s"
| "interest rd (Listen t c x # ops) s = interest rd ops (if (t = IN_EVENT) = rd then (True, c) else s)"
| "interest rd (Cancel t # ops) s = interest rd ops (if (t = IN_EVENT) = rd then (False, snd s) else s)"
| "interest rd (SetError x # ops) s = interest rd ops s"

lemma epoll_bits:
  "w AND EPOLLIN \<noteq> 0 \<longleftrightarrow> bit w 0" "w AND EPOLLOUT \<noteq> 0 \<longleftrightarrow> bit w 2" "w AND EPOLLERR \<noteq> 0 \<longleftrightarrow> bit w 3"
  using and_exp_eq_0_iff_not_bit [of w 0] and_exp_eq_0_iff_not_bit [of w 2]
    and_exp_eq_0_iff_not_bit [of w 3]
  by (simp_all add: EPOLLIN_def EPOLLOUT_def EPOLLERR_def)

lemma bit_EPOLL: "bit EPOLLIN n \<longleftrightarrow> n = 0" "bit EPOLLOUT n \<longleftrightarrow> n = 2"
  using bit_exp_iff [where 'a = "32 word", of 0 n] bit_exp_iff [where 'a = "32 word", of 2 n]
  by (auto simp: EPOLLIN_def EPOLLOUT_def possible_bit_def)

lemma listen_mask:
  "bit (m_events (listen this t c x ev)) 0 \<longleftrightarrow> t = IN_EVENT \<or> bit (m_events ev) 0"
  "bit (m_events (listen this t c x ev)) 2 \<longleftrightarrow> t \<noteq> IN_EVENT \<or> bit (m_events ev) 2"
  by (simp_all add: listen_def Let_def bit_or_iff bit_EPOLL)

lemma cancel_mask:
  "bit (m_events (cancel t ev)) 0 \<longleftrightarrow> t \<noteq> IN_EVENT \<and> bit (m_events ev) 0"
  "bit (m_events (cancel t ev)) 2 \<longleftrightarrow> t = IN_EVENT \<and> bit (m_events ev) 2"
  by (simp_all add: cancel_def bit_and_iff bit_not_iff bit_EPOLL possible_bit_def)

lemma listen_callbacks:
  "m_read_callback (listen this t c x ev) = (if t = IN_EVENT then c else m_read_callback ev)"
  "m_write_callback (listen this t c x ev) = (if t = IN_EVENT then m_write_callback ev else c)"
  "m_fd (listen this t c x ev) = m_fd ev"
  by (simp_all add: listen_def Let_def)

lemma cancel_callbacks:
  "m_read_callback (cancel t ev) = m_read_callback ev"
  "m_write_callback (cancel t ev) = m_write_callback ev"
  "m_fd (cancel t ev) = m_fd ev"
  by (simp_all add: cancel_def)

lemmas fd_event_simps = listen_mask cancel_mask listen_callbacks cancel_callbacks

text \<open>Lemma (The epoll mask is what was listened to and not cancelled).
  After any sequence of \<open>listen\<close>, \<open>cancel\<close> and \<open>set_error_callback\<close> calls, each direction's epoll
  bit is set exactly if the last call on that direction was a \<open>listen\<close>, and its handler is the
  callback of the last \<open>listen\<close> on that direction; a call on one direction never disturbs the
  other, and the descriptor stays.\<close>

theorem fd_event_interest:
  "(m_events (fd_op_run this ops ev) AND EPOLLIN \<noteq> 0, handler IN_EVENT (fd_op_run this ops ev)) =
     interest True ops (m_events ev AND EPOLLIN \<noteq> 0, handler IN_EVENT ev) \<and>
   (m_events (fd_op_run this ops ev) AND EPOLLOUT \<noteq> 0, handler OUT_EVENT (fd_op_run this ops ev)) =
     interest False ops (m_events ev AND EPOLLOUT \<noteq> 0, handler OUT_EVENT ev) \<and>
   m_fd (fd_op_run this ops ev) = m_fd ev"
  unfolding epoll_bits
proof (induction this ops ev rule: fd_op_run.induct)
  case (2 this t c x ops ev)
  then show ?case by (cases "t = IN_EVENT") (simp_all add: fd_event_simps)
next
  case (3 this t ops ev)
  then show ?case by (cases "t = IN_EVENT") (simp_all add: fd_event_simps)
qed (simp_all add: set_error_callback_def)

text \<open>Lemma (A second listen drops the error callback).
  \<open>listen\<close> stores its error callback only when none is set, and otherwise clears the one that is
  set: after two \<open>listen\<close> calls on a fresh event the error handler is the second call's callback
  if the first had none, and null if it had one.\<close>

theorem listen_error_callback_toggles:
  "handler ERROR_EVENT (listen this t2 c2 x2 (listen this t1 c1 x1 (FdEvent_new fd))) =
     (if x1 = None then x2 else None)"
  by (cases x1) (simp_all add: listen_def Let_def FdEvent_new_def)

section \<open>The table of events\<close>

record 'cb fd_event_group =
  m_fds_size :: int
  m_fd_event_groups :: "'cb fd_event list"

definition emplace_events :: "int \<Rightarrow> int \<Rightarrow> 'cb fd_event list \<Rightarrow> 'cb fd_event list" where
  "emplace_events lo hi evs = evs @ map FdEvent_new [lo..hi - 1]"

definition FdEventGroup_new :: "int \<Rightarrow> 'cb fd_event_group" where
  "FdEventGroup_new n = \<lparr>m_fds_size = n, m_fd_event_groups = emplace_events 0 n []\<rparr>"

text \<open>The result is the position of the shared event in the table. The table grows at most once
  per call.\<close>

definition get_fd_event :: "int \<Rightarrow> 'cb fd_event_group \<Rightarrow> (nat \<times> 'cb fd_event_group) res" where
  "get_fd_event fd g =
     (if to_size fd < int (length (m_fd_event_groups g)) then Inr (nat (to_size fd), g)
      else bindR (chk_i32 (3 * m_fds_size g div 2)) (\<lambda>new_size.
        let g' = g\<lparr>m_fd_event_groups := emplace_events (m_fds_size g) new_size (m_fd_event_groups g),
                   m_fds_size := new_size\<rparr>
        in bindR (checkR (to_size fd < int (length (m_fd_event_groups g'))) OutOfBounds) (\<lambda>_.
           Inr (nat (to_size fd), g'))))"

text \<open>\<open>Get_Fd_Event_Group\<close>: the process-wide table, created at its first use.\<close>

definition Get_Fd_Event_Group :: "'cb fd_event_group option \<Rightarrow> 'cb fd_event_group" where
  "Get_Fd_Event_Group global = (case global of None \<Rightarrow> FdEventGroup_new 128 | Some g \<Rightarrow> g)"

definition group_inv :: "'cb fd_event_group \<Rightarrow> bool" where
  "group_inv g \<longleftrightarrow> int (length (m_fd_event_groups g)) = m_fds_size g \<and>
     map m_fd (m_fd_event_groups g) = [0..m_fds_size g - 1] \<and> m_fds_size g \<le> 2147483647"

lemma map_fd_FdEvent_new: "map m_fd (map FdEvent_new xs) = xs"
  by (induction xs) (simp_all add: FdEvent_new_def)

lemma emplace_events_fds:
  assumes "map m_fd evs = [0..n - 1]" and "0 \<le> n" and "n \<le> k"
  shows "map m_fd (emplace_events n k evs) = [0..k - 1]"
proof -
  have "[0..k - 1] = [0..n - 1] @ [n..k - 1]"
    using assms(2,3) upto_split2 [of 0 "n - 1" "k - 1"] by (cases "n = 0") simp_all
  then show ?thesis
    by (simp only: emplace_events_def map_append map_fd_FdEvent_new assms(1))
qed

lemma FdEventGroup_new_inv: "0 \<le> n \<Longrightarrow> n \<le> 2147483647 \<Longrightarrow> group_inv (FdEventGroup_new n)"
  using emplace_events_fds [of "[]" 0 n]
  by (simp add: group_inv_def FdEventGroup_new_def) (simp add: emplace_events_def)

lemma group_inv_nth:
  assumes "group_inv g" and "int i < m_fds_size g"
  shows "m_fd (m_fd_event_groups g ! i) = int i"
proof -
  have "map m_fd (m_fd_event_groups g) ! i = [0..m_fds_size g - 1] ! i"
    using assms(1) by (simp add: group_inv_def)
  moreover have "length (m_fd_event_groups g) = nat (m_fds_size g)" "i < nat (m_fds_size g)"
    using assms by (auto simp: group_inv_def)
  ultimately show ?thesis by (simp add: nth_upto)
qed

text \<open>Table growth: old events keep their place, every place holds its own descriptor.\<close>

lemma get_fd_event_grows:
  assumes "group_inv g" and "m_fds_size g \<le> fd" and "fd < 3 * m_fds_size g div 2"
    and "3 * m_fds_size g div 2 \<le> 2147483647"
  obtains g' where "get_fd_event fd g = Inr (nat fd, g')" "group_inv g'"
    "m_fds_size g' = 3 * m_fds_size g div 2"
    "take (length (m_fd_event_groups g)) (m_fd_event_groups g') = m_fd_event_groups g"
proof -
  let ?k = "3 * m_fds_size g div 2"
  let ?g = "g\<lparr>m_fd_event_groups := emplace_events (m_fds_size g) ?k (m_fd_event_groups g), m_fds_size := ?k\<rparr>"
  have n: "0 \<le> m_fds_size g" using assms(1) by (auto simp: group_inv_def)
  have len: "int (length (emplace_events (m_fds_size g) ?k (m_fd_event_groups g))) = ?k"
    using assms(1) n by (auto simp: emplace_events_def group_inv_def)
  have fd: "to_size fd = fd" "in_i32 ?k"
    using assms n by (auto simp: in_i32_def intro!: to_size_id)
  have "group_inv ?g"
    using assms n len emplace_events_fds [of "m_fd_event_groups g" "m_fds_size g" ?k]
    by (auto simp: group_inv_def)
  moreover have "get_fd_event fd g = Inr (nat fd, ?g)"
    using assms fd len by (simp add: get_fd_event_def group_inv_def Let_def)
  moreover have "take (length (m_fd_event_groups g)) (m_fd_event_groups ?g) = m_fd_event_groups g"
    by (simp add: emplace_events_def)
  ultimately show thesis by (intro that [of ?g]) simp_all
qed

lemma get_fd_event_hit:
  assumes "group_inv g" and "0 \<le> fd" and "fd < m_fds_size g"
  shows "get_fd_event fd g = Inr (nat fd, g)"
  using assms by (auto simp: get_fd_event_def group_inv_def to_size_id)

text \<open>Lemma (For which descriptors the table answers).
  A descriptor below the table's size is answered from the table; one up to 1.5 times the size
  makes the table grow, the old events keeping their places; in both cases the event returned is
  the one of that descriptor. Any other descriptor, a negative one included, indexes the vector
  out of bounds.\<close>

theorem get_fd_event_answers:
  assumes "group_inv g" and "in_i32 fd" and "3 * m_fds_size g div 2 \<le> 2147483647"
  shows "if 0 \<le> fd \<and> fd < max (m_fds_size g) (3 * m_fds_size g div 2)
    then \<exists>g'. get_fd_event fd g = Inr (nat fd, g') \<and> group_inv g' \<and>
      m_fd (m_fd_event_groups g' ! nat fd) = fd \<and>
      take (length (m_fd_event_groups g)) (m_fd_event_groups g') = m_fd_event_groups g
    else get_fd_event fd g = Inl OutOfBounds"
proof -
  have n: "0 \<le> m_fds_size g" using assms(1) by (auto simp: group_inv_def)
  consider (hit) "0 \<le> fd" "fd < m_fds_size g"
    | (grow) "m_fds_size g \<le> fd" "fd < 3 * m_fds_size g div 2"
    | (out) "fd < 0 \<or> max (m_fds_size g) (3 * m_fds_size g div 2) \<le> fd"
    by linarith
  then show ?thesis
  proof cases
    case hit
    then show ?thesis
      using assms(1) get_fd_event_hit [OF assms(1)] group_inv_nth [OF assms(1), of "nat fd"] by simp
  next
    case grow
    then obtain g' where "get_fd_event fd g = Inr (nat fd, g')" "group_inv g'"
      "m_fds_size g' = 3 * m_fds_size g div 2"
      "take (length (m_fd_event_groups g)) (m_fd_event_groups g') = m_fd_event_groups g"
      using get_fd_event_grows [OF assms(1) _ _ assms(3)] by blast
    then show ?thesis using grow n group_inv_nth [of g' "nat fd"] by simp
  next
    case out
    have "max (m_fds_size g) (3 * m_fds_size g div 2) \<le> to_size fd"
    proof (cases "fd < 0")
      case True
      then show ?thesis using to_size_neg_large [of fd] assms by (auto simp: group_inv_def)
    next
      case False
      then show ?thesis using out assms(2) to_size_id [of fd] by (simp add: in_i32_def)
    qed
    moreover have "int (length (emplace_events (m_fds_size g) (3 * m_fds_size g div 2) (m_fd_event_groups g)))
        = max (m_fds_size g) (3 * m_fds_size g div 2)"
      using assms(1) n by (auto simp: emplace_events_def group_inv_def)
    ultimately have "get_fd_event fd g = Inl OutOfBounds"
      using assms n by (simp add: get_fd_event_def group_inv_def in_i32_def Let_def)
    then show ?thesis using out by auto
  qed
qed

lemma get_fd_event_answers_witness:
  "(\<exists>g'. get_fd_event 130 (FdEventGroup_new 128) = Inr (130, g') \<and> group_inv g' \<and>
      m_fd (m_fd_event_groups g' ! 130) = 130 \<and>
      take 128 (m_fd_event_groups g') = m_fd_event_groups (FdEventGroup_new 128 :: nat fd_event_group))"
  using get_fd_event_answers [of "FdEventGroup_new 128 :: nat fd_event_group" 130]
    FdEventGroup_new_inv [of 128]
  by (simp add: FdEventGroup_new_def in_i32_def emplace_events_def)

text \<open>The kernel hands out the lowest free descriptor, so a program reaches new ones in order.\<close>

definition get_fd_events :: "int list \<Rightarrow> 'cb fd_event_group \<Rightarrow> 'cb fd_event_group res" where
  "get_fd_events fds g = foldR (\<lambda>fd g. bindR (get_fd_event fd g) (\<lambda>(_, g'). Inr g')) fds g"

lemma get_fd_events_upto:
  "group_inv g \<Longrightarrow> 2 \<le> m_fds_size g \<Longrightarrow> k \<le> 1000000 \<Longrightarrow> m_fds_size g \<le> 3 * 1000000 div 2 \<Longrightarrow>
   \<exists>g'. get_fd_events (map int [0..<k]) g = Inr g' \<and> group_inv g' \<and> int k \<le> m_fds_size g' \<and>
     2 \<le> m_fds_size g' \<and> m_fds_size g' \<le> 3 * 1000000 div 2"
proof (induction k)
  case 0
  then show ?case by (auto simp: get_fd_events_def)
next
  case (Suc k)
  then obtain g1 where g1: "get_fd_events (map int [0..<k]) g = Inr g1" "group_inv g1"
      "int k \<le> m_fds_size g1" "2 \<le> m_fds_size g1" "m_fds_size g1 \<le> 3 * 1000000 div 2"
    by auto
  have step: "get_fd_events (map int [0..<Suc k]) g =
      bindR (get_fd_event (int k) g1) (\<lambda>(_, g'). Inr g')"
    using g1(1) by (simp add: get_fd_events_def foldR_append split: prod.splits)
      (cases "get_fd_event (int k) g1"; simp split: prod.splits)
  show ?case
  proof (cases "int k < m_fds_size g1")
    case True
    then show ?thesis using g1 step get_fd_event_hit [OF g1(2), of "int k"] by auto
  next
    case False
    obtain g2 where "get_fd_event (int k) g1 = Inr (nat (int k), g2)" "group_inv g2"
        "m_fds_size g2 = 3 * m_fds_size g1 div 2"
    proof (rule get_fd_event_grows [OF g1(2), of "int k"])
      show "m_fds_size g1 \<le> int k" using False by simp
      show "int k < 3 * m_fds_size g1 div 2" using False g1(3,4) by linarith
      show "3 * m_fds_size g1 div 2 \<le> 2147483647" using g1(5) by linarith
    qed
    moreover have "3 * m_fds_size g1 div 2 \<le> 3 * 1000000 div 2" "int (Suc k) \<le> 3 * m_fds_size g1 div 2"
      using False g1(3,4) Suc.prems by linarith+
    ultimately show ?thesis using step g1(4) by auto
  qed
qed

text \<open>Lemma (Descriptors requested in order are always answered).
  Starting from the process-wide table, requesting the descriptors 0, 1, 2, ... in order up to a
  million never goes out of bounds and leaves every descriptor with its own event.\<close>

theorem get_fd_event_in_order:
  assumes "k \<le> 1000000"
  shows "\<exists>g'. get_fd_events (map int [0..<k]) (Get_Fd_Event_Group None :: 'cb fd_event_group) = Inr g' \<and>
    group_inv g' \<and> (\<forall>i<k. m_fd (m_fd_event_groups g' ! i) = int i)"
proof -
  let ?g = "Get_Fd_Event_Group None :: 'cb fd_event_group"
  have "group_inv ?g" "m_fds_size ?g = 128"
    using FdEventGroup_new_inv [of 128] by (auto simp: Get_Fd_Event_Group_def FdEventGroup_new_def)
  then obtain g' where "get_fd_events (map int [0..<k]) ?g = Inr g'" "group_inv g'" "int k \<le> m_fds_size g'"
    using get_fd_events_upto [of ?g k] assms by auto
  then show ?thesis using group_inv_nth [of g'] by fastforce
qed

lemma get_fd_event_in_order_witness:
  "\<exists>g'. get_fd_events (map int [0..<200]) (Get_Fd_Event_Group None :: nat fd_event_group) = Inr g' \<and>
    group_inv g' \<and> (\<forall>i<200. m_fd (m_fd_event_groups g' ! i) = int i)"
  by (rule get_fd_event_in_order) simp

end
