(* ===== verification/Timer_Queue.thy ===== *)
theory Timer_Queue
  imports Fd_Event Rpc_Utils "HOL-Library.Multiset"
begin

text \<open>
  Timers (\<open>src/net/time/time_event.cc\<close>, \<open>src/net/time/timer.cc\<close>): a \<open>TimerEvent\<close> is an object
  shared by pointer, so events live in a heap indexed by addresses, and the \<open>Timer\<close> keeps a
  multimap from arrival time to event, a list in key order here, and the last setting of its
  timer descriptor. Times are milliseconds and far from the bounds of \<open>int64_t\<close>.

  The lemmas show that the multimap stays in order and in step with the events it points to in
  every reachable state, that \<open>on_timer\<close> runs exactly the due events that are not cancelled, in
  order, re-arms the repeating ones and drops no other, and that the descriptor is never armed
  with zero, which would disarm it.
\<close>

section \<open>Events\<close>

record 'cb timer_event =
  m_arrive_time :: int
  m_interval :: int
  m_is_repeat :: bool
  m_is_cancel :: bool
  m_task :: "'cb option"

definition TimerEvent_new :: "int \<Rightarrow> bool \<Rightarrow> 'cb option \<Rightarrow> clock \<Rightarrow> 'cb timer_event \<times> clock" where
  "TimerEvent_new interval repeat task clk =
     (let (now, clk') = get_now_ms clk
      in (\<lparr>m_arrive_time = now + interval, m_interval = interval, m_is_repeat = repeat,
           m_is_cancel = False, m_task = task\<rparr>, clk'))"

definition set_cancel :: "bool \<Rightarrow> 'cb timer_event \<Rightarrow> 'cb timer_event" where
  "set_cancel v e = e\<lparr>m_is_cancel := v\<rparr>"

definition event_reset_arrive_time :: "'cb timer_event \<Rightarrow> clock \<Rightarrow> 'cb timer_event \<times> clock" where
  "event_reset_arrive_time e clk =
     (let (now, clk') = get_now_ms clk in (e\<lparr>m_arrive_time := now + m_interval e\<rparr>, clk'))"

section \<open>The timer\<close>

text \<open>\<open>tm_armed\<close> is the last value given to \<open>timerfd_settime\<close>, seconds and nanoseconds.\<close>

record 'cb timer =
  tm_fd_event :: "'cb fd_event"
  tm_heap :: "nat \<Rightarrow> 'cb timer_event"
  m_pending_events :: "(int \<times> nat) list"
  tm_armed :: "(int \<times> int) option"

definition Timer_new :: "nat \<Rightarrow> int \<Rightarrow> 'cb \<Rightarrow> (nat \<Rightarrow> 'cb timer_event) \<Rightarrow> 'cb timer" where
  "Timer_new this timerfd on_timer_cb heap =
     \<lparr>tm_fd_event = listen this IN_EVENT (Some on_timer_cb) None (FdEvent_new timerfd),
      tm_heap = heap, m_pending_events = [], tm_armed = None\<rparr>"

text \<open>\<open>multimap::emplace\<close> puts the new element behind those with an equal key.\<close>

definition multimap_emplace :: "int \<Rightarrow> nat \<Rightarrow> (int \<times> nat) list \<Rightarrow> (int \<times> nat) list" where
  "multimap_emplace k p xs =
     takeWhile (\<lambda>e. fst e \<le> k) xs @ (k, p) # dropWhile (\<lambda>e. fst e \<le> k) xs"

definition to_timespec :: "int \<Rightarrow> int \<times> int" where
  "to_timespec inteval = (inteval div 1000, inteval mod 1000 * 1000000)"

definition timer_reset_arrive_time :: "'cb timer \<times> clock \<Rightarrow> 'cb timer \<times> clock" where
  "timer_reset_arrive_time = (\<lambda>(tm, clk).
     case m_pending_events tm of
       [] \<Rightarrow> (tm, clk)
     | (_, p) # _ \<Rightarrow>
         let (now, clk') = get_now_ms clk;
             arrive = m_arrive_time (tm_heap tm p);
             inteval = (if arrive > now then arrive - now else 100)
         in (tm\<lparr>tm_armed := Some (to_timespec inteval)\<rparr>, clk'))"

definition add_time_event :: "nat \<Rightarrow> 'cb timer \<times> clock \<Rightarrow> 'cb timer \<times> clock" where
  "add_time_event event = (\<lambda>(tm, clk).
     let arrive = m_arrive_time (tm_heap tm event);
         is_reset_timerfd =
           (case m_pending_events tm of
              [] \<Rightarrow> True
            | (_, p) # _ \<Rightarrow> m_arrive_time (tm_heap tm p) > arrive);
         tm' = tm\<lparr>m_pending_events := multimap_emplace arrive event (m_pending_events tm)\<rparr>
     in if is_reset_timerfd then timer_reset_arrive_time (tm', clk) else (tm', clk))"

text \<open>\<open>read\<close> on the timer descriptor until it reports \<open>EAGAIN\<close> (11): the \<open>i\<close>-th call returns a
  value and an \<open>errno\<close>. Any other outcome is tried again.\<close>

partial_function (option) drain_timer_fd :: "(nat \<Rightarrow> int \<times> int) \<Rightarrow> nat \<Rightarrow> nat option" where
  "drain_timer_fd rd i =
     (if fst (rd i) = -1 \<and> snd (rd i) = 11 then Some i else drain_timer_fd rd (Suc i))"

definition rearm_repeat :: "nat \<Rightarrow> 'cb timer \<times> clock \<Rightarrow> 'cb timer \<times> clock" where
  "rearm_repeat p = (\<lambda>(tm, clk).
     if m_is_repeat (tm_heap tm p)
     then let (e, clk') = event_reset_arrive_time (tm_heap tm p) clk
          in add_time_event p (tm\<lparr>tm_heap := (tm_heap tm)(p := e)\<rparr>, clk')
     else (tm, clk))"

text \<open>The callbacks are returned in the order they are called; \<open>None\<close> if the first loop never ends.\<close>

definition on_timer ::
  "(nat \<Rightarrow> int \<times> int) \<Rightarrow> 'cb timer \<times> clock \<Rightarrow> ('cb list \<times> 'cb timer \<times> clock) option" where
  "on_timer rd = (\<lambda>(tm, clk).
     case drain_timer_fd rd 0 of
       None \<Rightarrow> None
     | Some _ \<Rightarrow>
         let (now_time, clk1) = get_now_ms clk;
             due = takeWhile (\<lambda>e. fst e \<le> now_time) (m_pending_events tm);
             temp = filter (\<lambda>p. \<not> m_is_cancel (tm_heap tm p)) (map snd due);
             tasks = map (\<lambda>p. (m_arrive_time (tm_heap tm p), m_task (tm_heap tm p))) temp;
             tm1 = tm\<lparr>m_pending_events := drop (length due) (m_pending_events tm)\<rparr>;
             (tm2, clk2) = timer_reset_arrive_time (fold rearm_repeat temp (tm1, clk1))
         in Some (List.map_filter snd tasks, tm2, clk2))"

text \<open>\<open>unique_lock::lock\<close> on a lock that is already owned throws.\<close>

definition unique_lock_lock :: "bool \<Rightarrow> bool res" where
  "unique_lock_lock owns = (if owns then Inl SystemError else Inr True)"

definition erase_at :: "nat \<Rightarrow> (int \<times> nat) list \<Rightarrow> (int \<times> nat) list" where
  "erase_at i xs = take i xs @ drop (Suc i) xs"

text \<open>The state is what the call leaves behind, whether it returns or throws.\<close>

definition delete_time_event :: "nat \<Rightarrow> 'cb timer \<Rightarrow> 'cb timer \<times> bool res" where
  "delete_time_event event tm =
     (let heap = (tm_heap tm)(event := set_cancel True (tm_heap tm event));
          xs = m_pending_events tm;
          arrive = m_arrive_time (heap event);
          lower = length (takeWhile (\<lambda>e. fst e < arrive) xs);
          upper = length (takeWhile (\<lambda>e. fst e \<le> arrive) xs);
          it = lower + length (takeWhile (\<lambda>e. snd e \<noteq> event) (take (upper - lower) (drop lower xs)));
          tm' = tm\<lparr>tm_heap := heap, m_pending_events := (if it \<noteq> upper then erase_at it xs else xs)\<rparr>
      in (tm', unique_lock_lock True))"

section \<open>Invariant\<close>

definition timer_inv :: "'cb timer \<Rightarrow> bool" where
  "timer_inv tm \<longleftrightarrow> sorted (map fst (m_pending_events tm)) \<and> distinct (map snd (m_pending_events tm)) \<and>
     (\<forall>(k, p) \<in> set (m_pending_events tm). k = m_arrive_time (tm_heap tm p)) \<and>
     (m_pending_events tm \<noteq> [] \<longrightarrow> tm_armed tm \<noteq> None)"

lemma multimap_emplace_mset: "mset (multimap_emplace k p xs) = add_mset (k, p) (mset xs)"
proof -
  have "mset xs = mset (takeWhile (\<lambda>e. fst e \<le> k) xs) + mset (dropWhile (\<lambda>e. fst e \<le> k) xs)"
    by (metis mset_append takeWhile_dropWhile_id)
  then show ?thesis by (simp add: multimap_emplace_def)
qed

lemma multimap_emplace_set [simp]: "set (multimap_emplace k p xs) = insert (k, p) (set xs)"
  using multimap_emplace_mset [of k p xs] by (metis set_mset_add_mset_insert set_mset_mset)

lemma multimap_emplace_snd: "mset (map snd (multimap_emplace k p xs)) = add_mset p (mset (map snd xs))"
  using arg_cong [OF multimap_emplace_mset [of k p xs], of "image_mset snd"] by simp

lemma multimap_emplace_filter:
  "sorted (map fst xs) \<Longrightarrow> multimap_emplace k p xs =
     filter (\<lambda>e. fst e \<le> k) xs @ (k, p) # filter (\<lambda>e. \<not> fst e \<le> k) xs"
  by (simp add: multimap_emplace_def filter_key_takeWhile filter_key_dropWhile)

lemma sorted_map_filter: "sorted (map fst xs) \<Longrightarrow> sorted (map fst (filter P xs))"
  by (rule sorted_filter)

lemma multimap_emplace_sorted:
  "sorted (map fst xs) \<Longrightarrow> sorted (map fst (multimap_emplace k p xs))"
  by (auto simp: multimap_emplace_filter sorted_append sorted_map_filter)

lemma multimap_emplace_nonempty [simp]: "multimap_emplace k p xs \<noteq> []"
  by (simp add: multimap_emplace_def)

text \<open>The parts of \<open>timer_inv\<close> that do not mention the descriptor.\<close>

definition queue_inv :: "'cb timer \<Rightarrow> bool" where
  "queue_inv tm \<longleftrightarrow> sorted (map fst (m_pending_events tm)) \<and> distinct (map snd (m_pending_events tm)) \<and>
     (\<forall>(k, p) \<in> set (m_pending_events tm). k = m_arrive_time (tm_heap tm p))"

lemma timer_inv_queue:
  "timer_inv tm \<longleftrightarrow> queue_inv tm \<and> (m_pending_events tm \<noteq> [] \<longrightarrow> tm_armed tm \<noteq> None)"
  by (auto simp: timer_inv_def queue_inv_def)

lemma timer_reset_fields:
  assumes "timer_reset_arrive_time (tm, clk) = (tm', clk')"
  shows "m_pending_events tm' = m_pending_events tm" "tm_heap tm' = tm_heap tm"
    "tm_fd_event tm' = tm_fd_event tm" "m_pending_events tm \<noteq> [] \<Longrightarrow> tm_armed tm' \<noteq> None"
    "m_pending_events tm = [] \<Longrightarrow> tm_armed tm' = tm_armed tm"
  using assms
  by (auto simp: timer_reset_arrive_time_def Let_def split: list.splits prod.splits)

lemma timer_reset_inv:
  assumes "queue_inv tm" and "timer_reset_arrive_time (tm, clk) = (tm', clk')"
  shows "timer_inv tm'"
  using assms(1) timer_reset_fields [OF assms(2)] by (auto simp: timer_inv_queue queue_inv_def)

lemma add_time_event_fields:
  assumes "add_time_event p (tm, clk) = (tm', clk')"
  shows "m_pending_events tm' = multimap_emplace (m_arrive_time (tm_heap tm p)) p (m_pending_events tm)"
    "tm_heap tm' = tm_heap tm"
    "m_pending_events tm \<noteq> [] \<Longrightarrow> tm_armed tm \<noteq> None \<Longrightarrow> tm_armed tm' \<noteq> None"
    "m_pending_events tm = [] \<Longrightarrow> tm_armed tm' \<noteq> None"
  using assms timer_reset_fields
    [of "tm\<lparr>m_pending_events := multimap_emplace (m_arrive_time (tm_heap tm p)) p (m_pending_events tm)\<rparr>" clk tm' clk']
  by (auto simp: add_time_event_def Let_def split: list.splits if_splits prod.splits)

lemma add_time_event_inv:
  assumes "timer_inv tm" and "p \<notin> snd ` set (m_pending_events tm)"
    and "add_time_event p (tm, clk) = (tm', clk')"
  shows "timer_inv tm'"
proof -
  note fields = add_time_event_fields [OF assms(3)]
  have "distinct (map snd (m_pending_events tm'))"
    using assms(1,2) fields(1) multimap_emplace_snd [of "m_arrive_time (tm_heap tm p)" p "m_pending_events tm"]
    by (metis distinct.simps(2) list.set_map mset.simps(2) mset_eq_imp_distinct_iff timer_inv_def)
  then show ?thesis
    using assms fields
    by (auto simp: timer_inv_def multimap_emplace_sorted)
qed

text \<open>Re-arming: the repeating events of a list, none of them pending, are queued again.\<close>

definition same_but_time :: "'cb timer_event \<Rightarrow> 'cb timer_event \<Rightarrow> bool" where
  "same_but_time e e' \<longleftrightarrow> e'\<lparr>m_arrive_time := m_arrive_time e\<rparr> = e"

lemma same_but_time_simps:
  "same_but_time e e"
  "same_but_time e e' \<Longrightarrow> m_is_repeat e' = m_is_repeat e"
  "same_but_time e e' \<Longrightarrow> same_but_time e' e'' \<Longrightarrow> same_but_time e e''"
  "same_but_time e (e\<lparr>m_arrive_time := t\<rparr>)"
  by (cases e; cases e'; cases e''; simp add: same_but_time_def)+

lemma rearm_repeat_step:
  assumes "timer_inv tm" and "p \<notin> snd ` set (m_pending_events tm)"
    and "rearm_repeat p (tm, clk) = (tm', clk')"
  shows "timer_inv tm'"
    "mset (map snd (m_pending_events tm')) =
       mset (map snd (m_pending_events tm)) + mset (if m_is_repeat (tm_heap tm p) then [p] else [])"
    "set (m_pending_events tm) \<subseteq> set (m_pending_events tm')"
    "\<forall>q. same_but_time (tm_heap tm q) (tm_heap tm' q)"
proof -
  have all: "timer_inv tm' \<and> mset (map snd (m_pending_events tm')) =
       mset (map snd (m_pending_events tm)) + mset (if m_is_repeat (tm_heap tm p) then [p] else []) \<and>
    set (m_pending_events tm) \<subseteq> set (m_pending_events tm') \<and>
    (\<forall>q. same_but_time (tm_heap tm q) (tm_heap tm' q))"
  proof (cases "m_is_repeat (tm_heap tm p)")
    case False
    then show ?thesis using assms by (auto simp: rearm_repeat_def same_but_time_simps)
  next
    case True
    obtain now clk1 where now: "get_now_ms clk = (now, clk1)" by (cases "get_now_ms clk")
    let ?e = "(tm_heap tm p)\<lparr>m_arrive_time := now + m_interval (tm_heap tm p)\<rparr>"
    let ?tm = "tm\<lparr>tm_heap := (tm_heap tm)(p := ?e)\<rparr>"
    have add: "add_time_event p (?tm, clk1) = (tm', clk')"
      using assms(3) True now by (simp add: rearm_repeat_def event_reset_arrive_time_def)
    have "timer_inv ?tm"
      using assms(1,2) by (force simp: timer_inv_def)
    then have "timer_inv tm'"
      using assms(2) add_time_event_inv [OF _ _ add] by simp
    moreover note fields = add_time_event_fields [OF add]
    ultimately show ?thesis
      using True by (auto simp: multimap_emplace_snd same_but_time_simps simp del: mset_map)
  qed
  then show "timer_inv tm'"
    "mset (map snd (m_pending_events tm')) =
       mset (map snd (m_pending_events tm)) + mset (if m_is_repeat (tm_heap tm p) then [p] else [])"
    "set (m_pending_events tm) \<subseteq> set (m_pending_events tm')"
    "\<forall>q. same_but_time (tm_heap tm q) (tm_heap tm' q)"
    by blast+
qed

lemma rearm_all:
  "timer_inv tm \<Longrightarrow> distinct ps \<Longrightarrow> set ps \<inter> snd ` set (m_pending_events tm) = {} \<Longrightarrow>
   fold rearm_repeat ps (tm, clk) = (tm', clk') \<Longrightarrow>
   timer_inv tm' \<and>
   mset (map snd (m_pending_events tm')) =
     mset (map snd (m_pending_events tm)) + mset (filter (\<lambda>p. m_is_repeat (tm_heap tm p)) ps) \<and>
   set (m_pending_events tm) \<subseteq> set (m_pending_events tm') \<and>
   (\<forall>q. same_but_time (tm_heap tm q) (tm_heap tm' q))"
proof (induction ps arbitrary: tm clk)
  case Nil
  then show ?case by (simp add: same_but_time_simps)
next
  case (Cons p ps)
  obtain tm1 clk1 where one: "rearm_repeat p (tm, clk) = (tm1, clk1)" by fastforce
  have "p \<notin> snd ` set (m_pending_events tm)" using Cons.prems(3) by auto
  note step = rearm_repeat_step [OF Cons.prems(1) this one]
  have "set (map snd (m_pending_events tm1)) \<subseteq> insert p (set (map snd (m_pending_events tm)))"
    using arg_cong [OF step(2), of set_mset] by (auto split: if_splits)
  then have "set ps \<inter> snd ` set (m_pending_events tm1) = {}"
    using Cons.prems(2,3) by auto
  then have rest: "timer_inv tm' \<and>
     mset (map snd (m_pending_events tm')) =
       mset (map snd (m_pending_events tm1)) + mset (filter (\<lambda>p. m_is_repeat (tm_heap tm1 p)) ps) \<and>
     set (m_pending_events tm1) \<subseteq> set (m_pending_events tm') \<and>
     (\<forall>q. same_but_time (tm_heap tm1 q) (tm_heap tm' q))"
    using Cons.IH [OF step(1)] Cons.prems(2,4) one by simp
  have "filter (\<lambda>p. m_is_repeat (tm_heap tm1 p)) ps = filter (\<lambda>p. m_is_repeat (tm_heap tm p)) ps"
    using step(4) same_but_time_simps(2) by metis
  then show ?case
    using rest step by (auto simp del: mset_map intro: same_but_time_simps(3))
qed

section \<open>What \<open>on_timer\<close> does\<close>

lemma drain_timer_fd_ends:
  "rd j = (-1, 11) \<Longrightarrow> i \<le> j \<Longrightarrow> \<exists>k. drain_timer_fd rd i = Some k"
proof (induction "j - i" arbitrary: i)
  case 0
  then show ?case by (subst drain_timer_fd.simps) simp
next
  case (Suc n)
  then show ?case by (subst drain_timer_fd.simps) auto
qed

definition is_due :: "int \<Rightarrow> 'cb timer \<Rightarrow> int \<times> nat \<Rightarrow> bool" where
  "is_due now tm e \<longleftrightarrow> fst e \<le> now \<and> \<not> m_is_cancel (tm_heap tm (snd e))"

lemma map_filter_tasks:
  "List.map_filter snd (map (\<lambda>p. (f p, g p)) (map snd ys)) = List.map_filter (\<lambda>e. g (snd e)) ys"
  by (induction ys) (simp_all add: map_filter_simps split: option.split)

lemma on_timer_ok:
  assumes "timer_inv tm" and "rd j = (-1, 11)" and "get_now_ms clk = (now, clk1)"
  obtains tm' clk' where
    "on_timer rd (tm, clk) = Some (List.map_filter (\<lambda>e. m_task (tm_heap tm (snd e)))
       (filter (is_due now tm) (m_pending_events tm)), tm', clk')"
    "timer_inv tm'"
    "mset (map snd (m_pending_events tm')) =
       mset (map snd (filter (\<lambda>e. now < fst e) (m_pending_events tm))) +
       mset (map snd (filter (\<lambda>e. is_due now tm e \<and> m_is_repeat (tm_heap tm (snd e))) (m_pending_events tm)))"
    "\<forall>e\<in>set (m_pending_events tm). now < fst e \<longrightarrow> e \<in> set (m_pending_events tm')"
    "\<forall>q. same_but_time (tm_heap tm q) (tm_heap tm' q)"
proof -
  let ?xs = "m_pending_events tm"
  let ?ps = "map snd (filter (is_due now tm) ?xs)"
  define tm1 where "tm1 = tm\<lparr>m_pending_events := filter (\<lambda>e. now < fst e) ?xs\<rparr>"
  have sorted: "sorted (map fst ?xs)" and dist: "distinct (map snd ?xs)"
    using assms(1) by (auto simp: timer_inv_def)
  have due: "filter (\<lambda>p. \<not> m_is_cancel (tm_heap tm p)) (map snd (takeWhile (\<lambda>e. fst e \<le> now) ?xs)) = ?ps"
    by (simp add: filter_key_takeWhile [OF sorted] filter_map comp_def is_due_def [abs_def] conj_commute
        cong: conj_cong)
  have later: "drop (length (takeWhile (\<lambda>e. fst e \<le> now) ?xs)) ?xs = filter (\<lambda>e. now < fst e) ?xs"
    using filter_key_dropWhile [OF sorted, of now] by (simp add: dropWhile_eq_drop not_le)
  have inv1: "timer_inv tm1"
    using assms(1) sorted_map_filter [OF sorted, of "\<lambda>e. now < fst e"]
      distinct_map_filter [OF dist, of "\<lambda>e. now < fst e"]
    by (auto simp: timer_inv_def tm1_def)
  have inj: "inj_on snd (set ?xs)" using dist by (simp add: distinct_map)
  have disj: "set ?ps \<inter> snd ` set (m_pending_events tm1) = {}"
  proof -
    have False if "e1 \<in> set ?xs" "is_due now tm e1" "e2 \<in> set ?xs" "now < fst e2" "snd e1 = snd e2" for e1 e2
      using inj_onD [OF inj that(5,1,3)] that(2,4) by (simp add: is_due_def)
    then show ?thesis by (fastforce simp: tm1_def)
  qed
  obtain tm2 clk2 where fold: "fold rearm_repeat ?ps (tm1, clk1) = (tm2, clk2)" by fastforce
  have all: "timer_inv tm2"
    "mset (map snd (m_pending_events tm2)) =
       mset (map snd (m_pending_events tm1)) + mset (filter (\<lambda>p. m_is_repeat (tm_heap tm p)) ?ps)"
    "set (m_pending_events tm1) \<subseteq> set (m_pending_events tm2)"
    "\<forall>q. same_but_time (tm_heap tm q) (tm_heap tm2 q)"
    using rearm_all [OF inv1 distinct_map_filter [OF dist] disj fold] by (simp_all add: tm1_def)
  obtain tm' clk' where reset: "timer_reset_arrive_time (tm2, clk2) = (tm', clk')" by fastforce
  obtain k where "drain_timer_fd rd 0 = Some k" using drain_timer_fd_ends [of rd j 0] assms(2) by auto
  then have run: "on_timer rd (tm, clk) = Some (List.map_filter (\<lambda>e. m_task (tm_heap tm (snd e)))
       (filter (is_due now tm) ?xs), tm', clk')"
    by (simp only: on_timer_def case_prod_conv option.case assms(3) Let_def due later
        tm1_def [symmetric] fold reset map_filter_tasks)
  have inv': "timer_inv tm'"
    using all(1) timer_reset_inv [OF _ reset] by (simp add: timer_inv_queue)
  show thesis
  proof (rule that [OF run inv'])
    show "mset (map snd (m_pending_events tm')) =
       mset (map snd (filter (\<lambda>e. now < fst e) ?xs)) +
       mset (map snd (filter (\<lambda>e. is_due now tm e \<and> m_is_repeat (tm_heap tm (snd e))) ?xs))"
      using all(2) timer_reset_fields(1) [OF reset]
      by (simp add: tm1_def filter_map comp_def conj_commute)
    show "\<forall>e\<in>set ?xs. now < fst e \<longrightarrow> e \<in> set (m_pending_events tm')"
      using all(3) timer_reset_fields(1) [OF reset] by (auto simp: tm1_def)
    show "\<forall>q. same_but_time (tm_heap tm q) (tm_heap tm' q)"
      using all(4) timer_reset_fields(2) [OF reset] by simp
  qed
qed

text \<open>C15 (A timer tick runs exactly the due events).
  If the multimap is in order and the descriptor eventually reports \<open>EAGAIN\<close>, \<open>on_timer\<close> returns;
  it calls, in the order of the multimap, the callbacks of exactly the events that are due at the
  time it reads and not cancelled; afterwards the multimap holds exactly the events that were not
  due, at their old times, and the repeating ones among those called, and is in order again.\<close>

theorem on_timer_runs_due_events:
  assumes "timer_inv tm" and "rd j = (-1, 11)" and "get_now_ms clk = (now, clk1)"
  shows "\<exists>tm' clk'. on_timer rd (tm, clk) = Some (List.map_filter (\<lambda>e. m_task (tm_heap tm (snd e)))
       (filter (is_due now tm) (m_pending_events tm)), tm', clk') \<and>
    timer_inv tm' \<and>
    mset (map snd (m_pending_events tm')) =
      mset (map snd (filter (\<lambda>e. now < fst e) (m_pending_events tm))) +
      mset (map snd (filter (\<lambda>e. is_due now tm e \<and> m_is_repeat (tm_heap tm (snd e))) (m_pending_events tm))) \<and>
    (\<forall>e\<in>set (m_pending_events tm). now < fst e \<longrightarrow> e \<in> set (m_pending_events tm'))"
  by (rule on_timer_ok [of tm rd j clk now clk1, OF assms]) blast

definition sample_timer :: "nat timer" where
  "sample_timer = \<lparr>tm_fd_event = FdEvent_new 7,
     tm_heap = (\<lambda>p. \<lparr>m_arrive_time = 10 * int p, m_interval = 50, m_is_repeat = p = 1,
       m_is_cancel = p = 2, m_task = Some p\<rparr>),
     m_pending_events = [(10, 1), (20, 2), (30, 3), (90, 9)], tm_armed = Some (0, 10000000)\<rparr>"

definition sample_clock :: clock where
  "sample_clock = \<lparr>clk_reading = (\<lambda>i. (0, 30000 + 1000 * int i)), clk_calls = 0\<rparr>"

lemma sample_timer_inv: "timer_inv sample_timer"
  by (simp add: timer_inv_def sample_timer_def)

lemma on_timer_runs_due_events_witness:
  "\<exists>tm' clk'. on_timer (\<lambda>i. if i = 0 then (8, 0) else (-1, 11)) (sample_timer, sample_clock) =
      Some ([1, 3], tm', clk') \<and>
    timer_inv tm' \<and> mset (map snd (m_pending_events tm')) = {#9, 1#} \<and> (90, 9) \<in> set (m_pending_events tm')"
  using on_timer_runs_due_events [OF sample_timer_inv, of "\<lambda>i. if i = 0 then (8, 0) else (-1, 11)" 1
      sample_clock 30 "sample_clock\<lparr>clk_calls := 1\<rparr>"]
  by (simp add: sample_timer_def sample_clock_def get_now_ms_def is_due_def List.map_filter_def
      add_mset_commute)

section \<open>Arming the descriptor\<close>

definition armed_ns :: "int \<times> int \<Rightarrow> int" where
  "armed_ns ts = fst ts * 1000000000 + snd ts"

lemma to_timespec_exact:
  assumes "0 < n"
  shows "armed_ns (to_timespec n) = n * 1000000" "0 \<le> snd (to_timespec n)" "snd (to_timespec n) < 1000000000"
proof -
  have "n div 1000 * 1000 + n mod 1000 = n" by simp
  then show "armed_ns (to_timespec n) = n * 1000000"
    unfolding armed_ns_def to_timespec_def fst_conv snd_conv by linarith
  show "0 \<le> snd (to_timespec n)" by (simp add: to_timespec_def)
  have "n mod 1000 < 1000" by simp
  then show "snd (to_timespec n) < 1000000000" unfolding to_timespec_def snd_conv by linarith
qed

text \<open>Lemma (The timer is armed for its first event).
  When an event is pending, \<open>Timer::reset_arrive_time\<close> arms the descriptor with a valid timespec of
  exactly the time left to the first event, or 100 ms if that time has passed: never zero, which
  would disarm the timer.\<close>

theorem reset_arms_for_first_event:
  assumes "timer_inv tm" and "m_pending_events tm = (k, p) # rest" and "get_now_ms clk = (now, clk1)"
  shows "\<exists>ts. timer_reset_arrive_time (tm, clk) = (tm\<lparr>tm_armed := Some ts\<rparr>, clk1) \<and>
    armed_ns ts = (if k > now then k - now else 100) * 1000000 \<and> 0 < armed_ns ts \<and>
    0 \<le> snd ts \<and> snd ts < 1000000000"
proof -
  let ?n = "if k > now then k - now else 100"
  have "k = m_arrive_time (tm_heap tm p)" using assms(1,2) by (simp add: timer_inv_def)
  then have "timer_reset_arrive_time (tm, clk) = (tm\<lparr>tm_armed := Some (to_timespec ?n)\<rparr>, clk1)"
    using assms(2,3) by (simp add: timer_reset_arrive_time_def Let_def)
  moreover have "0 < ?n" by simp
  ultimately show ?thesis
    using to_timespec_exact [of ?n] by (intro exI [of _ "to_timespec ?n"]) simp
qed

lemma reset_arms_for_first_event_witness:
  "\<exists>ts. timer_reset_arrive_time (sample_timer, sample_clock) =
      (sample_timer\<lparr>tm_armed := Some ts\<rparr>, sample_clock\<lparr>clk_calls := 1\<rparr>) \<and>
    armed_ns ts = (if 10 > (30::int) then 10 - 30 else 100) * 1000000 \<and> 0 < armed_ns ts \<and>
    0 \<le> snd ts \<and> snd ts < 1000000000"
  by (rule reset_arms_for_first_event [OF sample_timer_inv, where p = 1 and rest = "[(20, 2), (30, 3), (90, 9)]"])
    (simp_all add: sample_timer_def sample_clock_def get_now_ms_def)

section \<open>Removing an event\<close>

lemma erase_found:
  assumes "p \<notin> snd ` set A" and "p \<notin> snd ` set C" and "distinct (map snd B)"
    and "i = length A + length (takeWhile (\<lambda>e. snd e \<noteq> p) B)"
  shows "(if i \<noteq> length A + length B then erase_at i (A @ B @ C) else A @ B @ C) =
    filter (\<lambda>e. snd e \<noteq> p) (A @ B @ C)"
proof -
  have AC: "filter (\<lambda>e. snd e \<noteq> p) A = A" "filter (\<lambda>e. snd e \<noteq> p) C = C"
    using assms(1,2) by (auto simp: filter_id_conv)
  show ?thesis
  proof (cases "dropWhile (\<lambda>e. snd e \<noteq> p) B")
    case Nil
    then have "\<forall>e\<in>set B. snd e \<noteq> p" by (simp add: dropWhile_eq_Nil_conv)
    then have "takeWhile (\<lambda>e. snd e \<noteq> p) B = B" "filter (\<lambda>e. snd e \<noteq> p) B = B"
      by (auto simp: takeWhile_eq_all_conv filter_id_conv)
    then show ?thesis by (simp only: assms(4) filter_append AC simp_thms if_False)
  next
    case (Cons e B2)
    define B1 where "B1 = takeWhile (\<lambda>e. snd e \<noteq> p) B"
    have B: "B = B1 @ e # B2"
      unfolding B1_def Cons [symmetric] by (rule takeWhile_dropWhile_id [symmetric])
    have e: "snd e = p" using hd_dropWhile [of "\<lambda>e. snd e \<noteq> p" B] Cons by simp
    have "p \<notin> snd ` set B1" "p \<notin> snd ` set B2"
      using assms(3) e by (auto simp: B)
    then have "filter (\<lambda>e. snd e \<noteq> p) B1 = B1" "filter (\<lambda>e. snd e \<noteq> p) B2 = B2"
      by (auto simp: filter_id_conv)
    then have "filter (\<lambda>e. snd e \<noteq> p) B = B1 @ B2"
      using e by (simp add: B)
    moreover have "erase_at (length A + length B1) (A @ B @ C) = A @ B1 @ B2 @ C"
      by (simp add: erase_at_def B)
    ultimately show ?thesis using assms(4) AC by (simp add: B1_def [symmetric]) (simp add: B)
  qed
qed

lemma delete_time_event_ok:
  assumes "timer_inv tm"
  shows "\<exists>tm'. delete_time_event p tm = (tm', Inl SystemError) \<and> timer_inv tm' \<and>
    m_is_cancel (tm_heap tm' p) \<and>
    m_pending_events tm' = filter (\<lambda>e. snd e \<noteq> p) (m_pending_events tm)"
proof -
  let ?xs = "m_pending_events tm" and ?a = "m_arrive_time (tm_heap tm p)"
  let ?heap = "(tm_heap tm)(p := set_cancel True (tm_heap tm p))"
  define A where "A = takeWhile (\<lambda>e. fst e < ?a) ?xs"
  define U where "U = takeWhile (\<lambda>e. fst e \<le> ?a) ?xs"
  define B where "B = drop (length A) U"
  define C where "C = dropWhile (\<lambda>e. fst e \<le> ?a) ?xs"
  have inv: "sorted (map fst ?xs)" "distinct (map snd ?xs)"
    "\<forall>e\<in>set ?xs. fst e = m_arrive_time (tm_heap tm (snd e))"
    using assms by (auto simp: timer_inv_def)
  have "takeWhile (\<lambda>e. fst e < ?a) U = A"
    unfolding U_def A_def takeWhile_takeWhile by (rule takeWhile_cong) auto
  then have "U = A @ B" unfolding B_def by (metis append_take_drop_id takeWhile_eq_take)
  then have xs: "?xs = A @ B @ C" unfolding C_def U_def by (metis append_assoc takeWhile_dropWhile_id)
  have len: "length U = length A + length B" "length U - length A = length B"
    using \<open>U = A @ B\<close> by simp_all
  have B: "take (length B) (drop (length A) ?xs) = B" unfolding xs by simp
  have "p \<notin> snd ` set A"
    using inv(3) by (auto simp: A_def dest!: set_takeWhileD)
  moreover have "p \<notin> snd ` set C"
    using inv(1,3) by (auto simp: C_def filter_key_dropWhile)
  moreover have "distinct (map snd B)" using inv(2) unfolding xs by simp
  ultimately have filt: "(if length A + length (takeWhile (\<lambda>e. snd e \<noteq> p) B) \<noteq> length A + length B
      then erase_at (length A + length (takeWhile (\<lambda>e. snd e \<noteq> p) B)) ?xs else ?xs) =
      filter (\<lambda>e. snd e \<noteq> p) ?xs"
    using erase_found [of p A C B] unfolding xs by blast
  have "m_arrive_time (?heap p) = ?a" by (simp add: set_cancel_def)
  then have del: "delete_time_event p tm =
      (tm\<lparr>tm_heap := ?heap, m_pending_events := filter (\<lambda>e. snd e \<noteq> p) ?xs\<rparr>, Inl SystemError)"
    by (simp only: delete_time_event_def Let_def unique_lock_lock_def if_True
        A_def [symmetric] U_def [symmetric] len(2) B filt [folded len(1)])
  have "timer_inv (tm\<lparr>tm_heap := ?heap, m_pending_events := filter (\<lambda>e. snd e \<noteq> p) ?xs\<rparr>)"
    using assms sorted_map_filter [OF inv(1)] distinct_map_filter [OF inv(2)]
    by (auto simp: timer_inv_def set_cancel_def)
  then show ?thesis using del by (simp add: set_cancel_def)
qed

text \<open>C26 (Deleting a timer event).
  \<open>Timer::delete_time_event\<close> marks the event cancelled and removes it, and only it, from the
  multimap, which stays in order; but it then locks a lock it still holds, so the call never
  returns normally: it always throws \<open>std::system_error\<close>.\<close>

theorem delete_time_event_removes_and_throws:
  assumes "timer_inv tm"
  shows "\<exists>tm'. delete_time_event p tm = (tm', Inl SystemError) \<and> timer_inv tm' \<and>
    m_is_cancel (tm_heap tm' p) \<and>
    m_pending_events tm' = filter (\<lambda>e. snd e \<noteq> p) (m_pending_events tm)"
  using assms by (rule delete_time_event_ok)

lemma delete_time_event_removes_and_throws_witness:
  "\<exists>tm'. delete_time_event 3 sample_timer = (tm', Inl SystemError) \<and> timer_inv tm' \<and>
    m_is_cancel (tm_heap tm' 3) \<and> m_pending_events tm' = [(10, 1), (20, 2), (90, 9)]"
  using delete_time_event_removes_and_throws [OF sample_timer_inv, of 3]
  by (simp add: sample_timer_def)

section \<open>Reachable timers\<close>

text \<open>
  What a program can do with a timer: create it, create an event and add it under an address that
  is not queued, cancel or delete one, and let the event loop call \<open>on_timer\<close>, each at any
  readings of the clock.
\<close>

inductive timer_reachable :: "'cb timer \<Rightarrow> bool" where
  new: "timer_reachable (Timer_new this fd cb heap)"
| add: "timer_reachable tm \<Longrightarrow> p \<notin> snd ` set (m_pending_events tm) \<Longrightarrow>
    TimerEvent_new interval repeat task clk = (e, clk1) \<Longrightarrow>
    add_time_event p (tm\<lparr>tm_heap := (tm_heap tm)(p := e)\<rparr>, clk1) = (tm', clk2) \<Longrightarrow> timer_reachable tm'"
| cancel: "timer_reachable tm \<Longrightarrow>
    timer_reachable (tm\<lparr>tm_heap := (tm_heap tm)(p := set_cancel v (tm_heap tm p))\<rparr>)"
| delete: "timer_reachable tm \<Longrightarrow> timer_reachable (fst (delete_time_event p tm))"
| tick: "timer_reachable tm \<Longrightarrow> rd j = (-1, 11) \<Longrightarrow>
    on_timer rd (tm, clk) = Some (tasks, tm', clk') \<Longrightarrow> timer_reachable tm'"

lemma delete_time_event_inv: "timer_inv tm \<Longrightarrow> timer_inv (fst (delete_time_event p tm))"
  using delete_time_event_ok [of tm p] by auto

text \<open>C18 (Every reachable timer is in order).
  Whatever events are created, added, cancelled, deleted and fired, and whatever the clock reads,
  the multimap stays sorted by arrival time, holds no event twice, files every event under its
  own arrival time, and the descriptor has been armed whenever an event is pending.\<close>

theorem timer_reachable_inv:
  assumes "timer_reachable tm"
  shows "timer_inv tm"
  using assms
proof (induction rule: timer_reachable.induct)
  case (new this fd cb heap)
  then show ?case by (simp add: timer_inv_def Timer_new_def)
next
  case (add tm p interval repeat task clk e clk1 tm' clk2)
  have "timer_inv (tm\<lparr>tm_heap := (tm_heap tm)(p := e)\<rparr>)"
    using add.IH add.hyps(2) by (force simp: timer_inv_def)
  then show ?case using add.hyps add_time_event_inv by fastforce
next
  case (cancel tm p v)
  then show ?case by (auto simp: timer_inv_def set_cancel_def)
next
  case (delete tm p)
  then show ?case by (simp add: delete_time_event_inv)
next
  case (tick tm rd j clk tasks tm' clk')
  obtain now clk1 where "get_now_ms clk = (now, clk1)" by (cases "get_now_ms clk")
  then show ?case using tick on_timer_ok [of tm rd j clk now clk1] by (metis (no_types, lifting) option.inject prod.inject)
qed

lemma timer_reachable_inv_witness:
  "timer_inv (fst (delete_time_event 3 (Timer_new 0 7 (0::nat) (\<lambda>_. fst (TimerEvent_new 20 True None sample_clock)))))"
  by (intro timer_reachable_inv timer_reachable.delete timer_reachable.new)

end
