(* ===== verification/Event_Loop.thy ===== *)
theory Event_Loop
  imports Timer_Queue "HOL-Library.Sublist"
begin

text \<open>
  The event loop \<open>EventLoop\<close> (\<open>src/net/eventloop.cc\<close>). The \<open>FdEvent\<close> objects of the process are
  reached through pointers, so they live in a heap; the calls of \<open>epoll_ctl\<close> and the writes to the
  wake-up descriptor are recorded in the order they are made. What a callback does is a
  parameter \<open>run\<close>, and what \<open>epoll_wait\<close> reports an argument.

  The lemmas show that the loop neither loses, repeats nor reorders tasks, that the descriptors it
  believes registered are those its \<open>epoll_ctl\<close> calls registered, each added once before it is
  modified or deleted, and that a request from another thread has the effect of the direct call.
\<close>

section \<open>State\<close>

datatype epoll_op = EPOLL_CTL_ADD | EPOLL_CTL_MOD | EPOLL_CTL_DEL

text \<open>A queued \<open>std::function\<close>: a callback, or one of the two wrappers the loop queues itself. The
  wrapper for deletion only uses the descriptor of its event, which never changes.\<close>

datatype 'cb task = Call 'cb | AddToEpoll nat | DeleteFromEpoll int

record 'cb event_loop =
  m_thread_id :: int
  m_epoll_fd :: int
  m_wakeup_fd :: int
  m_wakeup_fd_event :: nat
  m_stop_flag :: bool
  m_listen_fds :: "int set"
  m_pending_tasks :: "'cb task option list"
  m_timer :: "'cb timer"
  m_is_looping :: bool
  el_events :: "nat \<Rightarrow> 'cb fd_event"
  el_ctl :: "(epoll_op \<times> int \<times> (32 word \<times> nat option) option) list"
  el_wakeups :: "(int \<times> string) list"

section \<open>Operations\<close>

definition G_EPOLL_MAX_EVENTS :: nat where "G_EPOLL_MAX_EVENTS = 10"

definition is_in_current_loop_thread :: "int \<Rightarrow> 'cb event_loop \<Rightarrow> bool" where
  "is_in_current_loop_thread tid el \<longleftrightarrow> m_thread_id el = tid"

definition wake_up :: "'cb event_loop \<Rightarrow> 'cb event_loop" where
  "wake_up el = el\<lparr>el_wakeups := el_wakeups el @ [wakeup (el_events el (m_wakeup_fd_event el))]\<rparr>"

definition add_task :: "'cb task option \<Rightarrow> bool \<Rightarrow> 'cb event_loop \<Rightarrow> 'cb event_loop" where
  "add_task task is_wake_up el =
     (let el1 = el\<lparr>m_pending_tasks := m_pending_tasks el @ [task]\<rparr>
      in if is_wake_up then wake_up el1 else el1)"

text \<open>The result of \<open>epoll_ctl\<close> is only logged: the descriptor is inserted whether it failed or not.\<close>

definition add_to_epoll :: "nat \<Rightarrow> 'cb event_loop \<Rightarrow> 'cb event_loop" where
  "add_to_epoll event el =
     (let ev = el_events el event;
          op = (if m_fd ev \<in> m_listen_fds el then EPOLL_CTL_MOD else EPOLL_CTL_ADD)
      in el\<lparr>el_ctl := el_ctl el @ [(op, m_fd ev, Some (m_events ev, m_data_ptr ev))],
            m_listen_fds := insert (m_fd ev) (m_listen_fds el)\<rparr>)"

definition delete_from_epoll :: "int \<Rightarrow> 'cb event_loop \<Rightarrow> 'cb event_loop" where
  "delete_from_epoll fd el =
     (if fd \<notin> m_listen_fds el then el
      else el\<lparr>el_ctl := el_ctl el @ [(EPOLL_CTL_DEL, fd, None)], m_listen_fds := m_listen_fds el - {fd}\<rparr>)"

definition add_epoll_event :: "int \<Rightarrow> nat \<Rightarrow> 'cb event_loop \<Rightarrow> 'cb event_loop" where
  "add_epoll_event tid event el =
     (if is_in_current_loop_thread tid el then add_to_epoll event el
      else add_task (Some (AddToEpoll event)) True el)"

definition delete_epoll_event :: "int \<Rightarrow> int \<Rightarrow> 'cb event_loop \<Rightarrow> 'cb event_loop" where
  "delete_epoll_event tid fd el =
     (if is_in_current_loop_thread tid el then delete_from_epoll fd el
      else add_task (Some (DeleteFromEpoll fd)) True el)"

definition stop :: "'cb event_loop \<Rightarrow> 'cb event_loop" where
  "stop el = wake_up (el\<lparr>m_stop_flag := True\<rparr>)"

definition get_pending_tasks_size :: "'cb event_loop \<Rightarrow> int" where
  "get_pending_tasks_size el = to_i32 (int (length (m_pending_tasks el)))"

definition add_timer_event :: "nat \<Rightarrow> 'cb event_loop \<times> clock \<Rightarrow> 'cb event_loop \<times> clock" where
  "add_timer_event event = (\<lambda>(el, clk).
     let (tm, clk') = add_time_event event (m_timer el, clk) in (el\<lparr>m_timer := tm\<rparr>, clk'))"

text \<open>\<open>while (read(fd, buf, 8) != -1 && errno != EAGAIN)\<close>; \<open>errno\<close> keeps its value when a call succeeds.\<close>

partial_function (option) drain_wakeup_fd :: "(nat \<Rightarrow> int \<times> int) \<Rightarrow> int \<Rightarrow> nat \<Rightarrow> nat option" where
  "drain_wakeup_fd rd errno i =
     (if fst (rd i) = -1 \<or> errno = 11 then Some (Suc i) else drain_wakeup_fd rd errno (Suc i))"

text \<open>The constructor: \<open>wake_addr\<close> and \<open>timer_addr\<close> are the addresses of the two events it creates,
  and the descriptors what the system calls return.\<close>

definition init_wakeup_fd_event :: "int \<Rightarrow> nat \<Rightarrow> int \<Rightarrow> 'cb \<Rightarrow> 'cb event_loop \<Rightarrow> 'cb event_loop res" where
  "init_wakeup_fd_event tid wake_addr efd drain_cb el =
     (if efd < 0 then Inl (ProcessExit 1)
      else let ev = listen wake_addr IN_EVENT (Some drain_cb) None (FdEvent_new efd)
           in Inr (add_epoll_event tid wake_addr
                (el\<lparr>m_wakeup_fd := efd, m_wakeup_fd_event := wake_addr,
                    el_events := (el_events el)(wake_addr := ev)\<rparr>)))"

definition init_timer :: "int \<Rightarrow> nat \<Rightarrow> int \<Rightarrow> 'cb \<Rightarrow> (nat \<Rightarrow> 'cb timer_event) \<Rightarrow> 'cb event_loop \<Rightarrow> 'cb event_loop" where
  "init_timer tid timer_addr tfd timer_cb heap el =
     (let tm = Timer_new timer_addr tfd timer_cb heap
      in add_epoll_event tid timer_addr
           (el\<lparr>m_timer := tm, el_events := (el_events el)(timer_addr := tm_fd_event tm)\<rparr>))"

definition EventLoop_new ::
  "bool \<Rightarrow> int \<Rightarrow> int \<Rightarrow> nat \<times> int \<times> 'cb \<Rightarrow> nat \<times> int \<times> 'cb \<Rightarrow> (nat \<Rightarrow> 'cb timer_event) \<Rightarrow>
   (nat \<Rightarrow> 'cb fd_event) \<Rightarrow> 'cb event_loop res" where
  "EventLoop_new exists_already tid epfd = (\<lambda>(wake_addr, efd, drain_cb) (timer_addr, tfd, timer_cb) heap events.
     if exists_already \<or> epfd = -1 then Inl (ProcessExit 0)
     else bindR (init_wakeup_fd_event tid wake_addr efd drain_cb
       \<lparr>m_thread_id = tid, m_epoll_fd = epfd, m_wakeup_fd = 0, m_wakeup_fd_event = 0, m_stop_flag = False,
        m_listen_fds = {}, m_pending_tasks = [], m_timer = Timer_new timer_addr tfd timer_cb heap,
        m_is_looping = False, el_events = events, el_ctl = [], el_wakeups = []\<rparr>) (\<lambda>el.
     Inr (init_timer tid timer_addr tfd timer_cb heap el)))"

text \<open>\<open>return std::move(thread_current_eventloop)\<close>: the result and the thread's pointer afterwards.\<close>

definition Get_Current_Eventloop :: "'l option \<Rightarrow> 'l \<Rightarrow> 'l \<times> 'l option" where
  "Get_Current_Eventloop slot fresh = (case slot of None \<Rightarrow> (fresh, None) | Some el \<Rightarrow> (el, None))"

section \<open>The loop\<close>

text \<open>\<open>run\<close> is what a callback does to the loop and to the rest of the program's state.\<close>

type_synonym ('cb, 'w) runner = "'cb \<Rightarrow> 'cb event_loop \<times> 'w \<Rightarrow> 'cb event_loop \<times> 'w"

fun run_task :: "('cb, 'w) runner \<Rightarrow> 'cb task option \<Rightarrow> 'cb event_loop \<times> 'w \<Rightarrow> 'cb event_loop \<times> 'w" where
  "run_task run None s = s"
| "run_task run (Some (Call cb)) s = run cb s"
| "run_task run (Some (AddToEpoll event)) (el, w) = (add_to_epoll event el, w)"
| "run_task run (Some (DeleteFromEpoll fd)) (el, w) = (delete_from_epoll fd el, w)"

text \<open>One result of \<open>epoll_wait\<close>: its mask and data pointer. The event is copied through the pointer.\<close>

definition handle_trigger :: "int \<Rightarrow> 32 word \<times> nat option \<Rightarrow> 'cb event_loop \<Rightarrow> 'cb event_loop res" where
  "handle_trigger tid = (\<lambda>(events, data_ptr) el.
     case data_ptr of
       None \<Rightarrow> Inl NullDeref
     | Some p \<Rightarrow>
         let ev = el_events el p;
             el1 = (if events AND EPOLLIN \<noteq> 0 then add_task (map_option Call (handler IN_EVENT ev)) False el else el);
             el2 = (if events AND EPOLLOUT \<noteq> 0 then add_task (map_option Call (handler OUT_EVENT ev)) False el1 else el1)
         in Inr (if events AND EPOLLERR \<noteq> 0
                 then let el3 = delete_epoll_event tid (m_fd ev) el2
                      in if handler ERROR_EVENT ev \<noteq> None
                         then add_task (map_option Call (handler OUT_EVENT ev)) False el3 else el3
                 else el2))"

text \<open>One round; the argument is \<open>None\<close> when \<open>epoll_wait\<close> reports an error.\<close>

definition loop_round ::
  "('cb, 'w) runner \<Rightarrow> int \<Rightarrow> (32 word \<times> nat option) list option \<Rightarrow>
   'cb event_loop \<times> 'w \<Rightarrow> ('cb event_loop \<times> 'w) res" where
  "loop_round run tid result_event = (\<lambda>(el, w).
     let temp_tasks = m_pending_tasks el;
         (el1, w1) = fold (run_task run) temp_tasks (el\<lparr>m_pending_tasks := []\<rparr>, w)
     in case result_event of
          None \<Rightarrow> Inr (el1, w1)
        | Some triggers \<Rightarrow>
            bindR (foldR (handle_trigger tid) (take G_EPOLL_MAX_EVENTS triggers) el1) (\<lambda>el2. Inr (el2, w1)))"

fun loop_rounds ::
  "('cb, 'w) runner \<Rightarrow> int \<Rightarrow> (32 word \<times> nat option) list option list \<Rightarrow>
   'cb event_loop \<times> 'w \<Rightarrow> ('cb event_loop \<times> 'w) res" where
  "loop_rounds run tid [] s = Inr s"
| "loop_rounds run tid (r # rs) s =
     (if m_stop_flag (fst s) then Inr s else bindR (loop_round run tid r s) (loop_rounds run tid rs))"

text \<open>\<open>EventLoop::loop\<close> for as many rounds as \<open>epoll_wait\<close> results are given.\<close>

definition loop ::
  "('cb, 'w) runner \<Rightarrow> int \<Rightarrow> (32 word \<times> nat option) list option list \<Rightarrow>
   'cb event_loop \<times> 'w \<Rightarrow> ('cb event_loop \<times> 'w) res" where
  "loop run tid rs = (\<lambda>(el, w). loop_rounds run tid rs (el\<lparr>m_is_looping := True\<rparr>, w))"

section \<open>The registrations\<close>

text \<open>What a sequence of \<open>epoll_ctl\<close> calls registers, descriptor by descriptor; \<open>None\<close> if a call
  is refused, because it adds what is there or changes what is not.\<close>

type_synonym ctl_call = "epoll_op \<times> int \<times> (32 word \<times> nat option) option"
type_synonym registrations = "int \<rightharpoonup> (32 word \<times> nat option) option"

fun ctl_step :: "ctl_call \<Rightarrow> registrations \<Rightarrow> registrations option" where
  "ctl_step (EPOLL_CTL_ADD, fd, e) m = (if m fd = None then Some (m(fd \<mapsto> e)) else None)"
| "ctl_step (EPOLL_CTL_MOD, fd, e) m = (if m fd = None then None else Some (m(fd \<mapsto> e)))"
| "ctl_step (EPOLL_CTL_DEL, fd, e) m = (if m fd = None then None else Some (m(fd := None)))"

definition ctl_replay :: "ctl_call list \<Rightarrow> registrations option" where
  "ctl_replay cs = fold (\<lambda>c m. Option.bind m (ctl_step c)) cs (Some Map.empty)"

lemma ctl_replay_snoc [simp]: "ctl_replay (cs @ [c]) = Option.bind (ctl_replay cs) (ctl_step c)"
  by (simp add: ctl_replay_def)

lemma ctl_replay_Nil [simp]: "ctl_replay [] = Some Map.empty"
  by (simp add: ctl_replay_def)

definition registered :: "'cb event_loop \<Rightarrow> registrations" where
  "registered el = (case ctl_replay (el_ctl el) of None \<Rightarrow> Map.empty | Some m \<Rightarrow> m)"

definition loop_inv :: "'cb event_loop \<Rightarrow> bool" where
  "loop_inv el \<longleftrightarrow> ctl_replay (el_ctl el) \<noteq> None \<and> dom (registered el) = m_listen_fds el"

lemma loop_invE:
  assumes "loop_inv el"
  obtains m where "ctl_replay (el_ctl el) = Some m" "registered el = m" "dom m = m_listen_fds el"
  using assms by (auto simp: loop_inv_def registered_def)

lemma loop_invI:
  "ctl_replay (el_ctl el) = Some m \<Longrightarrow> dom m = m_listen_fds el \<Longrightarrow> loop_inv el \<and> registered el = m"
  by (simp add: loop_inv_def registered_def)

lemma add_to_epoll_registers:
  assumes "loop_inv el"
  shows "loop_inv (add_to_epoll p el) \<and> registered (add_to_epoll p el) =
    (registered el)(m_fd (el_events el p) \<mapsto> Some (m_events (el_events el p), m_data_ptr (el_events el p)))"
proof -
  obtain m where m: "ctl_replay (el_ctl el) = Some m" "registered el = m" "dom m = m_listen_fds el"
    using assms by (rule loop_invE)
  have mem: "i \<in> m_listen_fds el \<longleftrightarrow> m i \<noteq> None" for i
    using m(3) by auto
  show ?thesis
    unfolding m(2)
    by (rule loop_invI) (use m(1,3) in \<open>auto simp: add_to_epoll_def Let_def mem\<close>)
qed

lemma delete_from_epoll_unregisters:
  assumes "loop_inv el"
  shows "loop_inv (delete_from_epoll fd el) \<and> registered (delete_from_epoll fd el) = (registered el)(fd := None)"
proof -
  obtain m where m: "ctl_replay (el_ctl el) = Some m" "registered el = m" "dom m = m_listen_fds el"
    using assms by (rule loop_invE)
  have mem: "i \<in> m_listen_fds el \<longleftrightarrow> m i \<noteq> None" for i
    using m(3) by auto
  show ?thesis
    unfolding m(2)
    by (rule loop_invI) (use m(1,3) in \<open>auto simp: delete_from_epoll_def mem\<close>)
qed

text \<open>
  The contract of a poller as a connection uses it: watching an event registers its descriptor
  with the event's present mask and pointer, unwatching removes the descriptor, and neither
  touches another descriptor.
\<close>

locale poller =
  fixes watch :: "'p \<Rightarrow> 'l \<Rightarrow> 'l"
    and unwatch :: "int \<Rightarrow> 'l \<Rightarrow> 'l"
    and watched :: "'l \<Rightarrow> int \<rightharpoonup> 'i"
    and good :: "'l \<Rightarrow> bool"
    and fd_of :: "'p \<Rightarrow> 'l \<Rightarrow> int"
    and interest_of :: "'p \<Rightarrow> 'l \<Rightarrow> 'i"
  assumes watch_law: "good l \<Longrightarrow>
      good (watch p l) \<and> watched (watch p l) = (watched l)(fd_of p l \<mapsto> interest_of p l)"
    and unwatch_law: "good l \<Longrightarrow> good (unwatch fd l) \<and> watched (unwatch fd l) = (watched l)(fd := None)"
begin

lemma watch_unwatch:
  assumes "good l" and "watched l (fd_of p l) = None"
  shows "watched (unwatch (fd_of p l) (watch p l)) = watched l"
  using watch_law [OF assms(1), of p] unwatch_law [of "watch p l" "fd_of p l"] assms(2)
  by (simp add: fun_upd_idem)

lemma unwatch_dom: "good l \<Longrightarrow> dom (watched (unwatch fd l)) = dom (watched l) - {fd}"
  using unwatch_law by simp

lemma watch_others: "good l \<Longrightarrow> fd \<noteq> fd_of p l \<Longrightarrow> watched (watch p l) fd = watched l fd"
  using watch_law by simp

end

definition event_fd :: "nat \<Rightarrow> 'cb event_loop \<Rightarrow> int" where
  "event_fd p el = m_fd (el_events el p)"

definition event_interest :: "nat \<Rightarrow> 'cb event_loop \<Rightarrow> (32 word \<times> nat option) option" where
  "event_interest p el = Some (m_events (el_events el p), m_data_ptr (el_events el p))"

interpretation ep: poller add_to_epoll delete_from_epoll registered loop_inv event_fd event_interest
  using add_to_epoll_registers delete_from_epoll_unregisters
  by unfold_locales (auto simp: event_fd_def event_interest_def)

section \<open>Epoll and the set of descriptors stay in step\<close>

text \<open>What code outside the loop, and the callbacks inside it, can do to a loop: change an event's
  interest (never its descriptor), add and delete events from any thread, queue tasks, add
  timers, stop.\<close>

inductive loop_step :: "'cb event_loop \<Rightarrow> 'cb event_loop \<Rightarrow> bool" where
  interest: "m_fd ev = m_fd (el_events el p) \<Longrightarrow> loop_step el (el\<lparr>el_events := (el_events el)(p := ev)\<rparr>)"
| add_event: "loop_step el (add_epoll_event tid p el)"
| delete_event: "loop_step el (delete_epoll_event tid fd el)"
| queue: "loop_step el (add_task t w el)"
| timer: "loop_step el (el\<lparr>m_timer := tm\<rparr>)"
| stop: "loop_step el (stop el)"
| run_add: "loop_step el (add_to_epoll p el)"
| run_delete: "loop_step el (delete_from_epoll fd el)"
| take_tasks: "loop_step el (el\<lparr>m_pending_tasks := []\<rparr>)"
| start: "loop_step el (el\<lparr>m_is_looping := True\<rparr>)"

inductive_cases loop_stepE: "loop_step el el'"

lemma loop_inv_cong:
  "el_ctl el' = el_ctl el \<Longrightarrow> m_listen_fds el' = m_listen_fds el \<Longrightarrow> loop_inv el \<Longrightarrow> loop_inv el'"
  by (simp add: loop_inv_def registered_def)

lemma add_task_fields [simp]:
  "el_ctl (add_task t w el) = el_ctl el" "m_listen_fds (add_task t w el) = m_listen_fds el"
  "m_pending_tasks (add_task t w el) = m_pending_tasks el @ [t]"
  "m_thread_id (add_task t w el) = m_thread_id el" "el_events (add_task t w el) = el_events el"
  by (simp_all add: add_task_def wake_up_def Let_def)

lemma loop_step_inv:
  assumes "loop_step el el'" and "loop_inv el"
  shows "loop_inv el'"
  using assms
proof (cases rule: loop_step.cases)
  case (add_event tid p)
  then show ?thesis
    using assms(2) ep.watch_law [of el p]
    by (auto simp: add_epoll_event_def intro: loop_inv_cong [OF _ _ assms(2)])
next
  case (delete_event tid fd)
  then show ?thesis
    using assms(2) ep.unwatch_law [of el fd]
    by (auto simp: delete_epoll_event_def intro: loop_inv_cong [OF _ _ assms(2)])
next
  case (run_add p)
  then show ?thesis using assms(2) ep.watch_law [of el p] by simp
next
  case (run_delete fd)
  then show ?thesis using assms(2) ep.unwatch_law [of el fd] by simp
qed (auto simp: stop_def wake_up_def intro: loop_inv_cong [OF _ _ assms(2)])

lemma loop_steps_inv: "loop_step\<^sup>*\<^sup>* el el' \<Longrightarrow> loop_inv el \<Longrightarrow> loop_inv el'"
  by (induction rule: rtranclp_induct) (auto intro: loop_step_inv)

lemma run_task_steps:
  assumes "\<And>cb el w. loop_step\<^sup>*\<^sup>* el (fst (run cb (el, w)))"
  shows "loop_step\<^sup>*\<^sup>* el (fst (run_task run t (el, w)))"
proof (cases t)
  case (Some task)
  then show ?thesis using assms by (cases task) (auto intro: loop_step.intros)
qed simp

lemma run_tasks_steps:
  assumes "\<And>cb el w. loop_step\<^sup>*\<^sup>* el (fst (run cb (el, w)))"
  shows "loop_step\<^sup>*\<^sup>* el (fst (fold (run_task run) ts (el, w)))"
proof (induction ts arbitrary: el w)
  case (Cons t ts)
  obtain el1 w1 where "run_task run t (el, w) = (el1, w1)" by fastforce
  then show ?case
    using run_task_steps [where run = run and el = el and t = t and w = w, OF assms] Cons.IH [of el1 w1]
    by (simp add: rtranclp_trans)
qed simp

lemma steps_add_task: "loop_step\<^sup>*\<^sup>* el el1 \<Longrightarrow> loop_step\<^sup>*\<^sup>* el (add_task t w el1)"
  and steps_delete_event: "loop_step\<^sup>*\<^sup>* el el1 \<Longrightarrow> loop_step\<^sup>*\<^sup>* el (delete_epoll_event tid fd el1)"
  by (auto intro: rtranclp.rtrancl_into_rtrancl loop_step.queue loop_step.delete_event)

lemma handle_trigger_steps:
  "handle_trigger tid (e, d) el = Inr el' \<Longrightarrow> loop_step\<^sup>*\<^sup>* el el'"
  by (auto simp: handle_trigger_def Let_def split: option.splits if_splits
      intro!: steps_add_task steps_delete_event)

lemma triggers_steps: "foldR (handle_trigger tid) ts el = Inr el' \<Longrightarrow> loop_step\<^sup>*\<^sup>* el el'"
proof (induction ts arbitrary: el)
  case (Cons t ts)
  then obtain el1 where "handle_trigger tid t el = Inr el1" "foldR (handle_trigger tid) ts el1 = Inr el'"
    by (auto simp: fault_simps)
  then show ?case using handle_trigger_steps [of tid "fst t" "snd t" el el1] Cons.IH by fastforce
qed simp

lemma loop_round_steps:
  assumes "\<And>cb el w. loop_step\<^sup>*\<^sup>* el (fst (run cb (el, w)))"
    and "loop_round run tid r (el, w) = Inr (el', w')"
  shows "loop_step\<^sup>*\<^sup>* el el'"
proof -
  obtain el1 w1 where one: "fold (run_task run) (m_pending_tasks el) (el\<lparr>m_pending_tasks := []\<rparr>, w) = (el1, w1)"
    by fastforce
  have "loop_step\<^sup>*\<^sup>* el (el\<lparr>m_pending_tasks := []\<rparr>)" by (intro r_into_rtranclp loop_step.take_tasks)
  moreover have "loop_step\<^sup>*\<^sup>* (el\<lparr>m_pending_tasks := []\<rparr>) el1"
    using run_tasks_steps [where run = run, OF assms(1)] one by (metis fst_conv)
  moreover have "loop_step\<^sup>*\<^sup>* el1 el'"
    using assms(2) one triggers_steps
    by (auto simp: loop_round_def fault_simps split: option.splits)
  ultimately show ?thesis by (meson rtranclp_trans)
qed

lemma loop_rounds_steps:
  assumes "\<And>cb el w. loop_step\<^sup>*\<^sup>* el (fst (run cb (el, w)))"
  shows "loop_rounds run tid rs (el, w) = Inr (el', w') \<Longrightarrow> loop_step\<^sup>*\<^sup>* el el'"
proof (induction rs arbitrary: el w)
  case (Cons r rs)
  show ?case
  proof (cases "m_stop_flag el")
    case False
    then obtain el1 w1 where "loop_round run tid r (el, w) = Inr (el1, w1)"
        "loop_rounds run tid rs (el1, w1) = Inr (el', w')"
      using Cons.prems by (auto simp: fault_simps)
    then show ?thesis
      using loop_round_steps [where run = run, OF assms, of tid r el w el1 w1] Cons.IH by (meson rtranclp_trans)
  qed (use Cons.prems in simp)
qed simp

lemma EventLoop_new_inv:
  assumes "EventLoop_new ex tid epfd wk tmr heap events = Inr el"
  shows "loop_inv el"
proof -
  obtain wake_addr efd drain_cb timer_addr tfd timer_cb where
    p: "wk = (wake_addr, efd, drain_cb)" "tmr = (timer_addr, tfd, timer_cb)"
    by (cases wk; cases tmr) auto
  let ?el0 = "\<lparr>m_thread_id = tid, m_epoll_fd = epfd, m_wakeup_fd = 0, m_wakeup_fd_event = 0, m_stop_flag = False,
        m_listen_fds = {}, m_pending_tasks = [], m_timer = Timer_new timer_addr tfd timer_cb heap,
        m_is_looping = False, el_events = events, el_ctl = [], el_wakeups = []\<rparr>"
  let ?el1 = "?el0\<lparr>m_wakeup_fd := efd, m_wakeup_fd_event := wake_addr,
        el_events := events(wake_addr := listen wake_addr IN_EVENT (Some drain_cb) None (FdEvent_new efd))\<rparr>"
  let ?el2 = "add_to_epoll wake_addr ?el1"
  let ?el3 = "?el2\<lparr>m_timer := Timer_new timer_addr tfd timer_cb heap,
        el_events := (el_events ?el2)(timer_addr := tm_fd_event (Timer_new timer_addr tfd timer_cb heap))\<rparr>"
  have "m_thread_id ?el2 = tid" by (simp add: add_to_epoll_def Let_def)
  then have el: "el = add_to_epoll timer_addr ?el3"
    using assms unfolding p
    by (simp add: EventLoop_new_def init_wakeup_fd_event_def init_timer_def Let_def add_epoll_event_def
        is_in_current_loop_thread_def split: if_splits)
  have "loop_inv ?el1" by (simp add: loop_inv_def registered_def)
  then have "loop_inv ?el2" using ep.watch_law by blast
  then have "loop_inv ?el3" by (rule loop_inv_cong [rotated 2]) simp_all
  then show ?thesis unfolding el using ep.watch_law by blast
qed

text \<open>C13 (Registrations stay in step with epoll).
  From a newly constructed loop, after any operations from any thread and any rounds of the loop
  with callbacks that act on the loop through its operations, every \<open>epoll_ctl\<close> call made was
  legal: no descriptor was added twice, none modified or deleted that was not there; and
  \<open>m_listen_fds\<close> is exactly the set of descriptors registered.\<close>

theorem loop_keeps_epoll_in_step:
  assumes "EventLoop_new ex tid epfd wk tmr heap events = Inr el0" and "loop_step\<^sup>*\<^sup>* el0 el"
    and "\<And>cb el w. loop_step\<^sup>*\<^sup>* el (fst (run cb (el, w)))"
    and "loop run tid' rs (el, w) = Inr (el', w')"
  shows "\<exists>m. ctl_replay (el_ctl el') = Some m \<and> dom m = m_listen_fds el'"
proof -
  have "loop_step\<^sup>*\<^sup>* el (el\<lparr>m_is_looping := True\<rparr>)" by (intro r_into_rtranclp loop_step.start)
  then have "loop_step\<^sup>*\<^sup>* el0 el'"
    using assms(2,4) loop_rounds_steps [where run = run, OF assms(3)]
    by (fastforce simp: loop_def intro: rtranclp_trans)
  then have "loop_inv el'" using loop_steps_inv EventLoop_new_inv [OF assms(1)] by blast
  then show ?thesis by (auto elim: loop_invE)
qed

definition sample_loop :: "nat event_loop res" where
  "sample_loop = EventLoop_new False 1 5 (0, 6, 60) (1, 7, 70)
     (\<lambda>_. \<lparr>m_arrive_time = 0, m_interval = 0, m_is_repeat = False, m_is_cancel = False, m_task = None\<rparr>)
     (\<lambda>_. FdEvent_new 9)"

definition the_sample_loop :: "nat event_loop" where
  "the_sample_loop = (case sample_loop of Inr el \<Rightarrow> el | Inl _ \<Rightarrow> undefined)"

lemma sample_loop: "sample_loop = Inr the_sample_loop"
  by (simp add: the_sample_loop_def sample_loop_def EventLoop_new_def init_wakeup_fd_event_def
      split: sum.splits)

lemma the_sample_loop_fields:
  "m_thread_id the_sample_loop = 1" "m_pending_tasks the_sample_loop = []"
  "m_stop_flag the_sample_loop = False" "el_events the_sample_loop 2 = FdEvent_new 9"
  by (simp_all add: the_sample_loop_def sample_loop_def EventLoop_new_def init_wakeup_fd_event_def init_timer_def Let_def
      add_epoll_event_def is_in_current_loop_thread_def add_to_epoll_def listen_def FdEvent_new_def
      Timer_new_def)

lemma loop_keeps_epoll_in_step_witness:
  "\<exists>el' m. loop (\<lambda>_ s. s) 1 [None] (add_epoll_event 4 2 the_sample_loop, ()) = Inr (el', ()) \<and>
    ctl_replay (el_ctl el') = Some m \<and> dom m = m_listen_fds el'"
proof -
  obtain el' where l: "loop (\<lambda>_ s. s) 1 [None] (add_epoll_event 4 2 the_sample_loop, ()) = Inr (el', ())"
    by (cases "m_stop_flag (add_epoll_event 4 2 the_sample_loop)")
      (auto simp: loop_def loop_round_def case_prod_unfold)
  have "loop_step\<^sup>*\<^sup>* the_sample_loop (add_epoll_event 4 2 the_sample_loop)"
    by (intro r_into_rtranclp loop_step.add_event)
  with l show ?thesis
    using loop_keeps_epoll_in_step [OF sample_loop [unfolded sample_loop_def], where run = "\<lambda>_ s. s"] by auto
qed

section \<open>The order of tasks\<close>

fun queued_calls :: "'cb task option list \<Rightarrow> 'cb list" where
  "queued_calls [] = []"
| "queued_calls (Some (Call cb) # ts) = cb # queued_calls ts"
| "queued_calls (_ # ts) = queued_calls ts"

lemma queued_calls_append [simp]: "queued_calls (xs @ ys) = queued_calls xs @ queued_calls ys"
  by (induction xs rule: queued_calls.induct) auto

text \<open>A runner that records which callback ran; what else the callback does to the loop is
  arbitrary, except that it can only append tasks.\<close>

definition recording :: "('cb, 'cb list) runner \<Rightarrow> bool" where
  "recording run \<longleftrightarrow> (\<forall>cb el log. snd (run cb (el, log)) = log @ [cb] \<and>
     prefix (m_pending_tasks el) (m_pending_tasks (fst (run cb (el, log)))))"

lemma run_tasks_record:
  assumes "recording run"
  shows "snd (fold (run_task run) ts (el, log)) = log @ queued_calls ts \<and>
    prefix (m_pending_tasks el) (m_pending_tasks (fst (fold (run_task run) ts (el, log))))"
proof (induction ts arbitrary: el log)
  case (Cons t ts)
  obtain el1 log1 where one: "run_task run t (el, log) = (el1, log1)" by fastforce
  have "log1 = log @ queued_calls [t] \<and> prefix (m_pending_tasks el) (m_pending_tasks el1)"
  proof (cases t)
    case None
    then show ?thesis using one by simp
  next
    case (Some task)
    then show ?thesis
    proof (cases task)
      case (Call cb)
      have "snd (run cb (el, log)) = log @ [cb] \<and>
          prefix (m_pending_tasks el) (m_pending_tasks (fst (run cb (el, log))))"
        using assms by (simp add: recording_def)
      then show ?thesis using one Some Call by simp
    qed (use one Some in \<open>auto simp: add_to_epoll_def delete_from_epoll_def Let_def\<close>)
  qed
  moreover have "queued_calls (t # ts) = queued_calls [t] @ queued_calls ts"
    using queued_calls_append [of "[t]" ts] by simp
  ultimately show ?case
    using Cons.IH [of el1 log1] one by (auto intro: prefix_order.trans)
qed simp

lemma pending_add_task: "prefix xs (m_pending_tasks el) \<Longrightarrow> prefix xs (m_pending_tasks (add_task t w el))"
  and pending_delete: "prefix xs (m_pending_tasks el) \<Longrightarrow> prefix xs (m_pending_tasks (delete_epoll_event tid fd el))"
  by (auto simp: delete_epoll_event_def delete_from_epoll_def)

lemma handle_trigger_pending:
  "handle_trigger tid t el = Inr el' \<Longrightarrow> prefix (m_pending_tasks el) (m_pending_tasks el')"
  by (cases t) (auto simp: handle_trigger_def Let_def simp del: add_task_fields
      split: option.splits if_splits intro!: pending_add_task pending_delete)

lemma triggers_pending:
  "foldR (handle_trigger tid) ts el = Inr el' \<Longrightarrow> prefix (m_pending_tasks el) (m_pending_tasks el')"
proof (induction ts arbitrary: el)
  case (Cons t ts)
  then obtain el1 where "handle_trigger tid t el = Inr el1" "foldR (handle_trigger tid) ts el1 = Inr el'"
    by (auto simp: fault_simps)
  then show ?case using handle_trigger_pending Cons.IH by (blast intro: prefix_order.trans)
qed simp

lemma loop_round_order:
  assumes "recording run" and "loop_round run tid r (el, log) = Inr (el', log')"
  shows "log' = log @ queued_calls (m_pending_tasks el)"
proof -
  obtain el1 log1 where one: "fold (run_task run) (m_pending_tasks el) (el\<lparr>m_pending_tasks := []\<rparr>, log) = (el1, log1)"
    by fastforce
  then show ?thesis
    using run_tasks_record [OF assms(1), of "m_pending_tasks el" "el\<lparr>m_pending_tasks := []\<rparr>" log] assms(2)
    by (auto simp: loop_round_def fault_simps split: option.splits)
qed



section \<open>Requests from other threads and error events\<close>

text \<open>Lemma (A request from another thread is the direct call, later).
  When another thread adds or deletes an event of an idle loop, epoll is not touched by that thread:
  one task is queued and one wake-up written, and the loop's next round has exactly the effect of
  the call made by the loop's own thread.\<close>

theorem cross_thread_request:
  assumes "m_thread_id el \<noteq> tid" and "m_pending_tasks el = []"
  shows "loop_round run t None (add_epoll_event tid p el, w) =
      Inr (add_epoll_event (m_thread_id el) p (wake_up el), w) \<and>
    loop_round run t None (delete_epoll_event tid fd el, w) =
      Inr (delete_epoll_event (m_thread_id el) fd (wake_up el), w) \<and>
    el_ctl (add_epoll_event tid p el) = el_ctl el \<and> el_ctl (delete_epoll_event tid fd el) = el_ctl el"
  using assms
  by (cases el) (simp add: loop_round_def add_epoll_event_def delete_epoll_event_def
      is_in_current_loop_thread_def add_task_def wake_up_def Let_def)

lemma cross_thread_request_witness:
  "loop_round (\<lambda>_ s. s) 1 None (add_epoll_event 4 2 the_sample_loop, ()) =
      Inr (add_epoll_event 1 2 (wake_up the_sample_loop), ()) \<and>
    loop_round (\<lambda>_ s. s) 1 None (delete_epoll_event 4 6 the_sample_loop, ()) =
      Inr (delete_epoll_event 1 6 (wake_up the_sample_loop), ()) \<and>
    el_ctl (add_epoll_event 4 2 the_sample_loop) = el_ctl the_sample_loop \<and>
    el_ctl (delete_epoll_event 4 6 the_sample_loop) = el_ctl the_sample_loop"
  using cross_thread_request [of the_sample_loop 4 "\<lambda>_ s. s" 1 2 "()" 6] the_sample_loop_fields by simp

text \<open>Lemma (An error event runs the write callback).
  For an event that reports \<open>EPOLLERR\<close> alone and has an error callback, the loop removes the
  descriptor and queues the event's write callback; the error callback itself is never queued.\<close>

theorem error_event_queues_write_callback:
  assumes "el_events el p = ev" and "m_error_callback ev = Some x" and "m_thread_id el = tid"
  shows "handle_trigger tid (EPOLLERR, Some p) el =
    Inr (add_task (map_option Call (m_write_callback ev)) False (delete_from_epoll (m_fd ev) el))"
proof -
  have "EPOLLERR AND EPOLLIN = 0" "EPOLLERR AND EPOLLOUT = 0" "EPOLLERR AND EPOLLERR \<noteq> 0"
    by (simp_all add: EPOLLERR_def EPOLLIN_def EPOLLOUT_def)
  then show ?thesis
    using assms by (simp add: handle_trigger_def Let_def delete_epoll_event_def is_in_current_loop_thread_def)
qed

lemma error_event_queues_write_callback_witness:
  "handle_trigger 1 (EPOLLERR, Some 2)
     (the_sample_loop\<lparr>el_events := \<lambda>_. listen 2 OUT_EVENT (Some 10) (Some 20) (FdEvent_new 9)\<rparr>) =
   Inr (add_task (Some (Call 10)) False (delete_from_epoll 9
     (the_sample_loop\<lparr>el_events := \<lambda>_. listen 2 OUT_EVENT (Some 10) (Some 20) (FdEvent_new 9)\<rparr>)))"
  using error_event_queues_write_callback
    [of "the_sample_loop\<lparr>el_events := \<lambda>_. listen 2 OUT_EVENT (Some 10) (Some 20) (FdEvent_new 9)\<rparr>" 2
      "listen 2 OUT_EVENT (Some 10) (Some 20) (FdEvent_new 9)" 20 1] the_sample_loop_fields
  by (simp add: listen_def FdEvent_new_def)

text \<open>Lemma (The current event loop is handed out once).
  Of two successive calls of \<open>Get_Current_Eventloop\<close> on a thread the second always returns a
  newly created loop: the first call moved the thread's loop out and left nothing behind.\<close>

theorem current_eventloop_not_shared:
  "\<exists>el slot. Get_Current_Eventloop slot0 fresh1 = (el, slot) \<and>
    Get_Current_Eventloop slot fresh2 = (fresh2, None)"
  by (cases slot0) (simp_all add: Get_Current_Eventloop_def)

end
