(* ===== verification/Tcp_Connection.thy ===== *)
theory Tcp_Connection
  imports Decoder Rpc_Dispatcher Event_Loop
begin

text \<open>
  A connection \<open>TcpConnection\<close> (\<open>src/net/tcp/tcp_connection.cc\<close>): its state machine, the loop that
  reads a socket into the in buffer, the execution of the messages decoded from it (requests on
  a server, responses on a client) and the loop that writes the out buffer. The socket is a
  parameter: what each \<open>read\<close> and \<open>write\<close> returns in a socket state of any type.

  The lemmas show that a server answers every request of a batch, in order, and sends the
  answers; that a client runs the callbacks of its responses, in order; what it takes for received bytes to be kept; that the vector of the in buffer never
  grows; that sent bytes are never removed from the out buffer; and which states are final.
\<close>

section \<open>State\<close>

datatype tcp_state = NotConnected | Connected | HalfClosing | Closed

datatype connection_type = TcpConnectionByServer | TcpConnectionByClient

text \<open>\<open>'d\<close> is the type of the callbacks that take a message; \<open>conn_fd_event\<close> is the address of the
  connection's \<open>FdEvent\<close> and \<open>conn_on_read\<close>, \<open>conn_on_write\<close> the callbacks bound to this object.
  The coder is always a \<open>ProtobufCoder\<close>.\<close>

record ('cb, 'd) tcp_connection =
  conn_local_addr :: "ipv4_net_addr option"
  conn_peer_addr :: "ipv4_net_addr option"
  m_in_buffer :: tcp_buffer
  m_out_buffer :: tcp_buffer
  conn_fd_event :: nat
  m_state :: tcp_state
  conn_fd :: int
  m_connection_type :: connection_type
  m_write_dones :: "(protocol \<times> 'd) list"
  m_read_dones :: "string \<rightharpoonup> 'd"
  conn_on_read :: 'cb
  conn_on_write :: 'cb

type_synonym ('cb, 'd) conn_loop = "('cb, 'd) tcp_connection \<times> 'cb event_loop"

section \<open>Interest and state\<close>

definition set_state :: "tcp_state \<Rightarrow> ('cb, 'd) tcp_connection \<Rightarrow> ('cb, 'd) tcp_connection" where
  "set_state s c = c\<lparr>m_state := s\<rparr>"

definition set_connection_type :: "connection_type \<Rightarrow> ('cb, 'd) tcp_connection \<Rightarrow> ('cb, 'd) tcp_connection" where
  "set_connection_type t c = c\<lparr>m_connection_type := t\<rparr>"

definition update_event :: "nat \<Rightarrow> ('cb fd_event \<Rightarrow> 'cb fd_event) \<Rightarrow> 'cb event_loop \<Rightarrow> 'cb event_loop" where
  "update_event p f el = el\<lparr>el_events := (el_events el)(p := f (el_events el p))\<rparr>"

definition listen_write :: "int \<Rightarrow> ('cb, 'd) conn_loop \<Rightarrow> ('cb, 'd) conn_loop" where
  "listen_write tid = (\<lambda>(c, el).
     let p = conn_fd_event c
     in (c, add_epoll_event tid p (update_event p (listen p OUT_EVENT (Some (conn_on_write c)) None) el)))"

definition listen_read :: "int \<Rightarrow> ('cb, 'd) conn_loop \<Rightarrow> ('cb, 'd) conn_loop" where
  "listen_read tid = (\<lambda>(c, el).
     let p = conn_fd_event c
     in (c, add_epoll_event tid p (update_event p (listen p IN_EVENT (Some (conn_on_read c)) None) el)))"

definition push_send_message :: "protocol \<Rightarrow> 'd \<Rightarrow> ('cb, 'd) tcp_connection \<Rightarrow> ('cb, 'd) tcp_connection" where
  "push_send_message message done_cb c = c\<lparr>m_write_dones := m_write_dones c @ [(message, done_cb)]\<rparr>"

text \<open>\<open>map::insert\<close> keeps an entry that is already there.\<close>

definition push_read_message :: "string \<Rightarrow> 'd \<Rightarrow> ('cb, 'd) tcp_connection \<Rightarrow> ('cb, 'd) tcp_connection" where
  "push_read_message req_id done_cb c =
     (if m_read_dones c req_id = None then c\<lparr>m_read_dones := (m_read_dones c)(req_id \<mapsto> done_cb)\<rparr> else c)"

definition clear :: "int \<Rightarrow> ('cb, 'd) conn_loop \<Rightarrow> ('cb, 'd) conn_loop" where
  "clear tid = (\<lambda>(c, el).
     if m_state c = Closed then (c, el)
     else let p = conn_fd_event c;
              el1 = update_event p (cancel OUT_EVENT) (update_event p (cancel IN_EVENT) el)
          in (c\<lparr>m_state := Closed\<rparr>, delete_epoll_event tid (m_fd (el_events el1 p)) el1))"

text \<open>The flag tells whether \<open>::shutdown\<close> is called on the socket.\<close>

definition shutdown :: "('cb, 'd) tcp_connection \<Rightarrow> ('cb, 'd) tcp_connection \<times> bool" where
  "shutdown c =
     (if m_state c = Closed \<or> m_state c = NotConnected then (c, False)
      else (c\<lparr>m_state := HalfClosing\<rparr>, True))"

definition TcpConnection_new ::
  "int \<Rightarrow> nat \<Rightarrow> int \<Rightarrow> int \<Rightarrow> ipv4_net_addr option \<Rightarrow> ipv4_net_addr option \<Rightarrow> connection_type \<Rightarrow>
   'cb \<Rightarrow> 'cb \<Rightarrow> 'cb event_loop \<Rightarrow> ('cb, 'd) conn_loop res" where
  "TcpConnection_new tid fd_event fd buffer_size local_addr peer_addr type on_read_cb on_write_cb el =
     bindR (TcpBuffer_new buffer_size) (\<lambda>in_b.
     bindR (TcpBuffer_new buffer_size) (\<lambda>out_b.
     let c = \<lparr>conn_local_addr = local_addr, conn_peer_addr = peer_addr, m_in_buffer = in_b, m_out_buffer = out_b,
              conn_fd_event = fd_event, m_state = NotConnected, conn_fd = fd, m_connection_type = type,
              m_write_dones = [], m_read_dones = Map.empty, conn_on_read = on_read_cb, conn_on_write = on_write_cb\<rparr>
     in Inr (if type = TcpConnectionByServer then listen_read tid (c, el) else (c, el))))"

section \<open>Reading\<close>

datatype read_result = ReadData string | ReadEof | ReadAgain | ReadError

type_synonym 's reader = "'s \<Rightarrow> int \<Rightarrow> read_result \<times> 's"

text \<open>Room for the next \<open>read\<close>: only a full vector is enlarged, to twice its size.\<close>

definition make_room :: "tcp_buffer \<Rightarrow> tcp_buffer res" where
  "make_room b =
     (if can_write_bytes_num b = 0 then resize_buffer (to_i32 (2 * int (length (m_buffer b)))) b else Inr b)"

text \<open>The bytes land behind the write index and are then committed.\<close>

definition receive :: "string \<Rightarrow> tcp_buffer \<Rightarrow> tcp_buffer res" where
  "receive ds b =
     bindR (mem_write (m_buffer b) (m_write_index b) ds) (\<lambda>v.
     adjust_write_index (int (length ds)) (b\<lparr>m_buffer := v\<rparr>))"

text \<open>One round: \<open>None\<close> to go on, \<open>Some close\<close> to leave the loop.\<close>

definition read_round :: "'s reader \<Rightarrow> 's \<times> tcp_buffer \<Rightarrow> (bool option \<times> 's \<times> tcp_buffer) res" where
  "read_round rd = (\<lambda>(s, b).
     bindR (make_room b) (\<lambda>b1.
     let read_count = can_write_bytes_num b1
     in case rd s read_count of
          (ReadData ds, s') \<Rightarrow>
            bindR (receive ds b1) (\<lambda>b2.
            Inr (if int (length ds) < read_count then Some False else None, s', b2))
        | (ReadEof, s') \<Rightarrow> Inr (Some True, s', b1)
        | (ReadAgain, s') \<Rightarrow> Inr (Some False, s', b1)
        | (ReadError, s') \<Rightarrow> Inr (None, s', b1)))"

partial_function (option) read_loop ::
  "'s reader \<Rightarrow> 's \<times> tcp_buffer \<Rightarrow> (bool \<times> 's \<times> tcp_buffer) res option" where
  "read_loop rd s =
     (case read_round rd s of
        Inl e \<Rightarrow> Some (Inl e)
      | Inr (r, s') \<Rightarrow> (case r of None \<Rightarrow> read_loop rd s' | Some close \<Rightarrow> Some (Inr (close, s'))))"

section \<open>Executing what was read\<close>

text \<open>What a connection needs of its surroundings: the log level, the registry of services, and what
  a message callback does.\<close>

record ('cb, 'd, 'm, 'req, 'rsp) conn_env =
  env_debug :: bool
  env_services :: "('m, 'req, 'rsp) registry"
  env_run_done :: "'d \<Rightarrow> protocol \<Rightarrow> ('cb, 'd) conn_loop \<Rightarrow> ('cb, 'd) conn_loop"

definition dispatch_one ::
  "('cb, 'd, 'm, 'req, 'rsp) conn_env \<Rightarrow> ('cb, 'd) tcp_connection \<Rightarrow> protocol \<Rightarrow> protocol list \<Rightarrow> protocol list res" where
  "dispatch_one env c request replay_result =
     bindR (dispatcher (env_debug env) (env_services env) request (ProtobufP ProtobufProtocol_new)
              (conn_local_addr c) (conn_peer_addr c)) (\<lambda>rsp.
     Inr (replay_result @ [ProtobufP rsp]))"

definition excute_server ::
  "('cb, 'd, 'm, 'req, 'rsp) conn_env \<Rightarrow> int \<Rightarrow> ('cb, 'd) conn_loop \<Rightarrow> ('cb, 'd) conn_loop res option" where
  "excute_server env tid = (\<lambda>(c, el).
     bindO (ProtobufCoder_decode [] (m_in_buffer c)) (\<lambda>(result, in_b).
     Some (bindR (foldR (dispatch_one env c) result []) (\<lambda>replay_result.
           bindR (ProtobufCoder_encode replay_result (m_out_buffer c)) (\<lambda>(_, out_b).
           Inr (listen_write tid (c\<lparr>m_in_buffer := in_b, m_out_buffer := out_b\<rparr>, el)))))))"

definition complete_read ::
  "('cb, 'd, 'm, 'req, 'rsp) conn_env \<Rightarrow> protocol \<Rightarrow> ('cb, 'd) conn_loop \<Rightarrow> ('cb, 'd) conn_loop" where
  "complete_read env p = (\<lambda>(c, el).
     case m_read_dones c (protocol_msg_id p) of
       None \<Rightarrow> (c, el)
     | Some done_cb \<Rightarrow> env_run_done env done_cb p (c, el))"

definition excute_client ::
  "('cb, 'd, 'm, 'req, 'rsp) conn_env \<Rightarrow> ('cb, 'd) conn_loop \<Rightarrow> ('cb, 'd) conn_loop res option" where
  "excute_client env = (\<lambda>(c, el).
     bindO (ProtobufCoder_decode [] (m_in_buffer c)) (\<lambda>(result, in_b).
     Some (Inr (fold (complete_read env) result (c\<lparr>m_in_buffer := in_b\<rparr>, el)))))"

definition excute ::
  "('cb, 'd, 'm, 'req, 'rsp) conn_env \<Rightarrow> int \<Rightarrow> ('cb, 'd) conn_loop \<Rightarrow> ('cb, 'd) conn_loop res option" where
  "excute env tid s =
     (if m_connection_type (fst s) = TcpConnectionByServer then excute_server env tid s
      else excute_client env s)"

definition on_read ::
  "('cb, 'd, 'm, 'req, 'rsp) conn_env \<Rightarrow> int \<Rightarrow> 's reader \<Rightarrow> 's \<Rightarrow> ('cb, 'd) conn_loop \<Rightarrow>
   (('cb, 'd) conn_loop \<times> 's) res option" where
  "on_read env tid rd s = (\<lambda>(c, el).
     if m_state c \<noteq> Connected then Some (Inr ((c, el), s))
     else bindO (read_loop rd (s, m_in_buffer c)) (\<lambda>(is_close, s', in_b).
          let c1 = c\<lparr>m_in_buffer := in_b\<rparr>
          in if is_close then Some (Inr (clear tid (c1, el), s'))
             else bindO (excute env tid (c1, el)) (\<lambda>r. Some (Inr (r, s')))))"

section \<open>Writing\<close>

datatype write_result = Wrote int | WriteAgain | WriteError

type_synonym 's writer = "'s \<Rightarrow> string \<Rightarrow> write_result \<times> 's"

text \<open>One round of the write loop; \<open>None\<close> to go on. The out buffer is only read.\<close>

definition write_round :: "'s writer \<Rightarrow> tcp_buffer \<Rightarrow> 's \<Rightarrow> (bool option \<times> 's) res" where
  "write_round wr out_b s =
     (if can_read_bytes_num out_b = 0 then Inr (Some True, s)
      else let sz = can_read_bytes_num out_b
           in bindR (mem_read (m_buffer out_b) (m_read_index out_b) sz) (\<lambda>data.
              case wr s data of
                (Wrote n, s') \<Rightarrow> Inr (if n \<ge> sz then Some True else None, s')
              | (WriteAgain, s') \<Rightarrow> Inr (Some False, s')
              | (WriteError, s') \<Rightarrow> Inr (None, s')))"

partial_function (option) write_loop ::
  "'s writer \<Rightarrow> tcp_buffer \<Rightarrow> 's \<Rightarrow> (bool \<times> 's) res option" where
  "write_loop wr out_b s =
     (case write_round wr out_b s of
        Inl e \<Rightarrow> Some (Inl e)
      | Inr (r, s') \<Rightarrow> (case r of None \<Rightarrow> write_loop wr out_b s' | Some all_done \<Rightarrow> Some (Inr (all_done, s'))))"

definition encode_pending :: "('cb, 'd) tcp_connection \<Rightarrow> ('cb, 'd) tcp_connection res" where
  "encode_pending c =
     (if m_connection_type c = TcpConnectionByClient
      then bindR (ProtobufCoder_encode (map fst (m_write_dones c)) (m_out_buffer c)) (\<lambda>(messages, out_b).
           Inr (c\<lparr>m_out_buffer := out_b, m_write_dones := zip messages (map snd (m_write_dones c))\<rparr>))
      else Inr c)"

text \<open>A callback that appends to the vector it is called from may free itself: a fault.\<close>

definition complete_write ::
  "('cb, 'd, 'm, 'req, 'rsp) conn_env \<Rightarrow> protocol \<times> 'd \<Rightarrow> ('cb, 'd) conn_loop \<Rightarrow> ('cb, 'd) conn_loop res" where
  "complete_write env = (\<lambda>(message, done_cb) s.
     let s' = env_run_done env done_cb message s
     in bindR (checkR (m_write_dones (fst s') = m_write_dones (fst s)) OutOfBounds) (\<lambda>_. Inr s'))"

definition on_write ::
  "('cb, 'd, 'm, 'req, 'rsp) conn_env \<Rightarrow> int \<Rightarrow> 's writer \<Rightarrow> 's \<Rightarrow> ('cb, 'd) conn_loop \<Rightarrow>
   (('cb, 'd) conn_loop \<times> 's) res option" where
  "on_write env tid wr s = (\<lambda>(c, el).
     if m_state c \<noteq> Connected then Some (Inr ((c, el), s))
     else bindO (Some (encode_pending c)) (\<lambda>c1.
          bindO (write_loop wr (m_out_buffer c1) s) (\<lambda>(is_write_all, s').
          let p = conn_fd_event c1;
              el1 = (if is_write_all then add_epoll_event tid p (update_event p (cancel OUT_EVENT) el) else el)
          in Some (if m_connection_type c1 = TcpConnectionByClient
                   then bindR (foldR (complete_write env) (m_write_dones c1) (c1, el1)) (\<lambda>(c2, el2).
                        Inr ((c2\<lparr>m_write_dones := []\<rparr>, el2), s'))
                   else Inr ((c1, el1), s')))))"

section \<open>The in buffer\<close>

lemma roomyE:
  assumes "roomy b"
  shows "buf_tight b" "buf_inv b" "m_write_index b < int (length (m_buffer b))"
    "can_write_bytes_num b = int (length (m_buffer b)) - m_write_index b"
  using assms can_write_bytes_num_inv [of b] by (auto simp: roomy_def buf_tight_inv)

lemma place_bytes:
  assumes "roomy b" and "int (length ds) \<le> can_write_bytes_num b"
  obtains v where "mem_write (m_buffer b) (m_write_index b) ds = Inr v" "length v = length (m_buffer b)"
    "content (b\<lparr>m_buffer := v\<rparr>) = content b" "take (length ds) (drop (nat (m_write_index b)) v) = ds"
    "roomy (b\<lparr>m_buffer := v\<rparr>)"
proof -
  note b = roomyE [OF assms(1)]
  let ?w = "nat (m_write_index b)"
  define v where "v = take ?w (m_buffer b) @ ds @ drop (?w + length ds) (m_buffer b)"
  have w: "0 \<le> m_read_index b" "m_read_index b \<le> m_write_index b" "?w < length (m_buffer b)"
    using b by (auto simp: buf_inv_def)
  have mw: "mem_write (m_buffer b) (m_write_index b) ds = Inr v"
    unfolding v_def using assms(2) b w by (intro mem_write_ok) auto
  have len: "length v = length (m_buffer b)" using mem_write_length [OF mw] .
  have pre: "take ?w v = take ?w (m_buffer b)" using w by (simp add: v_def)
  have "content (b\<lparr>m_buffer := v\<rparr>) = drop (nat (m_read_index b)) (take ?w v)"
    "content b = drop (nat (m_read_index b)) (take ?w (m_buffer b))"
    using w by (auto simp: content_def drop_take nat_diff_distrib)
  then have same: "content (b\<lparr>m_buffer := v\<rparr>) = content b" using pre by simp
  have "take (length ds) (drop ?w v) = ds" using w by (simp add: v_def)
  moreover have "roomy (b\<lparr>m_buffer := v\<rparr>)"
    using assms(1) len by (auto simp: roomy_def buf_tight_def buf_inv_def)
  ultimately show thesis using that mw len same by blast
qed

lemma receive_ok:
  assumes "roomy b" and "int (length ds) < can_write_bytes_num b"
  obtains b' where "receive ds b = Inr b'" "roomy b'" "content b' = content b @ ds"
    "length (m_buffer b') = length (m_buffer b)"
proof -
  obtain v where v: "mem_write (m_buffer b) (m_write_index b) ds = Inr v" "length v = length (m_buffer b)"
    "content (b\<lparr>m_buffer := v\<rparr>) = content b" "take (length ds) (drop (nat (m_write_index b)) v) = ds"
    "roomy (b\<lparr>m_buffer := v\<rparr>)"
    using place_bytes [OF assms(1), of ds] assms(2) by auto
  note r = roomyE [OF v(5)]
  obtain b' where "adjust_write_index (int (length ds)) (b\<lparr>m_buffer := v\<rparr>) = Inr b'" "buf_tight b'"
    "content b' = content (b\<lparr>m_buffer := v\<rparr>) @
       take (nat (int (length ds))) (drop (nat (m_write_index (b\<lparr>m_buffer := v\<rparr>))) (m_buffer (b\<lparr>m_buffer := v\<rparr>)))"
    "length (m_buffer b') = length (m_buffer (b\<lparr>m_buffer := v\<rparr>))"
    "m_write_index b' \<le> m_write_index (b\<lparr>m_buffer := v\<rparr>) + int (length ds)"
  proof (rule adjust_write_index_moves [OF r(2), of "int (length ds)"])
    show "int (length ds) \<le> can_write_bytes_num (b\<lparr>m_buffer := v\<rparr>)"
      using r(4) roomyE(4) [OF assms(1)] assms(2) v(2) by simp
    show "m_write_index (b\<lparr>m_buffer := v\<rparr>) + int (length ds) < int (length (m_buffer (b\<lparr>m_buffer := v\<rparr>)))"
      using roomyE(4) [OF assms(1)] assms(2) v(2) by simp
  qed simp_all
  then show thesis
    using v roomyE(4) [OF assms(1)] assms(2) by (intro that [of b']) (auto simp: receive_def roomy_def)
qed

lemma receive_full:
  assumes "roomy b" and "int (length ds) = can_write_bytes_num b"
  obtains b' where "receive ds b = Inr b'" "roomy b'" "content b' = content b"
    "length (m_buffer b') = length (m_buffer b)"
proof -
  obtain v where v: "mem_write (m_buffer b) (m_write_index b) ds = Inr v" "length v = length (m_buffer b)"
    "content (b\<lparr>m_buffer := v\<rparr>) = content b" "take (length ds) (drop (nat (m_write_index b)) v) = ds"
    "roomy (b\<lparr>m_buffer := v\<rparr>)"
    using place_bytes [OF assms(1), of ds] assms(2) by auto
  note r = roomyE [OF v(5)]
  have "adjust_write_index (int (length ds)) (b\<lparr>m_buffer := v\<rparr>) = Inr (b\<lparr>m_buffer := v\<rparr>)"
    using r(4) roomyE(4) [OF assms(1)] assms(2) v(2)
    by (intro adjust_write_index_refuses [OF r(2)]) simp_all
  then show thesis using v by (intro that [of "b\<lparr>m_buffer := v\<rparr>"]) (auto simp: receive_def)
qed

lemma make_room_roomy: "roomy b \<Longrightarrow> make_room b = Inr b"
  using roomyE [of b] by (simp add: make_room_def)

section \<open>What reading keeps\<close>

text \<open>A socket delivers at most what was asked for.\<close>

definition honest_reader :: "'s reader \<Rightarrow> bool" where
  "honest_reader rd \<longleftrightarrow> (\<forall>s n ds s'. rd s n = (ReadData ds, s') \<longrightarrow> int (length ds) \<le> n)"

lemma read_round_keeps:
  assumes "honest_reader rd" and "roomy b" and "read_round rd (s, b) = Inr (r, s', b')"
  shows "roomy b' \<and> length (m_buffer b') = length (m_buffer b)"
proof -
  obtain res s1 where rd: "rd s (can_write_bytes_num b) = (res, s1)" by fastforce
  show ?thesis
  proof (cases res)
    case (ReadData ds)
    then have "int (length ds) \<le> can_write_bytes_num b"
      using assms(1) rd unfolding honest_reader_def by blast
    then consider "int (length ds) < can_write_bytes_num b" | "int (length ds) = can_write_bytes_num b" by linarith
    then show ?thesis
    proof cases
      case 1
      then obtain b1 where "receive ds b = Inr b1" "roomy b1" "length (m_buffer b1) = length (m_buffer b)"
        using receive_ok [OF assms(2)] by blast
      then show ?thesis using assms(3) rd ReadData by (simp add: read_round_def make_room_roomy [OF assms(2)])
    next
      case 2
      then obtain b1 where "receive ds b = Inr b1" "roomy b1" "length (m_buffer b1) = length (m_buffer b)"
        using receive_full [OF assms(2)] by blast
      then show ?thesis using assms(3) rd ReadData by (simp add: read_round_def make_room_roomy [OF assms(2)])
    qed
  qed (use assms(2,3) rd in \<open>simp_all add: read_round_def make_room_roomy\<close>)
qed

lemma read_loop_short:
  assumes "roomy b" and "rd s (can_write_bytes_num b) = (ReadData ds, s')"
    and "int (length ds) < can_write_bytes_num b"
  shows "\<exists>b'. read_loop rd (s, b) = Some (Inr (False, s', b')) \<and> roomy b' \<and> content b' = content b @ ds \<and>
    length (m_buffer b') = length (m_buffer b)"
proof -
  obtain b' where "receive ds b = Inr b'" "roomy b'" "content b' = content b @ ds" "length (m_buffer b') = length (m_buffer b)"
    using receive_ok [OF assms(1,3)] by blast
  then show ?thesis
    using assms by (subst read_loop.simps) (simp add: read_round_def make_room_roomy)
qed

text \<open>Lemma (Bytes that fill the in buffer are lost).
  If a \<open>read\<close> returns exactly as many bytes as there is room for, the loop reads on with the
  readable bytes unchanged: the bytes just received are not kept, and the next ones overwrite them.\<close>

theorem full_read_is_lost:
  assumes "roomy b" and "rd s (can_write_bytes_num b) = (ReadData ds, s')"
    and "int (length ds) = can_write_bytes_num b"
  shows "\<exists>b'. read_loop rd (s, b) = read_loop rd (s', b') \<and> content b' = content b \<and> roomy b' \<and>
    can_write_bytes_num b' = can_write_bytes_num b"
proof -
  obtain v where v: "mem_write (m_buffer b) (m_write_index b) ds = Inr v" "length v = length (m_buffer b)"
    "content (b\<lparr>m_buffer := v\<rparr>) = content b" "roomy (b\<lparr>m_buffer := v\<rparr>)"
    using place_bytes [OF assms(1), of ds] assms(3) by auto
  note r = roomyE [OF v(4)]
  have "adjust_write_index (int (length ds)) (b\<lparr>m_buffer := v\<rparr>) = Inr (b\<lparr>m_buffer := v\<rparr>)"
    using r(4) roomyE(4) [OF assms(1)] assms(3) v(2)
    by (intro adjust_write_index_refuses [OF r(2)]) simp_all
  then have "receive ds b = Inr (b\<lparr>m_buffer := v\<rparr>)" using v by (simp add: receive_def)
  then have "read_round rd (s, b) = Inr (None, s', b\<lparr>m_buffer := v\<rparr>)"
    using assms by (simp add: read_round_def make_room_roomy)
  then have "read_loop rd (s, b) = read_loop rd (s', b\<lparr>m_buffer := v\<rparr>)"
    by (subst read_loop.simps) simp
  then show ?thesis using v r(4) roomyE(4) [OF assms(1)] by (intro exI [of _ "b\<lparr>m_buffer := v\<rparr>"]) simp
qed

definition fresh_buffer :: "nat \<Rightarrow> tcp_buffer" where
  "fresh_buffer n = \<lparr>m_read_index = 0, m_write_index = 0, m_size = int n, m_buffer = replicate n nul\<rparr>"

lemma fresh_buffer:
  "0 < n \<Longrightarrow> n \<le> 2147483647 \<Longrightarrow> roomy (fresh_buffer n)" "content (fresh_buffer n) = []"
  "n \<le> 2147483647 \<Longrightarrow> can_write_bytes_num (fresh_buffer n) = int n" "length (m_buffer (fresh_buffer n)) = n"
  by (simp_all add: fresh_buffer_def roomy_def buf_tight_def buf_inv_def content_def
      can_write_bytes_num_def to_size_id in_i32_def)

lemma full_read_is_lost_witness:
  "\<exists>b'. read_loop (\<lambda>s n. if s = 0 then (ReadData ''abcd'', 1) else (ReadAgain, s)) (0 :: nat, fresh_buffer 4) =
      read_loop (\<lambda>s n. if s = 0 then (ReadData ''abcd'', 1) else (ReadAgain, s)) (1, b') \<and>
    content b' = [] \<and> roomy b' \<and> can_write_bytes_num b' = 4"
  using full_read_is_lost [of "fresh_buffer 4" "\<lambda>s n. if s = 0 then (ReadData ''abcd'', 1) else (ReadAgain, s)"
      "0 :: nat" "''abcd''" 1] fresh_buffer [of 4]
  by simp

text \<open>C27 (The in buffer never grows).
  From a buffer with room, whatever a socket delivers that respects the size it was asked for, if
  the read loop ends its vector has the size it had, still has room, and holds fewer readable bytes
  than the size: a frame of 128 bytes or more never becomes readable on a connection whose buffer
  was created with 128.\<close>

theorem read_loop_never_grows:
  assumes "honest_reader rd" and "roomy b" and "read_loop rd (s, b) = Some (Inr (close, s', b'))"
  shows "roomy b' \<and> length (m_buffer b') = length (m_buffer b) \<and> length (content b') < length (m_buffer b)"
proof -
  let ?P = "\<lambda>rd sb (res :: (bool \<times> _ \<times> tcp_buffer) res). honest_reader rd \<and> roomy (snd sb) \<longrightarrow> (\<forall>c s' b'. res = Inr (c, s', b') \<longrightarrow>
      roomy b' \<and> length (m_buffer b') = length (m_buffer (snd sb)))"
  have "?P rd (s, b) (Inr (close, s', b'))"
  proof (rule read_loop.raw_induct [where P = ?P, OF _ assms(3)])
    fix self rd sb res
    assume IH: "\<And>rd sb res. self rd sb = Some res \<Longrightarrow> ?P rd sb res"
      and step: "(case read_round rd sb of Inl e \<Rightarrow> Some (Inl e)
        | Inr (r, s') \<Rightarrow> (case r of None \<Rightarrow> self rd s' | Some close \<Rightarrow> Some (Inr (close, s')))) = Some res"
    show "?P rd sb res"
    proof (intro impI allI)
      fix c s2 b2
      assume room: "honest_reader rd \<and> roomy (snd sb)" and res: "res = Inr (c, s2, b2)"
      then obtain r s1 b1 where round: "read_round rd sb = Inr (r, s1, b1)"
        using step by (cases "read_round rd sb") auto
      have keeps: "roomy b1 \<and> length (m_buffer b1) = length (m_buffer (snd sb))"
        using read_round_keeps [of rd "snd sb" "fst sb" r s1 b1] room round by simp
      show "roomy b2 \<and> length (m_buffer b2) = length (m_buffer (snd sb))"
      proof (cases r)
        case None
        then have "self rd (s1, b1) = Some res" using step round by simp
        then show ?thesis using IH [of rd "(s1, b1)" res] room keeps res by auto
      next
        case (Some close)
        then show ?thesis using step round keeps res by simp
      qed
    qed
  qed
  then have "roomy b'" "length (m_buffer b') = length (m_buffer b)" using assms(1,2) by auto
  moreover have "length (content b') < length (m_buffer b')"
    using content_length [of b'] roomyE [OF \<open>roomy b'\<close>] by (auto simp: can_read_bytes_num_def buf_inv_def)
  ultimately show ?thesis by simp
qed

lemma read_loop_never_grows_witness:
  "\<exists>b'. read_loop (\<lambda>s n. if s = 0 \<and> 2 \<le> n then (ReadData ''ab'', 1) else (ReadAgain, s)) (0 :: nat, fresh_buffer 4) =
      Some (Inr (False, 1, b')) \<and> roomy b' \<and> length (m_buffer b') = 4 \<and> length (content b') < 4"
proof -
  let ?rd = "\<lambda>s n. if s = 0 \<and> 2 \<le> n then (ReadData ''ab'', 1) else (ReadAgain, s :: nat)"
  have "honest_reader ?rd" by (simp add: honest_reader_def)
  moreover obtain b' where b': "read_loop ?rd (0, fresh_buffer 4) = Some (Inr (False, 1, b'))"
    using read_loop_short [of "fresh_buffer 4" ?rd 0 "''ab''" 1] fresh_buffer [of 4] by auto
  ultimately show ?thesis
    using read_loop_never_grows [OF _ _ b'] fresh_buffer [of 4] by simp
qed

section \<open>States that are final for the handlers\<close>

text \<open>What the event loop does to a connection: its two handlers, at any socket behaviour.\<close>

inductive handled :: "('cb, 'd, 'm, 'req, 'rsp) conn_env \<Rightarrow> int \<Rightarrow> ('cb, 'd) conn_loop \<Rightarrow> ('cb, 'd) conn_loop \<Rightarrow> bool"
  for env tid where
  read: "on_read env tid (rd :: nat reader) s x = Some (Inr (y, s')) \<Longrightarrow> handled env tid x y"
| "write": "on_write env tid (wr :: nat writer) s x = Some (Inr (y, s')) \<Longrightarrow> handled env tid x y"

inductive_cases handledE: "handled env tid x y"

lemma handlers_inert:
  assumes "m_state c \<noteq> Connected"
  shows "on_read env tid rd s (c, el) = Some (Inr ((c, el), s))"
    "on_write env tid wr s (c, el) = Some (Inr ((c, el), s))"
  using assms by (simp_all add: on_read_def on_write_def)

text \<open>C28 (A connection that was shut down stays half closed).
  After \<open>shutdown\<close> on a connected connection its state is \<open>HalfClosing\<close>, and whatever its handlers
  are called with afterwards, they change neither it nor the loop: the end of the stream is never
  seen, the connection never becomes \<open>Closed\<close>, and its descriptor is never removed from epoll.\<close>

theorem shutdown_never_closes:
  assumes "m_state c = Connected" and "(handled env tid)\<^sup>*\<^sup>* (fst (shutdown c), el) (c', el')"
  shows "c' = c\<lparr>m_state := HalfClosing\<rparr> \<and> el' = el"
proof -
  have inert: "x = (c\<lparr>m_state := HalfClosing\<rparr>, el)"
    if "(handled env tid)\<^sup>*\<^sup>* (c\<lparr>m_state := HalfClosing\<rparr>, el) x" for x
    using that
  proof (induction rule: rtranclp_induct)
    case (step y z)
    then show ?case by (auto elim!: handledE simp: handlers_inert)
  qed simp
  show ?thesis using inert [of "(c', el')"] assms by (simp add: shutdown_def)
qed

section \<open>A server connection\<close>

lemma update_event_inv: "loop_inv el \<Longrightarrow> loop_inv (update_event p f el)"
  by (rule loop_inv_cong [of _ el]) (simp_all add: update_event_def)

lemma update_event_fields [simp]:
  "m_thread_id (update_event p f el) = m_thread_id el" "registered (update_event p f el) = registered el"
  "el_events (update_event p f el) p = f (el_events el p)"
  by (simp_all add: update_event_def registered_def)

text \<open>Called on the loop's own thread, \<open>listen_write\<close> and \<open>listen_read\<close> register the connection's
  descriptor with their direction in the mask.\<close>

lemma mask_or: "(w OR EPOLLOUT) AND EPOLLOUT \<noteq> 0" "(w OR EPOLLIN) AND EPOLLIN \<noteq> 0"
  unfolding epoll_bits by (simp_all add: bit_or_iff bit_EPOLL)

definition conn_event :: "('cb, 'd) tcp_connection \<Rightarrow> 'cb event_loop \<Rightarrow> 'cb fd_event" where
  "conn_event c el = el_events el (conn_fd_event c)"

lemma listen_registers:
  assumes "loop_inv el" and "m_thread_id el = tid"
  shows "\<exists>el'. listen_write tid (c, el) = (c, el') \<and> loop_inv el' \<and> registered el' =
      (registered el)(m_fd (conn_event c el) \<mapsto> Some (m_events (conn_event c el) OR EPOLLOUT, Some (conn_fd_event c)))"
    "\<exists>el'. listen_read tid (c, el) = (c, el') \<and> loop_inv el' \<and> registered el' =
      (registered el)(m_fd (conn_event c el) \<mapsto> Some (m_events (conn_event c el) OR EPOLLIN, Some (conn_fd_event c)))"
  using assms
    ep.watch_law [OF update_event_inv [OF assms(1)], of "conn_fd_event c" "conn_fd_event c"
      "listen (conn_fd_event c) OUT_EVENT (Some (conn_on_write c)) None"]
    ep.watch_law [OF update_event_inv [OF assms(1)], of "conn_fd_event c" "conn_fd_event c"
      "listen (conn_fd_event c) IN_EVENT (Some (conn_on_read c)) None"]
  by (simp_all add: Let_def add_epoll_event_def is_in_current_loop_thread_def event_fd_def event_interest_def
      conn_event_def listen_write_def listen_read_def) (simp_all add: listen_def Let_def)

text \<open>The response to a request, as the dispatcher leaves it.\<close>

definition answer ::
  "('cb, 'd, 'm, 'req, 'rsp) conn_env \<Rightarrow> ('cb, 'd) tcp_connection \<Rightarrow> protobuf_protocol \<Rightarrow> protobuf_protocol" where
  "answer env c req =
     (case dispatcher (env_debug env) (env_services env) (ProtobufP req) (ProtobufP ProtobufProtocol_new)
             (conn_local_addr c) (conn_peer_addr c) of
        Inr rsp \<Rightarrow> rsp | Inl _ \<Rightarrow> ProtobufProtocol_new)"

lemma answer_ok:
  assumes "conn_local_addr c = Some l" and "conn_peer_addr c = Some p"
  shows "dispatch_one env c (ProtobufP req) acc = Inr (acc @ [ProtobufP (answer env c req)])"
    "m_msg_id (answer env c req) = m_msg_id req"
  using dispatcher_answers [of "env_debug env" "env_services env" req l p] assms
  by (auto simp: dispatch_one_def answer_def)

lemma dispatch_all:
  assumes "conn_local_addr c = Some l" and "conn_peer_addr c = Some p"
  shows "foldR (dispatch_one env c) (map ProtobufP reqs) acc =
    Inr (acc @ map (\<lambda>r. ProtobufP (answer env c r)) reqs)"
  by (induction reqs arbitrary: acc) (simp_all add: answer_ok(1) [OF assms])

lemma received_protobuf:
  "map protocol_received (map ProtobufP ms) = map ProtobufP (map decoded ms)"
  "concat (map protocol_wire (map (\<lambda>r. ProtobufP (f r)) rs)) = concat (map (\<lambda>r. frame (f r)) rs)"
  by (simp_all add: comp_def)

lemma excute_server_ok:
  assumes "roomy (m_in_buffer c)" and "buf_tight (m_out_buffer c)"
    and "conn_local_addr c = Some l" and "conn_peer_addr c = Some p"
    and "content (m_in_buffer c) = concat (map frame ms) @ r" and "list_all wire_ok ms" and "awaits r"
    and "list_all (\<lambda>m. sized (answer env c (decoded m))) ms"
    and "length (content (m_out_buffer c)) + length (concat (map (\<lambda>m. frame (answer env c (decoded m))) ms)) \<le> buf_limit"
  obtains in_b out_b where
    "excute_server env tid (c, el) = Some (Inr (listen_write tid (c\<lparr>m_in_buffer := in_b, m_out_buffer := out_b\<rparr>, el)))"
    "roomy in_b" "content in_b = r" "buf_tight out_b"
    "content out_b = content (m_out_buffer c) @ concat (map (\<lambda>m. frame (answer env c (decoded m))) ms)"
    "length (m_buffer in_b) = length (m_buffer (m_in_buffer c))"
proof -
  let ?ans = "map (\<lambda>m. ProtobufP (answer env c (decoded m))) ms"
  have "list_all wire_admissible (map ProtobufP ms)" using assms(6) by (simp add: list_all_iff)
  moreover have "content (m_in_buffer c) = concat (map protocol_wire (map ProtobufP ms)) @ r"
    using assms(5) by (simp add: comp_def)
  ultimately obtain in_b where dec: "ProtobufCoder_decode [] (m_in_buffer c) =
      Some (Inr (map ProtobufP (map decoded ms), in_b))" "roomy in_b" "content in_b = r"
    using protobuf_stream.dec_law [OF assms(1), of "map ProtobufP ms" r "[]"] assms(7)
    by (auto simp: received_protobuf(1) simp del: map_map)
  have disp: "foldR (dispatch_one env c) (map ProtobufP (map decoded ms)) [] = Inr ?ans"
    using dispatch_all [OF assms(3,4), of env "map decoded ms" "[]"] by (simp add: comp_def)
  have "list_all protobuf_admissible ?ans" using assms(8) by (simp add: list_all_iff)
  then obtain out_b where enc: "ProtobufCoder_encode ?ans (m_out_buffer c) = Inr (map protocol_sent ?ans, out_b)"
      "buf_tight out_b"
      "content out_b = content (m_out_buffer c) @ concat (map (\<lambda>m. frame (answer env c (decoded m))) ms)"
    using protobuf_coder.enc_law [OF assms(2), of ?ans] assms(9) by (auto simp: comp_def)
  show thesis
    using that dec disp enc decode_length [OF dec(1)] by (simp add: excute_server_def)
qed

lemma listen_write_handler:
  "listen_write tid (c, el) = (c', el') \<Longrightarrow> handler OUT_EVENT (conn_event c el') = Some (conn_on_write c)"
  by (auto simp: listen_write_def Let_def conn_event_def add_epoll_event_def add_to_epoll_def update_event_def listen_def)

lemma listen_write_thread: "listen_write tid (c, el) = (c', el') \<Longrightarrow> m_thread_id el' = m_thread_id el"
  by (auto simp: listen_write_def Let_def add_epoll_event_def add_to_epoll_def update_event_def add_task_def wake_up_def
      split: if_splits)

lemma on_read_server:
  assumes "m_state c = Connected" and "m_connection_type c = TcpConnectionByServer"
    and "roomy (m_in_buffer c)" and "buf_tight (m_out_buffer c)"
    and "conn_local_addr c = Some l" and "conn_peer_addr c = Some p"
    and "rd s (can_write_bytes_num (m_in_buffer c)) = (ReadData ds, s')"
    and "int (length ds) < can_write_bytes_num (m_in_buffer c)"
    and "content (m_in_buffer c) @ ds = concat (map frame ms) @ r" and "list_all wire_ok ms" and "awaits r"
    and "list_all (\<lambda>m. sized (answer env c (decoded m))) ms"
    and "length (content (m_out_buffer c)) + length (concat (map (\<lambda>m. frame (answer env c (decoded m))) ms)) \<le> buf_limit"
    and "loop_inv el" and "m_thread_id el = tid"
  obtains in_b out_b el' where
    "on_read env tid rd s (c, el) = Some (Inr ((c\<lparr>m_in_buffer := in_b, m_out_buffer := out_b\<rparr>, el'), s'))"
    "roomy in_b" "content in_b = r" "buf_tight out_b"
    "content out_b = content (m_out_buffer c) @ concat (map (\<lambda>m. frame (answer env c (decoded m))) ms)"
    "loop_inv el'" "registered el' (m_fd (conn_event c el)) =
      Some (Some (m_events (conn_event c el) OR EPOLLOUT, Some (conn_fd_event c)))"
    "handler OUT_EVENT (conn_event c el') = Some (conn_on_write c)"
    "length (m_buffer in_b) = length (m_buffer (m_in_buffer c))" "m_thread_id el' = tid"
proof -
  obtain b1 where b1: "read_loop rd (s, m_in_buffer c) = Some (Inr (False, s', b1))" "roomy b1"
      "content b1 = content (m_in_buffer c) @ ds" "length (m_buffer b1) = length (m_buffer (m_in_buffer c))"
    using read_loop_short [of "m_in_buffer c" rd s ds s'] assms(3,7,8) by blast
  let ?c1 = "c\<lparr>m_in_buffer := b1\<rparr>"
  have same: "answer env ?c1 = answer env c" by (simp add: answer_def [abs_def])
  obtain in_b out_b where ex:
    "excute_server env tid (?c1, el) = Some (Inr (listen_write tid (?c1\<lparr>m_in_buffer := in_b, m_out_buffer := out_b\<rparr>, el)))"
    "roomy in_b" "content in_b = r" "buf_tight out_b"
    "content out_b = content (m_out_buffer c) @ concat (map (\<lambda>m. frame (answer env c (decoded m))) ms)"
    "length (m_buffer in_b) = length (m_buffer b1)"
    by (rule excute_server_ok [of ?c1 l p ms r env tid el, unfolded same])
      (use assms b1 in \<open>auto simp: same\<close>)
  let ?c2 = "?c1\<lparr>m_in_buffer := in_b, m_out_buffer := out_b\<rparr>"
  obtain el' where lw: "listen_write tid (?c2, el) = (?c2, el')" "loop_inv el'"
      "registered el' = (registered el)(m_fd (conn_event ?c2 el) \<mapsto>
         Some (m_events (conn_event ?c2 el) OR EPOLLOUT, Some (conn_fd_event ?c2)))"
    using listen_registers(1) [OF assms(14,15), of ?c2] by blast
  have cb: "handler OUT_EVENT (conn_event c el') = Some (conn_on_write c)"
    using listen_write_handler [OF lw(1)] by (simp add: conn_event_def)
  have "on_read env tid rd s (c, el) = Some (Inr ((?c2, el'), s'))"
    using assms(1,2) b1(1) ex(1) lw(1) by (simp add: on_read_def excute_def)
  then show thesis using that [of out_b in_b el'] ex lw cb b1(4) listen_write_thread [OF lw(1)] assms(15) by (simp add: conn_event_def)
qed

text \<open>C12 (A server answers what it receives).
  A connected server connection on its loop's thread receives, in one short read behind what it
  already holds, the frames of well-formed requests and perhaps part of another. Then \<open>on_read\<close>
  returns; the out buffer has gained exactly one response frame per request, in order, each the
  dispatcher's answer and carrying the request's id; the unfinished part stays in the in buffer; and
  the descriptor is registered for writing.\<close>

theorem server_answers_requests:
  assumes "m_state c = Connected" and "m_connection_type c = TcpConnectionByServer"
    and "roomy (m_in_buffer c)" and "buf_tight (m_out_buffer c)"
    and "conn_local_addr c = Some l" and "conn_peer_addr c = Some p"
    and "rd s (can_write_bytes_num (m_in_buffer c)) = (ReadData ds, s')"
    and "int (length ds) < can_write_bytes_num (m_in_buffer c)"
    and "content (m_in_buffer c) @ ds = concat (map frame ms) @ r" and "list_all wire_ok ms" and "awaits r"
    and "list_all (\<lambda>m. sized (answer env c (decoded m))) ms"
    and "length (content (m_out_buffer c)) + length (concat (map (\<lambda>m. frame (answer env c (decoded m))) ms)) \<le> buf_limit"
    and "loop_inv el" and "m_thread_id el = tid"
  shows "\<exists>c' el' mask. on_read env tid rd s (c, el) = Some (Inr ((c', el'), s')) \<and>
    content (m_out_buffer c') = content (m_out_buffer c) @ concat (map (\<lambda>m. frame (answer env c (decoded m))) ms) \<and>
    map (\<lambda>m. m_msg_id (answer env c (decoded m))) ms = map (\<lambda>m. m_msg_id (decoded m)) ms \<and>
    content (m_in_buffer c') = r \<and> m_state c' = Connected \<and> loop_inv el' \<and>
    registered el' (m_fd (conn_event c el)) = Some (Some (mask, Some (conn_fd_event c))) \<and>
    mask AND EPOLLOUT \<noteq> 0"
proof -
  obtain in_b out_b el' where r: "on_read env tid rd s (c, el) = Some (Inr ((c\<lparr>m_in_buffer := in_b, m_out_buffer := out_b\<rparr>, el'), s'))"
    "content in_b = r"
    "content out_b = content (m_out_buffer c) @ concat (map (\<lambda>m. frame (answer env c (decoded m))) ms)"
    "loop_inv el'" "registered el' (m_fd (conn_event c el)) =
      Some (Some (m_events (conn_event c el) OR EPOLLOUT, Some (conn_fd_event c)))"
    by (rule on_read_server [of c l p rd s ds s' ms r env el tid, OF assms])
  then show ?thesis using assms(1) answer_ok(2) [OF assms(5,6), of env] mask_or(1) by auto
qed

definition sample_conn :: "connection_type \<Rightarrow> (nat, nat) tcp_connection" where
  "sample_conn t = \<lparr>conn_local_addr = Some sample_addr, conn_peer_addr = Some sample_addr,
     m_in_buffer = fresh_buffer 128, m_out_buffer = fresh_buffer 128, conn_fd_event = 2, m_state = Connected,
     conn_fd = 9, m_connection_type = t, m_write_dones = [], m_read_dones = Map.empty,
     conn_on_read = 100, conn_on_write = 200\<rparr>"

definition sample_env :: "(nat, nat, unit, string, string) conn_env" where
  "sample_env = \<lparr>env_debug = True, env_services = register_service echo_service Map.empty,
     env_run_done = (\<lambda>d p s. s)\<rparr>"

definition one_read :: "string \<Rightarrow> nat reader" where
  "one_read ds s n = (if s = 0 \<and> int (length ds) \<le> n then (ReadData ds, 1) else (ReadAgain, s))"

lemma the_sample_loop_inv: "loop_inv the_sample_loop"
  using EventLoop_new_inv sample_loop unfolding sample_loop_def .

lemma sample_request_wire: "wire_ok sample_request" "length (frame sample_request) = 42"
  by (auto simp: wire_ok_def sized_def frame_length sample_request_def with_msg_id_def
      ProtobufProtocol_new_def buf_limit_def in_i32_def nul_def char_of_def)

lemma sample_answer:
  "answer sample_env (sample_conn TcpConnectionByServer) (decoded sample_request) =
   ProtobufProtocol_new\<lparr>m_msg_id := ''42'', m_method_name := ''Order.make'', m_pb_data := ''body42''\<rparr>"
  by (simp add: answer_def sample_env_def sample_conn_def sample_request_def decoded_def encoded_def Let_def
      with_msg_id_def dispatcher_def parse_service_full_name_def register_service_def echo_service_def
      controller_defs ProtobufProtocol_new_def)

lemma server_answers_requests_witness:
  "\<exists>c' el' mask. on_read sample_env 1 (one_read (frame sample_request)) 0
      (sample_conn TcpConnectionByServer, the_sample_loop) = Some (Inr ((c', el'), 1)) \<and>
    content (m_out_buffer c') = frame (ProtobufProtocol_new\<lparr>m_msg_id := ''42'', m_method_name := ''Order.make'',
      m_pb_data := ''body42''\<rparr>) \<and> content (m_in_buffer c') = [] \<and>
    registered el' 9 = Some (Some (mask, Some 2)) \<and> mask AND EPOLLOUT \<noteq> 0"
proof -
  let ?c = "sample_conn TcpConnectionByServer"
  let ?rsp = "ProtobufProtocol_new\<lparr>m_msg_id := ''42'', m_method_name := ''Order.make'', m_pb_data := ''body42''\<rparr>"
  have c: "m_state ?c = Connected" "m_connection_type ?c = TcpConnectionByServer"
    "m_in_buffer ?c = fresh_buffer 128" "m_out_buffer ?c = fresh_buffer 128"
    "conn_local_addr ?c = Some sample_addr" "conn_peer_addr ?c = Some sample_addr" "conn_fd_event ?c = 2"
    by (simp_all add: sample_conn_def)
  have rsp: "length (frame ?rsp) = 44"
    by (simp add: frame_length with_msg_id_def ProtobufProtocol_new_def)
  have "m_fd (conn_event ?c the_sample_loop) = 9"
    using the_sample_loop_fields c by (simp add: conn_event_def FdEvent_new_def)
  moreover have "buf_tight (fresh_buffer 128)"
    using fresh_buffer(1) [of 128] by (simp add: roomy_def)
  ultimately show ?thesis
    using server_answers_requests [of ?c sample_addr sample_addr "one_read (frame sample_request)" 0
        "frame sample_request" 1 "[sample_request]" "[]" sample_env the_sample_loop 1]
      fresh_buffer [of 128] the_sample_loop_inv the_sample_loop_fields(1) sample_request_wire sample_answer rsp c
    by (auto simp: one_read_def sized_def buf_limit_def awaits_def)
qed

definition after_shutdown :: "(nat, nat) conn_loop" where
  "after_shutdown = fst (projr (the (on_read sample_env 1 (one_read ''late'') 0
     (fst (shutdown (sample_conn TcpConnectionByServer)), the_sample_loop))))"

lemma shutdown_never_closes_witness:
  "(handled sample_env 1)\<^sup>*\<^sup>* (fst (shutdown (sample_conn TcpConnectionByServer)), the_sample_loop) after_shutdown \<and>
   m_state (fst after_shutdown) = HalfClosing \<and> snd after_shutdown = the_sample_loop"
proof -
  let ?c = "sample_conn TcpConnectionByServer"
  let ?x = "(fst (shutdown ?c), the_sample_loop)"
  have st: "m_state ?c = Connected" by (simp add: sample_conn_def)
  then have run: "on_read sample_env 1 (one_read ''late'') 0 ?x = Some (Inr (after_shutdown, 0))"
    by (simp add: after_shutdown_def shutdown_def handlers_inert)
  then have "(handled sample_env 1)\<^sup>*\<^sup>* ?x after_shutdown"
    by (intro r_into_rtranclp handled.read [where rd = "one_read ''late''" and s = 0 and s' = 0])
  then show ?thesis
    using shutdown_never_closes [OF st, of sample_env 1 the_sample_loop "fst after_shutdown" "snd after_shutdown"]
    by simp
qed

section \<open>The end of the stream\<close>

text \<open>C22 (The end of the stream closes the connection).
  When the peer has closed and \<open>read\<close> reports the end of the stream, \<open>on_read\<close> on the loop's thread
  leaves the connection \<open>Closed\<close>, its event with an empty mask and its descriptor, and only it,
  removed from epoll; a further \<open>clear\<close> changes nothing.\<close>

theorem eof_closes_connection:
  assumes "m_state c = Connected" and "roomy (m_in_buffer c)"
    and "rd s (can_write_bytes_num (m_in_buffer c)) = (ReadEof, s')"
    and "loop_inv el" and "m_thread_id el = tid"
  shows "\<exists>c' el'. on_read env tid rd s (c, el) = Some (Inr ((c', el'), s')) \<and> m_state c' = Closed \<and>
    registered el' = (registered el)(m_fd (conn_event c el) := None) \<and> loop_inv el' \<and>
    m_events (conn_event c el') AND (EPOLLIN OR EPOLLOUT) = 0 \<and> clear tid (c', el') = (c', el')"
proof -
  let ?p = "conn_fd_event c"
  let ?el1 = "update_event ?p (cancel OUT_EVENT) (update_event ?p (cancel IN_EVENT) el)"
  have inv: "loop_inv ?el1" using update_event_inv assms(4) by blast
  have fd: "m_fd (el_events ?el1 ?p) = m_fd (conn_event c el)"
    by (simp add: conn_event_def fd_event_simps)
  let ?el2 = "delete_from_epoll (m_fd (conn_event c el)) ?el1"
  have r: "read_loop rd (s, m_in_buffer c) = Some (Inr (True, s', m_in_buffer c))"
    using assms(2,3) by (subst read_loop.simps) (simp add: read_round_def make_room_roomy)
  have run: "on_read env tid rd s (c, el) = Some (Inr ((c\<lparr>m_state := Closed\<rparr>, ?el2), s'))"
    using assms(1,5) r fd
    by (simp add: on_read_def clear_def Let_def delete_epoll_event_def is_in_current_loop_thread_def)
  have off: "\<not> bit (m_events (conn_event c ?el2)) 0" "\<not> bit (m_events (conn_event c ?el2)) 2"
    by (simp_all add: conn_event_def delete_from_epoll_def update_event_def fd_event_simps)
  have "m_events (conn_event c ?el2) AND (EPOLLIN OR EPOLLOUT) = 0"
  proof (rule bit_word_eqI)
    fix n
    show "bit (m_events (conn_event c ?el2) AND (EPOLLIN OR EPOLLOUT)) n = bit (0 :: 32 word) n"
      using off by (cases "n = 0"; cases "n = 2") (simp_all add: bit_and_iff bit_or_iff bit_EPOLL)
  qed
  then show ?thesis
    using run ep.unwatch_law [OF inv, of "m_fd (conn_event c el)"]
    by (intro exI [of _ "c\<lparr>m_state := Closed\<rparr>"] exI [of _ ?el2]) (simp add: clear_def)
qed

lemma eof_closes_connection_witness:
  "\<exists>c' el'. on_read sample_env 1 (\<lambda>s n. (ReadEof, s)) (0 :: nat) (sample_conn TcpConnectionByClient, the_sample_loop) =
      Some (Inr ((c', el'), 0)) \<and> m_state c' = Closed \<and> registered el' = (registered the_sample_loop)(9 := None)"
proof -
  have "m_fd (conn_event (sample_conn TcpConnectionByClient) the_sample_loop) = 9"
    using the_sample_loop_fields by (simp add: conn_event_def sample_conn_def FdEvent_new_def)
  then show ?thesis
    using eof_closes_connection [of "sample_conn TcpConnectionByClient" "\<lambda>s n. (ReadEof, s)" "0 :: nat" 0
        the_sample_loop 1 sample_env] the_sample_loop_inv the_sample_loop_fields(1) fresh_buffer [of 128]
    by (auto simp: sample_conn_def)
qed

section \<open>Writing\<close>

lemma write_round_data:
  assumes "buf_inv b" and "content b \<noteq> []"
  shows "write_round wr b s = (case wr s (content b) of
      (Wrote n, s') \<Rightarrow> Inr (if n \<ge> int (length (content b)) then Some True else None, s')
    | (WriteAgain, s') \<Rightarrow> Inr (Some False, s')
    | (WriteError, s') \<Rightarrow> Inr (None, s'))"
proof -
  have n: "can_read_bytes_num b = int (length (content b))" using content_length [OF assms(1)] by simp
  then have "can_read_bytes_num b \<noteq> 0" using assms(2) by simp
  moreover have "mem_read (m_buffer b) (m_read_index b) (can_read_bytes_num b) = Inr (content b)"
    using assms(1) by (auto simp: mem_read_def buf_inv_def can_read_bytes_num_def content_def)
  ultimately show ?thesis by (simp add: write_round_def n Let_def)
qed

lemma write_loop_all:
  assumes "buf_inv b" and "content b \<noteq> []" and "wr s (content b) = (Wrote n, s')" and "int (length (content b)) \<le> n"
  shows "write_loop wr b s = Some (Inr (True, s'))"
  using assms(3,4) by (subst write_loop.simps) (simp add: write_round_data [OF assms(1,2)])

text \<open>Lemma (A partial write is repeated from the start).
  If \<open>write\<close> takes only \<open>n\<close> of the readable bytes, fewer than there are, the loop offers all of
  them again: when the socket takes them all the second time the loop reports success, and the
  peer has been sent the first \<open>n\<close> bytes twice.\<close>

theorem partial_write_repeats:
  assumes "buf_inv b" and "content b \<noteq> []"
    and "wr s (content b) = (Wrote n, s')" and "n < int (length (content b))"
    and "wr s' (content b) = (Wrote k, s'')" and "int (length (content b)) \<le> k"
  shows "write_loop wr b s = Some (Inr (True, s''))"
proof -
  have "write_round wr b s = Inr (None, s')"
    using assms(3,4) write_round_data [OF assms(1,2), of wr s] by simp
  then have "write_loop wr b s = write_loop wr b s'" by (subst write_loop.simps) simp
  then show ?thesis using write_loop_all [of b wr s' k s''] assms(1,2,5,6) by simp
qed

lemma partial_write_repeats_witness:
  "write_loop (\<lambda>sent data. if sent = '''' then (Wrote 1, take 1 data) else (Wrote (int (length data)), sent @ data))
     sample_buffer '''' = Some (Inr (True, ''aab''))"
  using partial_write_repeats [of sample_buffer
      "\<lambda>sent data. if sent = '''' then (Wrote 1, take 1 data) else (Wrote (int (length data)), sent @ data)"
      "''''" 1 "''a''" 2 "''aab''"] sample_buffer
  by (simp add: buf_tight_inv)

text \<open>C29 (Sent responses stay in the out buffer).
  When a server connection's socket takes all readable bytes of the out buffer, \<open>on_write\<close> ends
  with the write interest removed from epoll and the connection, out buffer included, exactly as it
  was: the bytes sent are still readable, and the next \<open>on_write\<close> sends them again before anything
  added since.\<close>

theorem sent_bytes_stay_queued:
  assumes "m_state c = Connected" and "m_connection_type c = TcpConnectionByServer"
    and "buf_inv (m_out_buffer c)" and "content (m_out_buffer c) \<noteq> []"
    and "wr s (content (m_out_buffer c)) = (Wrote n, s')" and "int (length (content (m_out_buffer c))) \<le> n"
    and "loop_inv el" and "m_thread_id el = tid"
  shows "\<exists>el'. on_write env tid wr s (c, el) = Some (Inr ((c, el'), s')) \<and> loop_inv el' \<and>
    registered el' = (registered el)(m_fd (conn_event c el) \<mapsto>
      Some (m_events (conn_event c el) AND NOT EPOLLOUT, m_data_ptr (conn_event c el)))"
proof -
  let ?p = "conn_fd_event c"
  let ?el' = "add_to_epoll ?p (update_event ?p (cancel OUT_EVENT) el)"
  have "on_write env tid wr s (c, el) = Some (Inr ((c, ?el'), s'))"
    using assms(1,2,8) write_loop_all [of "m_out_buffer c" wr s n s'] assms(3-6)
    by (simp add: on_write_def encode_pending_def Let_def add_epoll_event_def is_in_current_loop_thread_def)
  then show ?thesis
    using ep.watch_law [OF update_event_inv [OF assms(7)], of ?p ?p "cancel OUT_EVENT"]
    by (simp add: event_fd_def event_interest_def conn_event_def) (simp add: cancel_def)
qed

lemma sent_bytes_stay_queued_witness:
  "\<exists>el'. on_write sample_env 1 (\<lambda>sent data. (Wrote (int (length data)), sent @ data)) ''''
      ((sample_conn TcpConnectionByServer)\<lparr>m_out_buffer := sample_buffer\<rparr>, the_sample_loop) =
      Some (Inr (((sample_conn TcpConnectionByServer)\<lparr>m_out_buffer := sample_buffer\<rparr>, el'), ''ab''))"
  using sent_bytes_stay_queued [of "(sample_conn TcpConnectionByServer)\<lparr>m_out_buffer := sample_buffer\<rparr>"
      "\<lambda>sent data. (Wrote (int (length data)), sent @ data)" "''''" 2 "''ab''" the_sample_loop 1 sample_env]
    sample_buffer the_sample_loop_inv the_sample_loop_fields(1)
  by (auto simp: sample_conn_def buf_tight_inv)

section \<open>A client connection\<close>

text \<open>Message callbacks that leave the list of pending writes alone.\<close>

definition keeps_writes :: "('cb, 'd, 'm, 'req, 'rsp) conn_env \<Rightarrow> bool" where
  "keeps_writes env \<longleftrightarrow> (\<forall>d p s. m_write_dones (fst (env_run_done env d p s)) = m_write_dones (fst s))"

definition run_dones ::
  "('cb, 'd, 'm, 'req, 'rsp) conn_env \<Rightarrow> (protocol \<times> 'd) list \<Rightarrow> ('cb, 'd) conn_loop \<Rightarrow> ('cb, 'd) conn_loop" where
  "run_dones env pds s = fold (\<lambda>(p, d). env_run_done env d p) pds s"

lemma complete_write_keeps: "keeps_writes env \<Longrightarrow> complete_write env (p, d) s = Inr (env_run_done env d p s)"
  by (cases s) (simp add: keeps_writes_def complete_write_def Let_def)

lemma complete_writes:
  "keeps_writes env \<Longrightarrow> foldR (complete_write env) pds s = Inr (run_dones env pds s)"
proof (induction pds arbitrary: s)
  case (Cons pd pds)
  then show ?case using complete_write_keeps [OF Cons.prems] by (cases pd) (simp add: run_dones_def)
qed (simp add: run_dones_def)

lemma on_write_client:
  assumes "m_state c = Connected" and "m_connection_type c = TcpConnectionByClient"
    and "buf_tight (m_out_buffer c)" and "map fst (m_write_dones c) = map ProtobufP ms" and "ms \<noteq> []"
    and "list_all sized ms" and "length (content (m_out_buffer c)) + length (concat (map frame ms)) \<le> buf_limit"
    and "wr s (content (m_out_buffer c) @ concat (map frame ms)) =
      (Wrote (int (length (content (m_out_buffer c) @ concat (map frame ms)))), s')"
    and "keeps_writes env"
  obtains out_b el1 c2 el2 where
    "on_write env tid wr s (c, el) = Some (Inr ((c2\<lparr>m_write_dones := []\<rparr>, el2), s'))"
    "content out_b = content (m_out_buffer c) @ concat (map frame ms)"
    "(c2, el2) = run_dones env (zip (map (\<lambda>m. ProtobufP (encoded m)) ms) (map snd (m_write_dones c)))
       (c\<lparr>m_out_buffer := out_b,
          m_write_dones := zip (map (\<lambda>m. ProtobufP (encoded m)) ms) (map snd (m_write_dones c))\<rparr>, el1)"
    "el1 = add_epoll_event tid (conn_fd_event c) (update_event (conn_fd_event c) (cancel OUT_EVENT) el)"
proof -
  let ?dones = "zip (map (\<lambda>m. ProtobufP (encoded m)) ms) (map snd (m_write_dones c))"
  obtain out_b where enc: "ProtobufCoder_encode (map ProtobufP ms) (m_out_buffer c) =
      Inr (map (\<lambda>m. ProtobufP (encoded m)) ms, out_b)" "buf_tight out_b"
      "content out_b = content (m_out_buffer c) @ concat (map frame ms)"
    using protobuf_coder.enc_law [OF assms(3), of "map ProtobufP ms"] assms(6,7)
    by (auto simp: comp_def list_all_iff)
  let ?c1 = "c\<lparr>m_out_buffer := out_b, m_write_dones := ?dones\<rparr>"
  have "frame (hd ms) \<noteq> []" using frame_nonempty [of "hd ms"] by auto
  then have "concat (map frame ms) \<noteq> []" using assms(5) by (cases ms) auto
  then have w: "write_loop wr out_b s = Some (Inr (True, s'))"
    using write_loop_all [of out_b wr s _ s'] enc assms(8) by (simp add: buf_tight_inv)
  define el1 where "el1 = add_epoll_event tid (conn_fd_event c) (update_event (conn_fd_event c) (cancel OUT_EVENT) el)"
  obtain c2 el2 where run: "run_dones env ?dones (?c1, el1) = (c2, el2)" by fastforce
  have "on_write env tid wr s (c, el) = Some (Inr ((c2\<lparr>m_write_dones := []\<rparr>, el2), s'))"
    using assms(1,2,4) enc(1) w run complete_writes [OF assms(9), of ?dones "(?c1, el1)"]
    by (simp add: on_write_def encode_pending_def Let_def el1_def)
  then show thesis by (rule that [OF _ enc(3) run [symmetric] el1_def])
qed

text \<open>C20 (A client sends its queued messages once and reports each).
  A connected client connection with queued messages, whose socket takes all bytes: \<open>on_write\<close>
  offers to the socket what the out buffer held followed by the frames of the messages in order,
  then runs the callback of each message, in order, with the message as it was sent, and leaves no
  message queued.\<close>

theorem client_sends_queued_messages:
  assumes "m_state c = Connected" and "m_connection_type c = TcpConnectionByClient"
    and "buf_tight (m_out_buffer c)" and "map fst (m_write_dones c) = map ProtobufP ms" and "ms \<noteq> []"
    and "list_all sized ms" and "length (content (m_out_buffer c)) + length (concat (map frame ms)) \<le> buf_limit"
    and "wr s (content (m_out_buffer c) @ concat (map frame ms)) =
      (Wrote (int (length (content (m_out_buffer c) @ concat (map frame ms)))), s')"
    and "keeps_writes env"
  shows "\<exists>c1 el1 c2 el2. on_write env tid wr s (c, el) = Some (Inr ((c2\<lparr>m_write_dones := []\<rparr>, el2), s')) \<and>
    content (m_out_buffer c1) = content (m_out_buffer c) @ concat (map frame ms) \<and>
    (c2, el2) = run_dones env (zip (map (\<lambda>m. ProtobufP (encoded m)) ms) (map snd (m_write_dones c))) (c1, el1)"
proof -
  obtain out_b el1 c2 el2 where
    "on_write env tid wr s (c, el) = Some (Inr ((c2\<lparr>m_write_dones := []\<rparr>, el2), s'))"
    "content out_b = content (m_out_buffer c) @ concat (map frame ms)"
    "(c2, el2) = run_dones env (zip (map (\<lambda>m. ProtobufP (encoded m)) ms) (map snd (m_write_dones c)))
       (c\<lparr>m_out_buffer := out_b,
          m_write_dones := zip (map (\<lambda>m. ProtobufP (encoded m)) ms) (map snd (m_write_dones c))\<rparr>, el1)"
    by (rule on_write_client [of c ms wr s s' env tid el, OF assms])
  moreover have "content (m_out_buffer (c\<lparr>m_out_buffer := out_b,
      m_write_dones := zip (map (\<lambda>m. ProtobufP (encoded m)) ms) (map snd (m_write_dones c))\<rparr>)) = content out_b"
    by simp
  ultimately show ?thesis by metis
qed

lemma client_sends_queued_messages_witness:
  "\<exists>c2 el2. on_write sample_env 1 (\<lambda>sent data. (Wrote (int (length data)), sent @ data)) []
      (push_send_message (ProtobufP sample_request) 5 (sample_conn TcpConnectionByClient), the_sample_loop) =
      Some (Inr ((c2\<lparr>m_write_dones := []\<rparr>, el2), frame sample_request))"
proof -
  let ?c = "push_send_message (ProtobufP sample_request) 5 (sample_conn TcpConnectionByClient)"
  have c: "m_state ?c = Connected" "m_connection_type ?c = TcpConnectionByClient"
    "m_out_buffer ?c = fresh_buffer 128" "m_write_dones ?c = [(ProtobufP sample_request, 5)]"
    by (simp_all add: sample_conn_def push_send_message_def)
  moreover have "keeps_writes sample_env" by (simp add: keeps_writes_def sample_env_def)
  moreover have "buf_tight (fresh_buffer 128)" using fresh_buffer(1) [of 128] by (simp add: roomy_def)
  ultimately show ?thesis
    using client_sends_queued_messages [of ?c "[sample_request]"
        "\<lambda>sent data. (Wrote (int (length data)), sent @ data)" "[]" "frame sample_request" sample_env 1 the_sample_loop]
      fresh_buffer [of 128] sample_request_wire
    by (auto simp: wire_ok_def buf_limit_def)
qed

lemma on_read_client_all:
  assumes "m_state c = Connected" and "m_connection_type c = TcpConnectionByClient"
    and "roomy (m_in_buffer c)" and "rd s (can_write_bytes_num (m_in_buffer c)) = (ReadData ds, s')"
    and "int (length ds) < can_write_bytes_num (m_in_buffer c)"
    and "content (m_in_buffer c) @ ds = concat (map frame ms) @ r" and "list_all wire_ok ms" and "awaits r"
  obtains in_b where "roomy in_b" "content in_b = r"
    "on_read env tid rd s (c, el) =
      Some (Inr (fold (complete_read env) (map (\<lambda>m. ProtobufP (decoded m)) ms) (c\<lparr>m_in_buffer := in_b\<rparr>, el), s'))"
proof -
  obtain b1 where b1: "read_loop rd (s, m_in_buffer c) = Some (Inr (False, s', b1))" "roomy b1"
      "content b1 = content (m_in_buffer c) @ ds"
    using read_loop_short [of "m_in_buffer c" rd s ds s'] assms(3-5) by blast
  obtain in_b where "ProtobufCoder_decode [] b1 = Some (Inr (map (\<lambda>m. ProtobufP (decoded m)) ms, in_b))" "roomy in_b"
      "content in_b = r"
    using protobuf_stream.dec_law [OF b1(2), of "map ProtobufP ms" r "[]"] b1(3) assms(6-8)
    by (auto simp: comp_def list_all_iff)
  then show thesis
    using that assms(1,2) b1(1) by (simp add: on_read_def excute_def excute_client_def)
qed

lemma on_read_client:
  assumes "m_state c = Connected" and "m_connection_type c = TcpConnectionByClient"
    and "roomy (m_in_buffer c)" and "content (m_in_buffer c) = []" and "wire_ok m"
    and "rd s (can_write_bytes_num (m_in_buffer c)) = (ReadData (frame m), s')"
    and "int (length (frame m)) < can_write_bytes_num (m_in_buffer c)"
  shows "\<exists>in_b. content in_b = [] \<and> roomy in_b \<and> on_read env tid rd s (c, el) =
    Some (Inr (case m_read_dones c (m_msg_id (decoded m)) of
        None \<Rightarrow> (c\<lparr>m_in_buffer := in_b\<rparr>, el)
      | Some d \<Rightarrow> env_run_done env d (ProtobufP (decoded m)) (c\<lparr>m_in_buffer := in_b\<rparr>, el), s'))"
proof -
  have "content (m_in_buffer c) @ frame m = concat (map frame [m]) @ []" "list_all wire_ok [m]" "awaits []"
    using assms(4,5) by (simp_all add: awaits_def)
  then obtain in_b where "roomy in_b" "content in_b = []"
    "on_read env tid rd s (c, el) =
      Some (Inr (fold (complete_read env) (map (\<lambda>m. ProtobufP (decoded m)) [m]) (c\<lparr>m_in_buffer := in_b\<rparr>, el), s'))"
    by (rule on_read_client_all [of c rd s "frame m" s' "[m]" "[]" env tid el, OF assms(1-3,6,7)])
  then show ?thesis
    by (intro exI [of _ in_b]) (simp add: complete_read_def split: option.split)
qed

text \<open>A server whose socket takes all bytes writes what its out buffer holds.\<close>

lemma on_write_server:
  assumes "m_state c = Connected" and "m_connection_type c = TcpConnectionByServer"
    and "buf_tight (m_out_buffer c)" and "content (m_out_buffer c) \<noteq> []"
    and "wr s (content (m_out_buffer c)) = (Wrote (int (length (content (m_out_buffer c)))), s')"
  shows "\<exists>el'. on_write env tid wr s (c, el) = Some (Inr ((c, el'), s'))"
  using assms write_loop_all [of "m_out_buffer c" wr s _ s']
  by (simp add: on_write_def encode_pending_def Let_def buf_tight_inv)

text \<open>Message callbacks that leave the registrations for replies alone, and the callbacks a list of replies reaches.\<close>

definition keeps_reads :: "('cb, 'd, 'm, 'req, 'rsp) conn_env \<Rightarrow> bool" where
  "keeps_reads env \<longleftrightarrow> (\<forall>d p s. m_read_dones (fst (env_run_done env d p s)) = m_read_dones (fst s))"

definition awaited :: "(string \<rightharpoonup> 'd) \<Rightarrow> protobuf_protocol list \<Rightarrow> (protocol \<times> 'd) list" where
  "awaited dones ms = List.map_filter (\<lambda>m. map_option (\<lambda>d. (ProtobufP (decoded m), d)) (dones (m_msg_id (decoded m)))) ms"

lemma complete_reads:
  "keeps_reads env \<Longrightarrow> m_read_dones (fst s) = dones \<Longrightarrow>
   fold (complete_read env) (map (\<lambda>m. ProtobufP (decoded m)) ms) s = run_dones env (awaited dones ms) s"
proof (induction ms arbitrary: s)
  case (Cons m ms)
  show ?case
  proof (cases "dones (m_msg_id (decoded m))")
    case None
    then show ?thesis
      using Cons by (cases s) (simp add: complete_read_def awaited_def run_dones_def)
  next
    case (Some d)
    then have "complete_read env (ProtobufP (decoded m)) s = env_run_done env d (ProtobufP (decoded m)) s"
      using Cons.prems(2) by (cases s) (simp add: complete_read_def)
    moreover have "m_read_dones (fst (env_run_done env d (ProtobufP (decoded m)) s)) = dones"
      using Cons.prems unfolding keeps_reads_def by blast
    ultimately show ?thesis
      using Cons.IH [OF Cons.prems(1), of "env_run_done env d (ProtobufP (decoded m)) s"] Some
      by (simp add: awaited_def run_dones_def)
  qed
qed (simp add: run_dones_def awaited_def)

text \<open>C21 (Responses go to the callbacks of their ids).
  A client connection receives, in one short read behind what it already holds, the frames of well-formed responses and
  perhaps part of another; its callbacks leave the registrations alone. Then \<open>on_read\<close> returns after running, in the order of the
  responses, for each the callback registered for its id with the decoded response, and no other; a response whose id
  nobody waits for is dropped, and the unfinished part stays in the in buffer. A registration stays, so a second response with
  the same id runs the callback again.\<close>

theorem client_completes_calls_in_order:
  assumes "m_state c = Connected" and "m_connection_type c = TcpConnectionByClient"
    and "roomy (m_in_buffer c)" and "rd s (can_write_bytes_num (m_in_buffer c)) = (ReadData ds, s')"
    and "int (length ds) < can_write_bytes_num (m_in_buffer c)"
    and "content (m_in_buffer c) @ ds = concat (map frame ms) @ r" and "list_all wire_ok ms" and "awaits r"
    and "keeps_reads env"
  shows "\<exists>in_b. roomy in_b \<and> content in_b = r \<and> on_read env tid rd s (c, el) =
    Some (Inr (run_dones env (awaited (m_read_dones c) ms) (c\<lparr>m_in_buffer := in_b\<rparr>, el), s'))"
proof -
  obtain in_b where "roomy in_b" "content in_b = r"
    "on_read env tid rd s (c, el) =
      Some (Inr (fold (complete_read env) (map (\<lambda>m. ProtobufP (decoded m)) ms) (c\<lparr>m_in_buffer := in_b\<rparr>, el), s'))"
    by (rule on_read_client_all [of c rd s ds s' ms r env tid el, OF assms(1-8)])
  then show ?thesis
    using complete_reads [OF assms(9), of "(c\<lparr>m_in_buffer := in_b\<rparr>, el)"] by auto
qed

lemma client_completes_calls_in_order_witness:
  "\<exists>in_b. content in_b = [CHR ''x''] \<and>
    on_read (sample_env\<lparr>env_run_done := \<lambda>d p (c, el). (set_state NotConnected c, stop el)\<rparr>) 1
      (one_read (frame sample_request @ frame (sample_request\<lparr>m_msg_id := ''43''\<rparr>) @ [CHR ''x''])) 0
      (push_read_message ''42'' 8 (sample_conn TcpConnectionByClient), the_sample_loop) =
    Some (Inr ((set_state NotConnected ((push_read_message ''42'' 8 (sample_conn TcpConnectionByClient))\<lparr>m_in_buffer := in_b\<rparr>),
      stop the_sample_loop), 1))"
proof -
  let ?c = "push_read_message ''42'' 8 (sample_conn TcpConnectionByClient)"
  let ?m = "sample_request\<lparr>m_msg_id := ''43''\<rparr>"
  let ?env = "sample_env\<lparr>env_run_done := \<lambda>d p (c, el). (set_state NotConnected c, stop el)\<rparr>"
  have c: "m_state ?c = Connected" "m_connection_type ?c = TcpConnectionByClient" "m_in_buffer ?c = fresh_buffer 128"
    "m_read_dones ?c = [''42'' \<mapsto> 8]"
    by (simp_all add: sample_conn_def push_read_message_def)
  have id: "m_msg_id (decoded sample_request) = ''42''" "m_msg_id (decoded ?m) = ''43''"
    by (simp_all add: decoded_def encoded_def Let_def with_msg_id_def sample_request_def)
  have wire: "wire_ok ?m" "length (frame ?m) = 42"
    by (auto simp: wire_ok_def sized_def frame_length sample_request_def with_msg_id_def
        ProtobufProtocol_new_def buf_limit_def in_i32_def nul_def char_of_def)
  have keep: "keeps_reads ?env" by (auto simp: keeps_reads_def set_state_def)
  have run: "run_dones ?env (awaited (m_read_dones ?c) [sample_request, ?m]) (x, el) = (set_state NotConnected x, stop el)" for x el
    by (simp add: run_dones_def awaited_def c(4) id)
  show ?thesis
    using client_completes_calls_in_order [of ?c "one_read (frame sample_request @ frame ?m @ [CHR ''x''])" 0
        "frame sample_request @ frame ?m @ [CHR ''x'']" 1 "[sample_request, ?m]" "[CHR ''x'']" ?env 1 the_sample_loop, OF c(1,2)]
      c(3) keep fresh_buffer [of 128] sample_request_wire wire unfolding run
    by (auto simp: one_read_def awaits_def)
qed

end
