(* ===== verification/Rpc_Channel.thy ===== *)
theory Rpc_Channel
  imports Tcp_Client Msg_Id
begin

text \<open>
  The client stub's channel, \<open>RpcChannel\<close> (\<open>src/net/rpc/rpc_channel.cc\<close>): one remote call from
  \<open>CallMethod\<close> to the reply. The lambdas it passes to the timer, to \<open>connect\<close>, to \<open>write_message\<close> and
  to \<open>read_message\<close> are constructors of \<open>rpc_cb\<close> and \<open>rpc_done\<close>, each with what it captures, and
  the function that runs one is defined next to it. Controllers live in a heap. \<open>SerializeToString\<close> and
  \<open>ParseFromString\<close> are parameters.

  The lemmas show what \<open>CallMethod\<close> does on every branch, that the closure of a call runs at most
  once whatever replies and timer ticks follow in whatever order, and in which cases it never runs.
\<close>

section \<open>State\<close>

datatype rpc_cb = OnRead | OnWrite | DrainWakeup | OnTimer
  | ConnectReady protobuf_protocol nat
  | CallTimeout nat

text \<open>The flag of \<open>ReadDone\<close> tells whether the lambda still holds its channel (\<open>channel.reset()\<close>).\<close>

datatype rpc_done = WriteDone protobuf_protocol nat | ReadDone bool nat

text \<open>A closure is the function it holds, possibly null; \<open>ch_ran\<close> lists the functions called so far.\<close>

record ('req, 'rsp) rpc_channel =
  m_is_init :: bool
  m_controller :: "nat option"
  m_request :: "'req option"
  m_response :: "'rsp option"
  m_closure :: "nat option option"
  m_client :: "(rpc_cb, rpc_done) tcp_client"
  m_timer_evnet :: nat
  ch_loop :: "rpc_cb event_loop"
  ch_controllers :: "nat \<Rightarrow> rpc_controller"
  ch_ids :: msg_id_state
  ch_ran :: "nat list"

record ('req, 'rsp) channel_env =
  ce_tid :: int
  ce_serialize :: "'req \<Rightarrow> string option"
  ce_parse :: "string \<Rightarrow> 'rsp \<Rightarrow> bool \<times> 'rsp"
  ce_inet_ntoa :: "32 word \<Rightarrow> string"
  ce_getsockname :: "sockaddr_in option"
  ce_strerror :: "int \<Rightarrow> string"

definition RpcChannel_new ::
  "int \<Rightarrow> nat \<Rightarrow> int \<Rightarrow> ipv4_net_addr \<Rightarrow> rpc_cb event_loop \<Rightarrow> (nat \<Rightarrow> rpc_controller) \<Rightarrow> msg_id_state \<Rightarrow>
   ('req, 'rsp) rpc_channel res" where
  "RpcChannel_new tid fd_event fd peer_addr el ctls ids =
     bindR (TcpClient_new tid fd_event fd peer_addr OnRead OnWrite el) (\<lambda>(cl, el').
     Inr \<lparr>m_is_init = False, m_controller = None, m_request = None, m_response = None, m_closure = None,
          m_client = cl, m_timer_evnet = 0, ch_loop = el', ch_controllers = ctls, ch_ids = ids, ch_ran = []\<rparr>)"

definition channel_init ::
  "nat option \<Rightarrow> 'req option \<Rightarrow> 'rsp option \<Rightarrow> nat option option \<Rightarrow> ('req, 'rsp) rpc_channel \<Rightarrow> ('req, 'rsp) rpc_channel" where
  "channel_init controller req rsp closure ch =
     (if m_is_init ch then ch
      else ch\<lparr>m_controller := controller, m_request := req, m_response := rsp, m_closure := closure, m_is_init := True\<rparr>)"

section \<open>The lambdas\<close>

definition on_controller :: "nat \<Rightarrow> (rpc_controller \<Rightarrow> rpc_controller) \<Rightarrow> ('req, 'rsp) rpc_channel \<Rightarrow> ('req, 'rsp) rpc_channel" where
  "on_controller ctl f ch = ch\<lparr>ch_controllers := (ch_controllers ch)(ctl := f (ch_controllers ch ctl))\<rparr>"

definition on_client ::
  "((rpc_cb, rpc_done) client_loop \<Rightarrow> (rpc_cb, rpc_done) client_loop) \<Rightarrow> ('req, 'rsp) rpc_channel \<Rightarrow> ('req, 'rsp) rpc_channel" where
  "on_client f ch = (let (cl, el) = f (m_client ch, ch_loop ch) in ch\<lparr>m_client := cl, ch_loop := el\<rparr>)"

definition run_closure :: "('req, 'rsp) rpc_channel \<Rightarrow> ('req, 'rsp) rpc_channel" where
  "run_closure ch = (case m_closure ch of None \<Rightarrow> ch | Some f \<Rightarrow> ch\<lparr>ch_ran := ch_ran ch @ RpcClosure_Run f\<rparr>)"

definition call_timeout :: "nat \<Rightarrow> ('req, 'rsp) rpc_channel \<Rightarrow> ('req, 'rsp) rpc_channel" where
  "call_timeout ctl ch =
     run_closure (on_controller ctl (\<lambda>c. controller_set_error ERROR_RPC_CALL_TIMEOUT
        (''rpc call timeout'' @ int_to_string (m_timeout_ms c)) (StartCancel c)) ch)"

definition connect_done :: "('req, 'rsp) channel_env \<Rightarrow> protobuf_protocol \<Rightarrow> nat \<Rightarrow> ('req, 'rsp) rpc_channel \<Rightarrow> ('req, 'rsp) rpc_channel" where
  "connect_done env req_protocol ctl ch =
     (if m_connect_error_code (m_client ch) \<noteq> 0
      then on_controller ctl (controller_set_error (m_connect_error_code (m_client ch)) (m_connect_error_info (m_client ch))) ch
      else on_client (write_message (ce_tid env) (ProtobufP req_protocol) (WriteDone req_protocol ctl)) ch)"

definition write_done :: "('req, 'rsp) channel_env \<Rightarrow> protobuf_protocol \<Rightarrow> nat \<Rightarrow> ('req, 'rsp) rpc_channel \<Rightarrow> ('req, 'rsp) rpc_channel" where
  "write_done env req_protocol ctl ch = on_client (read_message (ce_tid env) (m_msg_id req_protocol) (ReadDone True ctl)) ch"

definition cancel_timer_event :: "nat \<Rightarrow> 'cb event_loop \<Rightarrow> 'cb event_loop" where
  "cancel_timer_event p el =
     el\<lparr>m_timer := (m_timer el)\<lparr>tm_heap := (tm_heap (m_timer el))(p := set_cancel True (tm_heap (m_timer el) p))\<rparr>\<rparr>"

text \<open>The flag of the result tells whether the lambda still holds its channel.\<close>

definition read_done ::
  "('req, 'rsp) channel_env \<Rightarrow> bool \<Rightarrow> nat \<Rightarrow> protocol \<Rightarrow> ('req, 'rsp) rpc_channel \<Rightarrow> (bool \<times> ('req, 'rsp) rpc_channel) res" where
  "read_done env holds ctl msg ch =
     bindR (as_protobuf msg) (\<lambda>rsp_protocol.
     if \<not> holds then Inl NullDeref
     else let ch1 = ch\<lparr>ch_loop := cancel_timer_event (m_timer_evnet ch) (ch_loop ch)\<rparr>
          in case m_response ch1 of
               None \<Rightarrow> Inl NullDeref
             | Some rsp \<Rightarrow>
                 let (ok, rsp') = ce_parse env (m_pb_data rsp_protocol) rsp; ch2 = ch1\<lparr>m_response := Some rsp'\<rparr>
                 in if \<not> ok then Inr (True, on_controller ctl (controller_set_error ERROR_FAILED_SERIALIZE ''serizlize error'') ch2)
                    else if m_err_code rsp_protocol \<noteq> 0
                    then Inr (True, on_controller ctl (controller_set_error (m_err_code rsp_protocol) (m_err_info rsp_protocol)) ch2)
                    else Inr (False, if \<not> IsCanceled (ch_controllers ch2 ctl) then run_closure ch2 else ch2))"

section \<open>The call\<close>

text \<open>\<open>controller\<close> is the result of the cast to \<open>RpcController\<close>, \<open>p\<close> the address of the new timer event,
  \<open>rt\<close> the result of the system call \<open>connect\<close>; the two arguments of \<open>gen_msg_id\<close> come first.\<close>

definition CallMethod ::
  "int \<Rightarrow> string \<Rightarrow> ('req, 'rsp) channel_env \<Rightarrow> int option \<Rightarrow> nat \<Rightarrow> clock \<Rightarrow> string \<Rightarrow> nat option \<Rightarrow> 'req \<Rightarrow>
   ('req, 'rsp) rpc_channel \<Rightarrow> (('req, 'rsp) rpc_channel \<times> after_connect) res" where
  "CallMethod open_fd urandom env rt p clk method_full_name controller request ch =
     (case controller of
        None \<Rightarrow> Inr (ch, Nothing)
      | Some ctl \<Rightarrow>
          bindR (if rc_msg_id (ch_controllers ch ctl) = []
                 then bindR (gen_msg_id open_fd urandom (ch_ids ch)) (\<lambda>(mid, ids).
                      Inr (mid, on_controller ctl (set_msg_id mid) (ch\<lparr>ch_ids := ids\<rparr>)))
                 else Inr (rc_msg_id (ch_controllers ch ctl), ch)) (\<lambda>(mid, ch1).
          let req = ProtobufProtocol_new\<lparr>m_msg_id := mid, m_method_name := method_full_name\<rparr>
          in if \<not> m_is_init ch1
             then Inr (on_controller ctl (controller_set_error ERROR_RPC_CHANNEL_NOT_INIT ''RpcChannel not init'') ch1, Nothing)
             else case ce_serialize env request of
               None \<Rightarrow> Inr (on_controller ctl (controller_set_error ERROR_FAILED_SERIALIZE ''failed to serizlize'') ch1, Nothing)
             | Some data \<Rightarrow>
                 let req_protocol = req\<lparr>m_pb_data := data\<rparr>;
                     el = ch_loop ch1;
                     (e, clk1) = TimerEvent_new (m_timeout_ms (ch_controllers ch1 ctl)) False (Some (CallTimeout ctl)) clk;
                     el1 = el\<lparr>m_timer := (m_timer el)\<lparr>tm_heap := (tm_heap (m_timer el))(p := e)\<rparr>\<rparr>;
                     ((cl2, el2), clk2) = client_add_timer_event p ((m_client ch1, el1), clk1);
                     ((cl3, el3), next) = connect (ce_tid env) (ce_inet_ntoa env) (ce_getsockname env) (ce_strerror env) rt
                        (ConnectReady req_protocol ctl) (cl2, el2);
                     ch3 = ch1\<lparr>m_timer_evnet := p, m_client := cl3, ch_loop := el3\<rparr>
                 in Inr (if next = RunDone then (connect_done env req_protocol ctl ch3, Nothing) else (ch3, next))))"

text \<open>The write event of a connect in progress.\<close>

definition channel_connect_ready ::
  "('req, 'rsp) channel_env \<Rightarrow> int option \<Rightarrow> int \<Rightarrow> protobuf_protocol \<Rightarrow> nat \<Rightarrow> ('req, 'rsp) rpc_channel \<Rightarrow> ('req, 'rsp) rpc_channel" where
  "channel_connect_ready env rt new_fd req_protocol ctl ch =
     (let ((cl, el), next) = connect_ready (ce_tid env) (ce_inet_ntoa env) (ce_getsockname env) (ce_strerror env) rt new_fd
            (m_client ch, ch_loop ch);
          ch1 = ch\<lparr>m_client := cl, ch_loop := el\<rparr>
      in if next = RunDone then connect_done env req_protocol ctl ch1 else ch1)"

section \<open>After the call\<close>

text \<open>A decoded reply goes to the callback registered for its id, which stays in the map and keeps what it
  changes in itself.\<close>

definition deliver :: "('req, 'rsp) channel_env \<Rightarrow> protocol \<Rightarrow> ('req, 'rsp) rpc_channel \<Rightarrow> ('req, 'rsp) rpc_channel res" where
  "deliver env msg ch =
     (case m_read_dones (m_connection (m_client ch)) (protocol_msg_id msg) of
        None \<Rightarrow> Inr ch
      | Some (WriteDone req_protocol ctl) \<Rightarrow> Inr (write_done env req_protocol ctl ch)
      | Some (ReadDone holds ctl) \<Rightarrow>
          bindR (read_done env holds ctl msg ch) (\<lambda>(holds', ch').
          let cl = m_client ch'; c = m_connection cl
          in Inr (ch'\<lparr>m_client := cl\<lparr>m_connection := c\<lparr>m_read_dones :=
               (m_read_dones c)(protocol_msg_id msg \<mapsto> ReadDone holds' ctl)\<rparr>\<rparr>\<rparr>)))"

fun run_timer_task :: "rpc_cb \<Rightarrow> ('req, 'rsp) rpc_channel \<Rightarrow> ('req, 'rsp) rpc_channel" where
  "run_timer_task (CallTimeout ctl) ch = call_timeout ctl ch"
| "run_timer_task _ ch = ch"

definition tick :: "(nat \<Rightarrow> int \<times> int) \<Rightarrow> clock \<Rightarrow> ('req, 'rsp) rpc_channel \<Rightarrow> ('req, 'rsp) rpc_channel option" where
  "tick rd clk ch =
     (case on_timer rd (m_timer (ch_loop ch), clk) of
        None \<Rightarrow> None
      | Some (tasks, tm, clk') \<Rightarrow>
          Some (fold run_timer_task tasks (ch\<lparr>ch_loop := (ch_loop ch)\<lparr>m_timer := tm\<rparr>\<rparr>)))"

datatype channel_event = Reply protocol | Tick "nat \<Rightarrow> int \<times> int" clock

fun channel_events ::
  "('req, 'rsp) channel_env \<Rightarrow> channel_event list \<Rightarrow> ('req, 'rsp) rpc_channel \<Rightarrow> ('req, 'rsp) rpc_channel res option" where
  "channel_events env [] ch = Some (Inr ch)"
| "channel_events env (Reply msg # es) ch = bindO (Some (deliver env msg ch)) (channel_events env es)"
| "channel_events env (Tick rd clk # es) ch =
     (case tick rd clk ch of None \<Rightarrow> None | Some ch' \<Rightarrow> channel_events env es ch')"
section \<open>At most one completion\<close>

lemma drain_timer_fd_found:
  assumes "drain_timer_fd rd i = Some k"
  shows "rd k = (-1, 11)"
proof (rule drain_timer_fd.raw_induct [of "\<lambda>rd _ k. rd k = (-1, 11)", OF _ assms])
  fix f rd i k
  assume "\<And>rd i k. f rd i = Some k \<Longrightarrow> rd k = (-1, 11 :: int)"
    and "(if fst (rd i) = -1 \<and> snd (rd i) = 11 then Some i else f rd (Suc i)) = Some k"
  then show "rd k = (-1, 11)" by (auto simp: prod_eq_iff split: if_splits)
qed

lemma on_timer_someE:
  assumes "timer_inv tm" and "on_timer rd (tm, clk) = Some (tasks, tm', clk')"
  obtains now where
    "tasks = List.map_filter (\<lambda>e. m_task (tm_heap tm (snd e))) (filter (is_due now tm) (m_pending_events tm))"
    "timer_inv tm'" "\<forall>q. same_but_time (tm_heap tm q) (tm_heap tm' q)"
    "snd ` set (m_pending_events tm') = snd ` {e \<in> set (m_pending_events tm). now < fst e} \<union>
       snd ` {e \<in> set (m_pending_events tm). is_due now tm e \<and> m_is_repeat (tm_heap tm (snd e))}"
proof -
  obtain k where "drain_timer_fd rd 0 = Some k" using assms(2) by (auto simp: on_timer_def split: option.splits)
  then have "rd k = (-1, 11)" by (rule drain_timer_fd_found)
  moreover obtain now clk1 where "get_now_ms clk = (now, clk1)" by (cases "get_now_ms clk")
  ultimately show thesis
  proof (rule on_timer_ok [OF assms(1)])
    fix tm2 clk2
    assume a: "on_timer rd (tm, clk) = Some (List.map_filter (\<lambda>e. m_task (tm_heap tm (snd e)))
        (filter (is_due now tm) (m_pending_events tm)), tm2, clk2)" "timer_inv tm2"
      "\<forall>q. same_but_time (tm_heap tm q) (tm_heap tm2 q)"
      and m: "mset (map snd (m_pending_events tm2)) =
        mset (map snd (filter (\<lambda>e. now < fst e) (m_pending_events tm))) +
        mset (map snd (filter (\<lambda>e. is_due now tm e \<and> m_is_repeat (tm_heap tm (snd e))) (m_pending_events tm)))"
    have eq: "tm2 = tm'" "tasks = List.map_filter (\<lambda>e. m_task (tm_heap tm (snd e)))
        (filter (is_due now tm) (m_pending_events tm))" using a(1) assms(2) by simp_all
    show thesis
      using that [of now] eq(2) a(2,3) arg_cong [OF m, of set_mset] unfolding eq(1) by simp
  qed
qed

lemma fold_timeouts:
  assumes "distinct (map snd xs)" and "h p = Some (CallTimeout ctl)"
    and "\<And>q. q \<in> snd ` set xs \<Longrightarrow> q \<noteq> p \<Longrightarrow> h q \<notin> range (\<lambda>n. Some (CallTimeout n))"
  shows "fold run_timer_task (List.map_filter (\<lambda>e. h (snd e)) xs) ch =
    (if p \<in> snd ` set xs then call_timeout ctl ch else ch)"
  using assms(1,3)
proof (induction xs arbitrary: ch)
  case (Cons x xs)
  have skip: "run_timer_task t ch = ch" if "snd x \<noteq> p" "h (snd x) = Some t" for t
    using Cons.prems(2) [of "snd x"] that by (cases t) auto
  show ?case
    using Cons.prems Cons.IH [of ch] Cons.IH [of "call_timeout ctl ch"] assms(2) skip
    by (cases "snd x = p"; cases "h (snd x)") (auto simp: map_filter_simps)
qed (simp add: map_filter_simps)

text \<open>The timer event at \<open>p\<close> is the one of the call whose controller is \<open>ctl\<close>, and the only timeout.\<close>

definition call_timer :: "nat \<Rightarrow> nat \<Rightarrow> rpc_cb timer \<Rightarrow> bool" where
  "call_timer ctl p tm \<longleftrightarrow>
     timer_inv tm \<and> m_task (tm_heap tm p) = Some (CallTimeout ctl) \<and> \<not> m_is_repeat (tm_heap tm p) \<and>
     (\<forall>q \<in> snd ` set (m_pending_events tm). q \<noteq> p \<longrightarrow> m_task (tm_heap tm q) \<notin> range (\<lambda>n. Some (CallTimeout n)))"

definition may_fire :: "nat \<Rightarrow> rpc_cb timer \<Rightarrow> bool" where
  "may_fire p tm \<longleftrightarrow> p \<in> snd ` set (m_pending_events tm) \<and> \<not> m_is_cancel (tm_heap tm p)"

lemma same_but_time_fields:
  assumes "same_but_time e e'"
  shows "m_task e' = m_task e" "m_is_repeat e' = m_is_repeat e" "m_is_cancel e' = m_is_cancel e"
  using assms by (cases e; cases e'; simp add: same_but_time_def)+

lemma call_timer_tick:
  assumes "call_timer ctl p tm" and "on_timer rd (tm, clk) = Some (tasks, tm', clk')"
  shows "call_timer ctl p tm'"
    and "fold run_timer_task tasks ch = ch \<and> (may_fire p tm' \<longrightarrow> may_fire p tm) \<or>
         fold run_timer_task tasks ch = call_timeout ctl ch \<and> may_fire p tm \<and> \<not> may_fire p tm'"
proof -
  have inv: "timer_inv tm" and dist: "distinct (map snd (m_pending_events tm))"
    using assms(1) by (auto simp: call_timer_def timer_inv_def)
  obtain now where n:
    "tasks = List.map_filter (\<lambda>e. m_task (tm_heap tm (snd e))) (filter (is_due now tm) (m_pending_events tm))"
    "timer_inv tm'" "\<forall>q. same_but_time (tm_heap tm q) (tm_heap tm' q)"
    "snd ` set (m_pending_events tm') = snd ` {e \<in> set (m_pending_events tm). now < fst e} \<union>
       snd ` {e \<in> set (m_pending_events tm). is_due now tm e \<and> m_is_repeat (tm_heap tm (snd e))}"
    by (rule on_timer_someE [OF inv assms(2)])
  have same: "m_task (tm_heap tm' q) = m_task (tm_heap tm q)" "m_is_repeat (tm_heap tm' q) = m_is_repeat (tm_heap tm q)"
    "m_is_cancel (tm_heap tm' q) = m_is_cancel (tm_heap tm q)" for q
    using n(3) same_but_time_fields by metis+
  have sub: "snd ` set (m_pending_events tm') \<subseteq> snd ` set (m_pending_events tm)" using n(4) by auto
  show "call_timer ctl p tm'"
    using assms(1) n(2) sub unfolding call_timer_def same by (meson subsetD)
  let ?due = "filter (is_due now tm) (m_pending_events tm)"
  have "fold run_timer_task tasks ch = (if p \<in> snd ` set ?due then call_timeout ctl ch else ch)"
    unfolding n(1)
    by (rule fold_timeouts [where h = "\<lambda>q. m_task (tm_heap tm q)"])
      (use assms(1) dist in \<open>auto simp: call_timer_def distinct_map_filter\<close>)
  moreover have "may_fire p tm \<and> \<not> may_fire p tm'" if "p \<in> snd ` set ?due"
  proof -
    from that obtain d where d: "d \<in> set (m_pending_events tm)" "is_due now tm d" "snd d = p" by auto
    then obtain k where k: "(k, p) \<in> set (m_pending_events tm)" "is_due now tm (k, p)" by (metis prod.collapse)
    have "p \<notin> snd ` set (m_pending_events tm')"
    proof
      assume "p \<in> snd ` set (m_pending_events tm')"
      then obtain e where e: "e \<in> set (m_pending_events tm)" "snd e = p" "now < fst e"
        using n(4) assms(1) by (auto simp: call_timer_def)
      have "e = (k, p)" using dist k(1) e(1,2) inj_onD [of snd "set (m_pending_events tm)" e "(k, p)"] by (simp add: distinct_map)
      then show False using e(3) k(2) by (simp add: is_due_def)
    qed
    then show ?thesis using k by (force simp: may_fire_def is_due_def)
  qed
  moreover have "may_fire p tm' \<longrightarrow> may_fire p tm" using sub same by (auto simp: may_fire_def)
  ultimately show "fold run_timer_task tasks ch = ch \<and> (may_fire p tm' \<longrightarrow> may_fire p tm) \<or>
         fold run_timer_task tasks ch = call_timeout ctl ch \<and> may_fire p tm \<and> \<not> may_fire p tm'"
    by auto
qed
lemma run_closure_fields [simp]:
  "m_client (run_closure ch) = m_client ch" "ch_loop (run_closure ch) = ch_loop ch"
  "ch_controllers (run_closure ch) = ch_controllers ch" "m_timer_evnet (run_closure ch) = m_timer_evnet ch"
  "m_closure (run_closure ch) = m_closure ch" "m_response (run_closure ch) = m_response ch"
  by (simp_all add: run_closure_def split: option.split)

lemma run_closure_once: "length (ch_ran (run_closure ch)) \<le> Suc (length (ch_ran ch))"
  by (simp add: run_closure_def RpcClosure_Run_def split: option.split)

lemma on_controller_fields [simp]:
  "m_client (on_controller ctl f ch) = m_client ch" "ch_loop (on_controller ctl f ch) = ch_loop ch"
  "ch_ran (on_controller ctl f ch) = ch_ran ch" "m_timer_evnet (on_controller ctl f ch) = m_timer_evnet ch"
  "m_closure (on_controller ctl f ch) = m_closure ch" "m_response (on_controller ctl f ch) = m_response ch"
  "ch_controllers (on_controller ctl f ch) ctl = f (ch_controllers ch ctl)"
  by (simp_all add: on_controller_def)

lemma call_timeout_fields:
  "m_client (call_timeout ctl ch) = m_client ch" "ch_loop (call_timeout ctl ch) = ch_loop ch"
  "m_timer_evnet (call_timeout ctl ch) = m_timer_evnet ch" "m_is_cancled (ch_controllers (call_timeout ctl ch) ctl)"
  "length (ch_ran (call_timeout ctl ch)) \<le> Suc (length (ch_ran ch))"
  by (auto simp: call_timeout_def controller_set_error_def StartCancel_def intro: order_trans [OF run_closure_once])

abbreviation reply_map :: "('req, 'rsp) rpc_channel \<Rightarrow> string \<rightharpoonup> rpc_done" where
  "reply_map ch \<equiv> m_read_dones (m_connection (m_client ch))"

abbreviation channel_timer :: "('req, 'rsp) rpc_channel \<Rightarrow> rpc_cb timer" where
  "channel_timer ch \<equiv> m_timer (ch_loop ch)"

text \<open>The state of a call from the moment its request was written: the only callback for replies and the only
  timeout are its own.\<close>

definition in_call :: "nat \<Rightarrow> nat \<Rightarrow> string \<Rightarrow> ('req, 'rsp) rpc_channel \<Rightarrow> bool" where
  "in_call ctl p mid ch \<longleftrightarrow>
     call_timer ctl p (channel_timer ch) \<and> m_timer_evnet ch = p \<and> (\<exists>h. reply_map ch = [mid \<mapsto> ReadDone h ctl])"

definition completed_once :: "nat \<Rightarrow> nat \<Rightarrow> string \<Rightarrow> ('req, 'rsp) rpc_channel \<Rightarrow> bool" where
  "completed_once ctl p mid ch \<longleftrightarrow>
     length (ch_ran ch) \<le> 1 \<and>
     (ch_ran ch \<noteq> [] \<longrightarrow> \<not> may_fire p (channel_timer ch) \<and>
        (m_is_cancled (ch_controllers ch ctl) \<or> reply_map ch = [mid \<mapsto> ReadDone False ctl]))"

lemma tick_once:
  assumes "in_call ctl p mid ch" and "completed_once ctl p mid ch" and "tick rd clk ch = Some ch'"
  shows "in_call ctl p mid ch' \<and> completed_once ctl p mid ch'"
proof -
  obtain tasks tm clk' where run: "on_timer rd (channel_timer ch, clk) = Some (tasks, tm, clk')"
    and ch': "ch' = fold run_timer_task tasks (ch\<lparr>ch_loop := (ch_loop ch)\<lparr>m_timer := tm\<rparr>\<rparr>)"
    using assms(3) by (auto simp: tick_def split: option.splits)
  let ?ch = "ch\<lparr>ch_loop := (ch_loop ch)\<lparr>m_timer := tm\<rparr>\<rparr>"
  have timer: "call_timer ctl p (channel_timer ch)" using assms(1) by (simp add: in_call_def)
  note t = call_timer_tick [OF timer run]
  from t(2) [of ?ch] show ?thesis
  proof
    assume "fold run_timer_task tasks ?ch = ?ch \<and> (may_fire p tm \<longrightarrow> may_fire p (channel_timer ch))"
    then show ?thesis using assms(1,2) t(1) by (auto simp: ch' in_call_def completed_once_def)
  next
    assume fire: "fold run_timer_task tasks ?ch = call_timeout ctl ?ch \<and> may_fire p (channel_timer ch) \<and> \<not> may_fire p tm"
    then have "ch_ran ch = []" using assms(2) by (auto simp: completed_once_def)
    then show ?thesis
      using assms(1) t(1) fire call_timeout_fields [of ctl ?ch] by (auto simp: ch' in_call_def completed_once_def)
  qed
qed

lemma cancel_timer_event_timer:
  "call_timer ctl p tm \<Longrightarrow> tm = m_timer el \<Longrightarrow> call_timer ctl p (m_timer (cancel_timer_event p el))"
  "\<not> may_fire p (m_timer (cancel_timer_event p el))"
  by (auto simp: call_timer_def timer_inv_def cancel_timer_event_def set_cancel_def may_fire_def)

lemma read_done_once:
  assumes "call_timer ctl p (channel_timer ch)" and "m_timer_evnet ch = p"
    and "read_done env holds ctl msg ch = Inr (holds', ch')"
  shows "holds" "call_timer ctl p (channel_timer ch')" "m_timer_evnet ch' = p" "\<not> may_fire p (channel_timer ch')"
    "m_client ch' = m_client ch"
    "m_is_cancled (ch_controllers ch' ctl) = m_is_cancled (ch_controllers ch ctl)"
    "ch_ran ch' = ch_ran ch \<or>
       \<not> m_is_cancled (ch_controllers ch ctl) \<and> \<not> holds' \<and> length (ch_ran ch') \<le> Suc (length (ch_ran ch))"
  using assms cancel_timer_event_timer(1) [of ctl p _ "ch_loop ch"] cancel_timer_event_timer(2) [of p "ch_loop ch"]
  by (auto simp: read_done_def Let_def fault_simps IsCanceled_def controller_set_error_def
      split: if_splits option.splits prod.splits intro: order_trans [OF run_closure_once])

lemma deliver_once:
  assumes "in_call ctl p mid ch" and "completed_once ctl p mid ch" and "deliver env msg ch = Inr ch'"
  shows "in_call ctl p mid ch' \<and> completed_once ctl p mid ch'"
proof (cases "protocol_msg_id msg = mid")
  case False
  then show ?thesis using assms by (auto simp: in_call_def deliver_def)
next
  case True
  obtain h where h: "reply_map ch = [mid \<mapsto> ReadDone h ctl]" using assms(1) by (auto simp: in_call_def)
  then obtain h' ch1 where one: "read_done env h ctl msg ch = Inr (h', ch1)"
    and ch': "ch' = ch1\<lparr>m_client := (m_client ch1)\<lparr>m_connection := (m_connection (m_client ch1))\<lparr>m_read_dones :=
      (reply_map ch1)(mid \<mapsto> ReadDone h' ctl)\<rparr>\<rparr>\<rparr>"
    using assms(3) True by (auto simp: deliver_def Let_def fault_simps)
  note r = read_done_once [OF _ _ one, of p]
  have timer: "call_timer ctl p (channel_timer ch)" "m_timer_evnet ch = p" using assms(1) by (auto simp: in_call_def)
  have map: "reply_map ch' = [mid \<mapsto> ReadDone h' ctl]" using h r(5) [OF timer] by (simp add: ch')
  have "in_call ctl p mid ch'" using r(2,3) [OF timer] map unfolding in_call_def by (auto simp: ch' simp del: fun_upd_apply)
  moreover have "ch_ran ch = []" if "\<not> m_is_cancled (ch_controllers ch ctl)"
    using assms(2) h r(1) [OF timer] that by (auto simp: completed_once_def dest: fun_cong [of _ _ mid])
  ultimately show ?thesis
    using assms(2) h map r(1,4,6,7) [OF timer] by (auto simp: completed_once_def ch')
qed
lemma channel_events_once:
  "in_call ctl p mid ch \<Longrightarrow> completed_once ctl p mid ch \<Longrightarrow> channel_events env es ch = Some (Inr ch') \<Longrightarrow>
   in_call ctl p mid ch' \<and> completed_once ctl p mid ch'"
proof (induction env es ch rule: channel_events.induct)
  case (2 env msg es ch)
  then obtain ch1 where "deliver env msg ch = Inr ch1" "channel_events env es ch1 = Some (Inr ch')"
    by (auto simp: fault_simps)
  then show ?case using 2 deliver_once by blast
next
  case (3 env rd clk es ch)
  then obtain ch1 where "tick rd clk ch = Some ch1" "channel_events env es ch1 = Some (Inr ch')"
    by (auto split: option.splits)
  then show ?case using 3 tick_once by blast
qed simp

section \<open>The life of a call\<close>

text \<open>What \<open>CallMethod\<close> leaves behind when the connection is made at once: the request, under the id of its
  controller, is the message queued for writing, and the timeout is pending.\<close>

lemma call_timer_added:
  assumes "timer_inv tm" and "p \<notin> snd ` set (m_pending_events tm)"
    and "\<forall>q \<in> snd ` set (m_pending_events tm). m_task (tm_heap tm q) \<notin> range (\<lambda>n. Some (CallTimeout n))"
    and "TimerEvent_new ms False (Some (CallTimeout ctl)) clk = (e, clk1)"
    and "add_time_event p (tm\<lparr>tm_heap := (tm_heap tm)(p := e)\<rparr>, clk1) = (tm', clk2)"
  shows "call_timer ctl p tm' \<and> may_fire p tm'"
proof -
  have e: "m_task e = Some (CallTimeout ctl)" "\<not> m_is_repeat e" "\<not> m_is_cancel e"
    using assms(4) by (auto simp: TimerEvent_new_def split: prod.splits)
  have "timer_inv (tm\<lparr>tm_heap := (tm_heap tm)(p := e)\<rparr>)" using assms(1,2) by (force simp: timer_inv_def)
  then have "timer_inv tm'" using assms(2) add_time_event_inv [OF _ _ assms(5)] by simp
  then show ?thesis
    using add_time_event_fields [OF assms(5)] e assms(3) by (auto simp: call_timer_def may_fire_def)
qed
lemma add_epoll_event_timer [simp]: "m_timer (add_epoll_event tid p el) = m_timer el"
  by (simp add: add_epoll_event_def add_to_epoll_def add_task_def wake_up_def Let_def)

lemma update_event_timer [simp]: "m_timer (update_event p f el) = m_timer el"
  by (simp add: update_event_def)

lemma write_done_fields:
  "channel_timer (write_done env r ctl ch) = channel_timer ch" "ch_ran (write_done env r ctl ch) = ch_ran ch"
  "m_timer_evnet (write_done env r ctl ch) = m_timer_evnet ch"
  "reply_map ch = Map.empty \<Longrightarrow> reply_map (write_done env r ctl ch) = [m_msg_id r \<mapsto> ReadDone True ctl]"
  by (simp_all add: write_done_def on_client_def read_message_def push_read_message_def listen_read_def Let_def)

lemma write_message_fields:
  assumes "m_connect_error_code (m_client ch) = 0"
  shows "channel_timer (connect_done env r ctl ch) = channel_timer ch" "ch_ran (connect_done env r ctl ch) = ch_ran ch"
    "m_timer_evnet (connect_done env r ctl ch) = m_timer_evnet ch" "reply_map (connect_done env r ctl ch) = reply_map ch"
    "m_connection (m_client (connect_done env r ctl ch)) =
       push_send_message (ProtobufP r) (WriteDone r ctl) (m_connection (m_client ch))"
    "m_closure (connect_done env r ctl ch) = m_closure ch" "m_response (connect_done env r ctl ch) = m_response ch"
    "ch_controllers (connect_done env r ctl ch) = ch_controllers ch"
  using assms
  by (simp_all add: connect_done_def on_client_def write_message_def push_send_message_def listen_write_def Let_def)

definition request_protocol :: "string \<Rightarrow> string \<Rightarrow> string \<Rightarrow> protobuf_protocol" where
  "request_protocol mid name data =
     ProtobufProtocol_new\<lparr>m_msg_id := mid, m_method_name := name, m_pb_data := data\<rparr>"

text \<open>A channel that is set up and has no call under way.\<close>

definition idle_channel :: "nat \<Rightarrow> ('req, 'rsp) rpc_channel \<Rightarrow> bool" where
  "idle_channel p ch \<longleftrightarrow>
     m_is_init ch \<and> ch_ran ch = [] \<and> reply_map ch = Map.empty \<and> m_connect_error_code (m_client ch) = 0 \<and>
     timer_inv (channel_timer ch) \<and> p \<notin> snd ` set (m_pending_events (channel_timer ch)) \<and>
     (\<forall>q \<in> snd ` set (m_pending_events (channel_timer ch)).
        m_task (tm_heap (channel_timer ch) q) \<notin> range (\<lambda>n. Some (CallTimeout n)))"

lemma CallMethod_connected:
  assumes "idle_channel p ch" and "rc_msg_id (ch_controllers ch ctl) = mid" and "mid \<noteq> []"
    and "ce_serialize env request = Some data"
    and "CallMethod open_fd urandom env None p clk name (Some ctl) request ch = Inr (ch1, next)"
  shows "next = Nothing" "ch_ran ch1 = []" "reply_map ch1 = Map.empty" "m_timer_evnet ch1 = p"
    "call_timer ctl p (channel_timer ch1)" "may_fire p (channel_timer ch1)"
    "m_connection (m_client ch1) = push_send_message (ProtobufP (request_protocol mid name data))
       (WriteDone (request_protocol mid name data) ctl) ((m_connection (m_client ch))\<lparr>m_state := Connected\<rparr>)"
    "m_closure ch1 = m_closure ch" "m_response ch1 = m_response ch" "ch_controllers ch1 = ch_controllers ch"
proof -
  let ?tm = "channel_timer ch"
  obtain e clk1 where e: "TimerEvent_new (m_timeout_ms (ch_controllers ch ctl)) False (Some (CallTimeout ctl)) clk = (e, clk1)"
    by fastforce
  obtain tm' clk2 where add: "add_time_event p (?tm\<lparr>tm_heap := (tm_heap ?tm)(p := e)\<rparr>, clk1) = (tm', clk2)"
    by fastforce
  have timer: "call_timer ctl p tm' \<and> may_fire p tm'"
    using call_timer_added [OF _ _ _ e add] assms(1) by (simp add: idle_channel_def)
  let ?cl = "init_local_addr (ce_inet_ntoa env) (ce_getsockname env) (set_client_state Connected (m_client ch))"
  let ?ch = "ch\<lparr>m_timer_evnet := p, m_client := ?cl, ch_loop := (ch_loop ch)\<lparr>m_timer := tm'\<rparr>\<rparr>"
  have step: "ch1 = connect_done env (request_protocol mid name data) ctl ?ch" "next = Nothing"
    using assms add e
    by (auto simp: CallMethod_def Let_def idle_channel_def client_add_timer_event_def add_timer_event_def connect_def
        request_protocol_def)
  have cl: "m_connect_error_code ?cl = 0" "m_connection ?cl = (m_connection (m_client ch))\<lparr>m_state := Connected\<rparr>"
    using assms(1) by (simp_all add: idle_channel_def client_defs split: option.split)
  show "next = Nothing" "ch_ran ch1 = []" "reply_map ch1 = Map.empty" "m_timer_evnet ch1 = p"
    "call_timer ctl p (channel_timer ch1)" "may_fire p (channel_timer ch1)"
    "m_connection (m_client ch1) = push_send_message (ProtobufP (request_protocol mid name data))
       (WriteDone (request_protocol mid name data) ctl) ((m_connection (m_client ch))\<lparr>m_state := Connected\<rparr>)"
    "m_closure ch1 = m_closure ch" "m_response ch1 = m_response ch" "ch_controllers ch1 = ch_controllers ch"
    using step write_message_fields [of ?ch env "request_protocol mid name data" ctl] cl timer assms(1)
    by (simp_all add: idle_channel_def)
qed

text \<open>C30 (The closure of a call runs at most once).
  \<open>CallMethod\<close> on a channel that is set up and connects at once queues one message, the serialised request under
  the id of its controller. Once it is written and the reply callback is registered, no sequence of replies and timer
  ticks, in any order, runs the closure more than once: the timeout cancels the call and the reply cancels the
  timeout.\<close>

theorem rpc_call_completes_at_most_once:
  assumes "idle_channel p ch" and "rc_msg_id (ch_controllers ch ctl) = mid" and "mid \<noteq> []"
    and "ce_serialize env request = Some data"
    and "CallMethod open_fd urandom env None p clk name (Some ctl) request ch = Inr (ch1, next)"
    and "channel_events env es (write_done env (request_protocol mid name data) ctl ch1) = Some (Inr ch2)"
  shows "m_write_dones (m_connection (m_client ch1)) = m_write_dones (m_connection (m_client ch)) @
       [(ProtobufP (request_protocol mid name data), WriteDone (request_protocol mid name data) ctl)] \<and>
    length (ch_ran ch2) \<le> 1"
proof -
  note c = CallMethod_connected [OF assms(1-5)]
  let ?r = "request_protocol mid name data"
  have mid: "m_msg_id ?r = mid" by (simp add: request_protocol_def)
  have "in_call ctl p mid (write_done env ?r ctl ch1)" "completed_once ctl p mid (write_done env ?r ctl ch1)"
    using c write_done_fields(1,2,3) [of env ?r ctl ch1] write_done_fields(4) [of ch1 env ?r ctl, OF c(3)] mid
    by (auto simp: in_call_def completed_once_def)
  then have "completed_once ctl p mid ch2" using channel_events_once assms(6) by blast
  then show ?thesis using c(7) by (simp add: completed_once_def push_send_message_def)
qed
lemma deliver_good_reply:
  assumes "reply_map ch mid = Some (ReadDone True ctl)" and "m_closure ch = Some (Some f)" and "m_response ch = Some rsp"
    and "\<not> m_is_cancled (ch_controllers ch ctl)" and "m_msg_id r = mid"
    and "ce_parse env (m_pb_data r) rsp = (True, rsp')" and "m_err_code r = 0"
  shows "\<exists>ch'. deliver env (ProtobufP r) ch = Inr ch' \<and> ch_ran ch' = ch_ran ch @ [f] \<and> m_response ch' = Some rsp' \<and>
    deliver env (ProtobufP r) ch' = Inl NullDeref"
  using assms by (simp add: deliver_def read_done_def Let_def IsCanceled_def run_closure_def RpcClosure_Run_def)

text \<open>A tick changes nothing once the timeout is cancelled.\<close>

lemma ticks_after_cancel:
  "call_timer ctl p (channel_timer ch) \<Longrightarrow> \<not> may_fire p (channel_timer ch) \<Longrightarrow>
   channel_events env (map (\<lambda>(rd, clk). Tick rd clk) ts) ch = Some (Inr ch') \<Longrightarrow> ch_ran ch' = ch_ran ch"
proof (induction ts arbitrary: ch)
  case (Cons t ts)
  obtain rd clk where t: "t = (rd, clk)" by (cases t)
  obtain ch1 where one: "tick rd clk ch = Some ch1"
    and rest: "channel_events env (map (\<lambda>(rd, clk). Tick rd clk) ts) ch1 = Some (Inr ch')"
    using Cons.prems(3) t by (auto split: option.splits)
  obtain tasks tm clk' where run: "on_timer rd (channel_timer ch, clk) = Some (tasks, tm, clk')"
    and ch1: "ch1 = fold run_timer_task tasks (ch\<lparr>ch_loop := (ch_loop ch)\<lparr>m_timer := tm\<rparr>\<rparr>)"
    using one by (auto simp: tick_def split: option.splits)
  note t = call_timer_tick [OF Cons.prems(1) run]
  have same: "ch1 = ch\<lparr>ch_loop := (ch_loop ch)\<lparr>m_timer := tm\<rparr>\<rparr>" "\<not> may_fire p tm"
    using t(2) [of "ch\<lparr>ch_loop := (ch_loop ch)\<lparr>m_timer := tm\<rparr>\<rparr>"] Cons.prems(2) ch1 by auto
  then show ?case using Cons.IH [of ch1] t(1) rest by simp
qed simp


section \<open>A call on concrete data\<close>

definition sample_rpc_loop :: "rpc_cb event_loop" where
  "sample_rpc_loop = projr (EventLoop_new False 1 5 (0, 6, DrainWakeup) (1, 7, OnTimer)
     (\<lambda>_. \<lparr>m_arrive_time = 0, m_interval = 0, m_is_repeat = False, m_is_cancel = False, m_task = None\<rparr>)
     (\<lambda>_. FdEvent_new 9))"

definition sample_channel :: "(string, string) rpc_channel" where
  "sample_channel = channel_init (Some 0) (Some ''order'') (Some []) (Some (Some 77))
     (projr (RpcChannel_new 1 2 9 sample_addr sample_rpc_loop (\<lambda>_. set_msg_id ''42'' RpcController_new) msg_id_initial))"

definition sample_channel_env :: "(string, string) channel_env" where
  "sample_channel_env = \<lparr>ce_tid = 1, ce_serialize = Some, ce_parse = (\<lambda>s r. (s \<noteq> [], s)), ce_inet_ntoa = (\<lambda>_. ''127.0.0.1''),
     ce_getsockname = None, ce_strerror = (\<lambda>_. ''error'')\<rparr>"

lemma sample_channel_idle:
  "idle_channel 3 sample_channel" "rc_msg_id (ch_controllers sample_channel ctl) = ''42''"
  "m_closure sample_channel = Some (Some 77)" "m_response sample_channel = Some []"
  "ch_controllers sample_channel ctl = set_msg_id ''42'' RpcController_new"
  by (simp_all add: idle_channel_def sample_channel_def channel_init_def RpcChannel_new_def TcpClient_new_def
      TcpConnection_new_def TcpBuffer_new_def sample_rpc_loop_def EventLoop_new_def init_wakeup_fd_event_def init_timer_def
      Timer_new_def timer_inv_def set_msg_id_def vec_new_def Let_def)
definition sample_reply :: "int \<Rightarrow> string \<Rightarrow> protobuf_protocol" where
  "sample_reply code data = (request_protocol ''42'' ''S.m'' data)\<lparr>m_err_code := code, m_err_info := ''failed''\<rparr>"

definition sample_call :: "(string, string) rpc_channel" where
  "sample_call = fst (projr (CallMethod 4 ''seed'' sample_channel_env None 3 sample_clock ''S.m'' (Some 0) ''order'' sample_channel))"

lemma sample_call: "CallMethod 4 ''seed'' sample_channel_env None 3 sample_clock ''S.m'' (Some 0) ''order'' sample_channel =
    Inr (sample_call, Nothing)"
  using sample_channel_idle
  by (simp add: sample_call_def CallMethod_def Let_def idle_channel_def sample_channel_env_def connect_def case_prod_unfold)

definition sample_waiting :: "(string, string) rpc_channel" where
  "sample_waiting = write_done sample_channel_env (request_protocol ''42'' ''S.m'' ''order'') 0 sample_call"

lemma sample_waiting:
  "call_timer 0 3 (channel_timer sample_waiting)" "m_timer_evnet sample_waiting = 3"
  "reply_map sample_waiting ''42'' = Some (ReadDone True 0)" "ch_ran sample_waiting = []"
  using CallMethod_connected [OF sample_channel_idle(1,2) _ _ sample_call]
    write_done_fields [where env = sample_channel_env and r = "request_protocol ''42'' ''S.m'' ''order''"
        and ctl = 0 and ch = sample_call]
  by (simp_all add: sample_waiting_def sample_channel_env_def request_protocol_def)

lemma sample_waiting_rest:
  "m_closure sample_waiting = Some (Some 77)" "m_response sample_waiting = Some []"
  "\<not> m_is_cancled (ch_controllers sample_waiting 0)"
  using sample_channel_idle
  by (simp_all add: sample_waiting_def write_done_def on_client_def sample_call_def CallMethod_def Let_def idle_channel_def
      sample_channel_env_def case_prod_unfold connect_done_def client_defs client_add_timer_event_def
      set_msg_id_def RpcController_new_def)


lemma rpc_call_completes_at_most_once_witness:
  "\<exists>ch2. channel_events sample_channel_env [Reply (ProtobufP (sample_reply 5 ''ok'')), Reply (ProtobufP (sample_reply 0 ''ok''))]
      sample_waiting = Some (Inr ch2) \<and> length (ch_ran ch2) \<le> 1"
proof -
  obtain ch2 where ch2: "channel_events sample_channel_env [Reply (ProtobufP (sample_reply 5 ''ok'')),
      Reply (ProtobufP (sample_reply 0 ''ok''))] sample_waiting = Some (Inr ch2)"
    using sample_waiting sample_waiting_rest
    by (simp add: deliver_def read_done_def Let_def sample_reply_def request_protocol_def sample_channel_env_def
        on_controller_def IsCanceled_def controller_set_error_def)
  have "ce_serialize sample_channel_env ''order'' = Some ''order''" by (simp add: sample_channel_env_def)
  then show ?thesis
    using rpc_call_completes_at_most_once [OF sample_channel_idle(1,2) _ _ sample_call ch2 [unfolded sample_waiting_def]] ch2
    by blast
qed


end
