(* ===== verification/Rpc_Call.thy ===== *)
theory Rpc_Call
  imports Rpc_Channel
begin

text \<open>
  A whole remote call: \<open>CallMethod\<close> of the client's channel, the write and read handlers of the
  connections on both sides, the coders, the dispatcher and the service, composed over a socket
  that takes and delivers all bytes at once.

  The client's message callbacks are those of its channel. A connection's handlers see only the
  connection and its loop, so \<open>with_conn\<close> puts what they leave back into the channel, and
  \<open>write_done_conn\<close> shows that the write callback does to them what \<open>write_done\<close> does to the channel.
\<close>

definition conn_part :: "('req, 'rsp) rpc_channel \<Rightarrow> (rpc_cb, rpc_done) conn_loop" where
  "conn_part ch = (m_connection (m_client ch), ch_loop ch)"

definition with_conn :: "(rpc_cb, rpc_done) conn_loop \<Rightarrow> ('req, 'rsp) rpc_channel \<Rightarrow> ('req, 'rsp) rpc_channel" where
  "with_conn s ch = ch\<lparr>m_client := (m_client ch)\<lparr>m_connection := fst s\<rparr>, ch_loop := snd s\<rparr>"

definition client_env ::
  "int \<Rightarrow> (nat \<Rightarrow> protocol \<Rightarrow> (rpc_cb, rpc_done) conn_loop \<Rightarrow> (rpc_cb, rpc_done) conn_loop) \<Rightarrow>
   (rpc_cb, rpc_done, unit, unit, unit) conn_env" where
  "client_env tid reply = \<lparr>env_debug = False, env_services = Map.empty,
     env_run_done = (\<lambda>d msg (c, el). case d of
        WriteDone r ctl \<Rightarrow> listen_read tid (push_read_message (m_msg_id r) (ReadDone True ctl) c, el)
      | ReadDone holds ctl \<Rightarrow> reply ctl msg (c, el))\<rparr>"

lemma write_done_conn:
  "write_done env r ctl ch = with_conn (env_run_done (client_env (ce_tid env) reply) (WriteDone r ctl) msg (conn_part ch)) ch"
  by (simp add: write_done_def with_conn_def conn_part_def client_env_def on_client_def read_message_def split_beta)

text \<open>A socket that takes everything and remembers it.\<close>

definition full_write :: "string \<Rightarrow> string \<Rightarrow> write_result \<times> string" where
  "full_write sent data = (Wrote (int (length data)), sent @ data)"

lemma listen_read_conn [simp]: "fst (listen_read tid (c, el)) = c"
  by (simp add: listen_read_def Let_def)

lemma push_read_message_fields [simp]:
  "m_in_buffer (push_read_message k d c) = m_in_buffer c" "m_state (push_read_message k d c) = m_state c"
  "m_connection_type (push_read_message k d c) = m_connection_type c" "m_write_dones (push_read_message k d c) = m_write_dones c"
  "m_read_dones c k = None \<Longrightarrow> m_read_dones (push_read_message k d c) = (m_read_dones c)(k \<mapsto> d)"
  by (simp_all add: push_read_message_def)

text \<open>The client's half: its one queued request goes out, and its callback then waits for the reply.\<close>

lemma client_writes_request:
  fixes c :: "(rpc_cb, rpc_done) tcp_connection"
  assumes "m_state c = Connected" and "m_connection_type c = TcpConnectionByClient"
    and "buf_tight (m_out_buffer c)" and "content (m_out_buffer c) = []" and "m_write_dones c = [(ProtobufP r, WriteDone r ctl)]"
    and "m_read_dones c = Map.empty" and "sized r" and "keeps_writes (client_env tid reply)"
    and "wr s (frame r) = (Wrote (int (length (frame r))), s')"
  obtains c' el' where "on_write (client_env tid reply) tid wr s (c, el) = Some (Inr ((c', el'), s'))"
    "m_state c' = Connected" "m_connection_type c' = TcpConnectionByClient" "m_in_buffer c' = m_in_buffer c"
    "m_read_dones c' = [m_msg_id r \<mapsto> ReadDone True ctl]" "conn_fd_event c' = conn_fd_event c"
    "el' = add_epoll_event tid (conn_fd_event c) (update_event (conn_fd_event c)
       (listen (conn_fd_event c) IN_EVENT (Some (conn_on_read c)) None)
       (add_epoll_event tid (conn_fd_event c) (update_event (conn_fd_event c) (cancel OUT_EVENT) el)))"
proof -
  obtain out_b el1 c2 el2 where w:
    "on_write (client_env tid reply) tid wr s (c, el) = Some (Inr ((c2\<lparr>m_write_dones := []\<rparr>, el2), s'))"
    "(c2, el2) = run_dones (client_env tid reply) [(ProtobufP (encoded r), WriteDone r ctl)]
       (c\<lparr>m_out_buffer := out_b, m_write_dones := [(ProtobufP (encoded r), WriteDone r ctl)]\<rparr>, el1)"
    "el1 = add_epoll_event tid (conn_fd_event c) (update_event (conn_fd_event c) (cancel OUT_EVENT) el)"
    by (rule on_write_client [of c "[r]" wr s s' "client_env tid reply" tid el])
      (use assms in \<open>auto simp: sized_def\<close>)
  let ?c1 = "c\<lparr>m_out_buffer := out_b, m_write_dones := [(ProtobufP (encoded r), WriteDone r ctl)]\<rparr>"
  have "c2 = push_read_message (m_msg_id r) (ReadDone True ctl) ?c1"
    "el2 = snd (listen_read tid (push_read_message (m_msg_id r) (ReadDone True ctl) ?c1, el1))"
    using arg_cong [OF w(2), of fst] arg_cong [OF w(2), of snd] by (simp_all add: run_dones_def client_env_def)
  then show thesis
    using that [OF w(1)] assms(1-6) w(3) by (simp add: listen_read_def Let_def push_read_message_def)
qed

lemma decoded_fields [simp]:
  "m_msg_id r \<noteq> [] \<Longrightarrow> m_msg_id (decoded r) = m_msg_id r"
  "m_method_name (decoded r) = m_method_name r" "m_pb_data (decoded r) = m_pb_data r"
  "m_err_code (decoded r) = m_err_code r"
  by (simp_all add: decoded_def encoded_def with_msg_id_def Let_def)

text \<open>The server's half: the request comes in, its answer goes out.\<close>

lemma server_serves_request:
  fixes c :: "('cb, 'd) tcp_connection"
  assumes "m_state c = Connected" and "m_connection_type c = TcpConnectionByServer"
    and "roomy (m_in_buffer c)" and "content (m_in_buffer c) = []"
    and "buf_tight (m_out_buffer c)" and "content (m_out_buffer c) = []"
    and "conn_local_addr c = Some l" and "conn_peer_addr c = Some p"
    and "int (length (frame r)) < can_write_bytes_num (m_in_buffer c)" and "wire_ok r"
    and "answer env c (decoded r) = rsp" and "sized rsp"
    and "loop_inv el" and "m_thread_id el = tid"
  obtains c1 el1 el2 where "on_read env tid (one_read (frame r)) 0 (c, el) = Some (Inr ((c1, el1), 1))"
    "on_write env tid full_write [] (c1, el1) = Some (Inr ((c1, el2), frame rsp))"
proof -
  obtain in_b out_b el1 where rd: "on_read env tid (one_read (frame r)) 0 (c, el) =
      Some (Inr ((c\<lparr>m_in_buffer := in_b, m_out_buffer := out_b\<rparr>, el1), 1))"
    "buf_tight out_b" "content out_b = frame rsp"
    by (rule on_read_server [of c l p "one_read (frame r)" 0 "frame r" 1 "[r]" "[]" env el tid])
      (use assms in \<open>auto simp: one_read_def awaits_def sized_def\<close>)
  obtain el2 where "on_write env tid full_write [] (c\<lparr>m_in_buffer := in_b, m_out_buffer := out_b\<rparr>, el1) =
      Some (Inr ((c\<lparr>m_in_buffer := in_b, m_out_buffer := out_b\<rparr>, el2), frame rsp))"
    using on_write_server [of "c\<lparr>m_in_buffer := in_b, m_out_buffer := out_b\<rparr>" full_write "[]" "frame rsp" env tid el1]
      assms(1,2) rd(2,3) frame_nonempty [of rsp] by (auto simp: full_write_def)
  with rd(1) show thesis by (rule that)
qed

definition method_full_name :: "('m, 'req, 'rsp) service \<Rightarrow> string \<Rightarrow> string" where
  "method_full_name svc meth = full_name svc @ CHR ''.'' # meth"

lemma registered_answer:
  assumes "env_services env = register_service svc m" and "CHR ''.'' \<notin> set (full_name svc)"
    and "find_method svc meth = Some md" and "parse_request svc md data = Some arg"
    and "serialize svc (call_method svc md (call_controller mid l p) arg) = (True, result)"
    and "conn_local_addr c = Some l" and "conn_peer_addr c = Some p" and "mid \<noteq> []"
  shows "answer env c (decoded (request_protocol mid (method_full_name svc meth) data)) =
    request_protocol mid (method_full_name svc meth) result"
  using dispatcher_registered [of svc meth md "decoded (request_protocol mid (method_full_name svc meth) data)"
      arg l p result "env_debug env" m] assms
  by (simp add: answer_def request_protocol_def method_full_name_def)

text \<open>A connection that has nothing buffered.\<close>

definition fresh_conn :: "connection_type \<Rightarrow> ('cb, 'd) tcp_connection \<Rightarrow> bool" where
  "fresh_conn t c \<longleftrightarrow> m_connection_type c = t \<and> roomy (m_in_buffer c) \<and> content (m_in_buffer c) = [] \<and>
     buf_tight (m_out_buffer c) \<and> content (m_out_buffer c) = []"

text \<open>The client's other half: the answer comes in and completes the call.\<close>

lemma client_gets_answer:
  assumes "m_state c = Connected" and "m_connection_type c = TcpConnectionByClient"
    and "roomy (m_in_buffer c)" and "content (m_in_buffer c) = []"
    and "m_read_dones c = [mid \<mapsto> ReadDone True ctl]" and "wire_ok a" and "m_msg_id a = mid" and "mid \<noteq> []"
    and "int (length (frame a)) < can_write_bytes_num (m_in_buffer c)"
  obtains in_b where "on_read (client_env tid reply) tid (one_read (frame a)) 0 (c, el) =
    Some (Inr (reply ctl (ProtobufP (decoded a)) (c\<lparr>m_in_buffer := in_b\<rparr>, el), 1))"
  using on_read_client [of c a "one_read (frame a)" 0 1 "client_env tid reply" tid el] assms
  by (auto simp: one_read_def client_env_def)

lemma call_completes:
  assumes "m_read_dones (fst s) = [mid \<mapsto> ReadDone True ctl]" and "m_closure ch = Some (Some f)"
    and "m_response ch = Some rsp0" and "\<not> m_is_cancled (ch_controllers ch ctl)" and "m_msg_id a = mid" and "mid \<noteq> []"
    and "ce_parse env (m_pb_data a) rsp0 = (True, rsp1)" and "m_err_code a = 0" and "ch_ran ch = []"
  obtains ch' where "deliver env (ProtobufP (decoded a)) (with_conn s ch) = Inr ch'" "ch_ran ch' = [f]"
    "m_response ch' = Some rsp1"
  using deliver_good_reply [of "with_conn s ch" mid ctl f rsp0 "decoded a" env rsp1] assms
  by (auto simp: with_conn_def)

section \<open>One exchange\<close>

definition ready_client :: "nat \<Rightarrow> nat \<Rightarrow> string \<Rightarrow> ('req, 'rsp) rpc_channel \<Rightarrow> bool" where
  "ready_client p ctl mid ch \<longleftrightarrow> idle_channel p ch \<and> rc_msg_id (ch_controllers ch ctl) = mid \<and> mid \<noteq> [] \<and>
     fresh_conn TcpConnectionByClient (m_connection (m_client ch)) \<and> m_write_dones (m_connection (m_client ch)) = []"

definition ready_server ::
  "int \<Rightarrow> ipv4_net_addr \<Rightarrow> ipv4_net_addr \<Rightarrow> ('cb, 'd) conn_loop \<Rightarrow> bool" where
  "ready_server tid l q s \<longleftrightarrow> m_state (fst s) = Connected \<and> fresh_conn TcpConnectionByServer (fst s) \<and>
     conn_local_addr (fst s) = Some l \<and> conn_peer_addr (fst s) = Some q \<and> loop_inv (snd s) \<and> m_thread_id (snd s) = tid"

text \<open>The client at \<open>s\<close> writes exactly the frame of \<open>req\<close>, the server at \<open>t\<close> reads it and writes exactly the frame
  of \<open>rsp\<close>, and the client's read of that runs the callback of replies, on \<open>s'\<close>, with the message \<open>rsp\<close>.\<close>

definition exchange ::
  "('cb, 'd, 'm, 'req, 'rsp) conn_env \<Rightarrow> int \<Rightarrow> ('cb2, 'd2, 'm2, 'req2, 'rsp2) conn_env \<Rightarrow> int \<Rightarrow> nat \<Rightarrow>
   (nat \<Rightarrow> protocol \<Rightarrow> ('cb, 'd) conn_loop \<Rightarrow> ('cb, 'd) conn_loop) \<Rightarrow> ('cb, 'd) conn_loop \<Rightarrow> ('cb2, 'd2) conn_loop \<Rightarrow>
   protobuf_protocol \<Rightarrow> protobuf_protocol \<Rightarrow> ('cb, 'd) conn_loop \<Rightarrow> bool" where
  "exchange cenv ctid senv stid ctl reply s t req rsp s' \<longleftrightarrow> (\<exists>s1 t1 t2.
     on_write cenv ctid full_write [] s = Some (Inr (s1, frame req)) \<and>
     on_read senv stid (one_read (frame req)) 0 t = Some (Inr (t1, 1)) \<and>
     on_write senv stid full_write [] t1 = Some (Inr (t2, frame rsp)) \<and>
     on_read cenv ctid (one_read (frame rsp)) 0 s1 = Some (Inr (reply ctl (ProtobufP (decoded rsp)) s', 1)))"

text \<open>The client's two handlers: one frame goes out, and any answer under the call's id comes in and reaches the callback.\<close>

lemma client_half:
  fixes ch :: "('req, 'rsp) rpc_channel"
  assumes "ready_client p ctl mid ch" and "keeps_writes (client_env (ce_tid cenv) reply)"
    and "ce_serialize cenv request = Some data"
    and "CallMethod open_fd urandom cenv None p clk name (Some ctl) request ch = Inr (ch1, nxt)"
    and "wire_ok (request_protocol mid name data)"
    and "wire_ok a" and "m_msg_id a = mid" and "int (length (frame a)) < can_write_bytes_num (m_in_buffer (m_connection (m_client ch)))"
  obtains s1 s' where
    "on_write (client_env (ce_tid cenv) reply) (ce_tid cenv) full_write [] (conn_part ch1) = Some (Inr (s1, frame (request_protocol mid name data)))"
    "on_read (client_env (ce_tid cenv) reply) (ce_tid cenv) (one_read (frame a)) 0 s1 = Some (Inr (reply ctl (ProtobufP (decoded a)) s', 1))"
    "m_read_dones (fst s') = [mid \<mapsto> ReadDone True ctl]"
proof -
  let ?q = "request_protocol mid name data"
  have cli: "idle_channel p ch" "rc_msg_id (ch_controllers ch ctl) = mid" "mid \<noteq> []"
    "fresh_conn TcpConnectionByClient (m_connection (m_client ch))" "m_write_dones (m_connection (m_client ch)) = []"
    using assms(1) by (simp_all add: ready_client_def)
  have id: "m_msg_id ?q = mid" by (simp add: request_protocol_def)
  note call = CallMethod_connected [OF cli(1-3) assms(3,4)]
  obtain c el where ch1: "conn_part ch1 = (c, el)" by fastforce
  then have c: "c = push_send_message (ProtobufP ?q) (WriteDone ?q ctl) ((m_connection (m_client ch))\<lparr>m_state := Connected\<rparr>)"
    using call(7) by (simp add: conn_part_def)
  have cf: "m_state c = Connected" "m_write_dones c = [(ProtobufP ?q, WriteDone ?q ctl)]" "m_read_dones c = Map.empty"
    "m_connection_type c = TcpConnectionByClient" "m_in_buffer c = m_in_buffer (m_connection (m_client ch))"
    "m_out_buffer c = m_out_buffer (m_connection (m_client ch))"
    using cli by (simp_all add: c push_send_message_def fresh_conn_def idle_channel_def)
  obtain c1 el1 where out: "on_write (client_env (ce_tid cenv) reply) (ce_tid cenv) full_write [] (c, el) = Some (Inr ((c1, el1), frame ?q))"
    "m_state c1 = Connected" "m_connection_type c1 = TcpConnectionByClient" "m_in_buffer c1 = m_in_buffer c"
    "m_read_dones c1 = [m_msg_id ?q \<mapsto> ReadDone True ctl]"
    by (rule client_writes_request [of c ?q ctl "ce_tid cenv" reply full_write "[]" "frame ?q" el])
      (use assms(2,5) cli(4) cf in \<open>auto simp: fresh_conn_def wire_ok_def full_write_def\<close>)
  obtain in_b where "on_read (client_env (ce_tid cenv) reply) (ce_tid cenv) (one_read (frame a)) 0 (c1, el1) =
      Some (Inr (reply ctl (ProtobufP (decoded a)) (c1\<lparr>m_in_buffer := in_b\<rparr>, el1), 1))"
    by (rule client_gets_answer [of c1 mid ctl a "ce_tid cenv" reply el1])
      (use assms(6-8) cli(3,4) out cf id in \<open>auto simp: fresh_conn_def\<close>)
  then show thesis by (rule that [OF out(1) [folded ch1]]) (use out(5) id in simp)
qed

lemma exchange_ok:
  fixes ch :: "('req, 'rsp) rpc_channel"
  assumes "ready_client p ctl mid ch" and "ready_server tid l q (sv, sel)" and "keeps_writes (client_env (ce_tid cenv) reply)"
    and "ce_serialize cenv request = Some data"
    and "CallMethod open_fd urandom cenv None p clk name (Some ctl) request ch = Inr (ch1, nxt)"
    and "answer senv sv (decoded (request_protocol mid name data)) = a"
    and "wire_ok (request_protocol mid name data)" and "wire_ok a"
    and "int (length (frame (request_protocol mid name data))) < can_write_bytes_num (m_in_buffer sv)"
    and "int (length (frame a)) < can_write_bytes_num (m_in_buffer (m_connection (m_client ch)))"
  obtains s' where
    "exchange (client_env (ce_tid cenv) reply) (ce_tid cenv) senv tid ctl reply (conn_part ch1) (sv, sel) (request_protocol mid name data) a s'"
    "m_read_dones (fst s') = [mid \<mapsto> ReadDone True ctl]" "m_msg_id a = mid"
proof -
  let ?q = "request_protocol mid name data"
  have srv: "m_state sv = Connected" "fresh_conn TcpConnectionByServer sv" "conn_local_addr sv = Some l" "conn_peer_addr sv = Some q"
    "loop_inv sel" "m_thread_id sel = tid"
    using assms(2) by (simp_all add: ready_server_def)
  have mid: "mid \<noteq> []" "m_msg_id ?q = mid" using assms(1) by (simp_all add: ready_client_def request_protocol_def)
  have aid: "m_msg_id a = mid"
    using answer_ok(2) [OF srv(3,4), of senv "decoded ?q"] assms(6) mid by simp
  obtain s1 s' where cli: "on_write (client_env (ce_tid cenv) reply) (ce_tid cenv) full_write [] (conn_part ch1) = Some (Inr (s1, frame ?q))"
    "on_read (client_env (ce_tid cenv) reply) (ce_tid cenv) (one_read (frame a)) 0 s1 = Some (Inr (reply ctl (ProtobufP (decoded a)) s', 1))"
    "m_read_dones (fst s') = [mid \<mapsto> ReadDone True ctl]"
    by (rule client_half [OF assms(1,3,4,5,7,8) aid assms(10)])
  obtain c2 l1 l2 where serve: "on_read senv tid (one_read (frame ?q)) 0 (sv, sel) = Some (Inr ((c2, l1), 1))"
    "on_write senv tid full_write [] (c2, l1) = Some (Inr ((c2, l2), frame a))"
    using server_serves_request [of sv l q ?q senv a sel tid] srv assms(6-9) by (auto simp: fresh_conn_def wire_ok_def)
  have "exchange (client_env (ce_tid cenv) reply) (ce_tid cenv) senv tid ctl reply (conn_part ch1) (sv, sel) ?q a s'"
    unfolding exchange_def using cli(1,2) serve by blast
  then show thesis by (rule that) (rule cli(3), rule aid)
qed

text \<open>A reply that reports an error fails the call.\<close>

lemma call_fails:
  assumes "m_read_dones (fst s) = [mid \<mapsto> ReadDone True ctl]" and "m_response ch = Some rsp0" and "m_msg_id a = mid" and "mid \<noteq> []"
    and "ce_parse env (m_pb_data a) rsp0 = (ok, rsp1)" and "m_err_code a \<noteq> 0" and "ch_ran ch = []"
  shows "\<exists>ch'. deliver env (ProtobufP (decoded a)) (with_conn s ch) = Inr ch' \<and> ch_ran ch' = [] \<and>
    Failed (ch_controllers ch' ctl) \<and> m_error_code (ch_controllers ch' ctl) = (if ok then m_err_code a else ERROR_FAILED_SERIALIZE)"
  using assms
  by (cases ok) (simp_all add: deliver_def read_done_def Let_def with_conn_def on_controller_def Failed_def controller_set_error_def)

text \<open>The answer to a call of a service that is not there.\<close>

definition not_found :: "string \<Rightarrow> string \<Rightarrow> protobuf_protocol" where
  "not_found mid name = set_protubuf_error ERROR_SERVICE_NOT_FOUND ''service not found'' (request_protocol mid name [])"

lemma not_found_fields:
  "m_err_code (not_found mid name) = ERROR_SERVICE_NOT_FOUND" "m_pb_data (not_found mid name) = []"
  "ERROR_SERVICE_NOT_FOUND \<noteq> 0"
  by (simp_all add: not_found_def request_protocol_def set_protubuf_error_def ERROR_SERVICE_NOT_FOUND_def)

lemma not_found_answer:
  assumes "env_services env service = None" and "CHR ''.'' \<notin> set service" and "mid \<noteq> []"
  shows "answer env c (decoded (request_protocol mid (service @ CHR ''.'' # meth) data)) = not_found mid (service @ CHR ''.'' # meth)"
  using assms(1,3) parse_service_full_name_split [OF assms(2), of meth] decoded_fields(1) [of "request_protocol mid (service @ CHR ''.'' # meth) data"]
  by (simp add: answer_def dispatcher_simps not_found_def request_protocol_def ProtobufProtocol_new_def)

lemma not_found_wire:
  assumes "wire_ok (request_protocol mid name data)"
  shows "wire_ok (not_found mid name)"
  using assms
  by (auto simp: wire_ok_def sized_def frame_length request_protocol_def not_found_def set_protubuf_error_def with_msg_id_def
      ProtobufProtocol_new_def buf_limit_def in_i32_def nul_def char_of_def ERROR_SERVICE_NOT_FOUND_def)

section \<open>A client and a server on concrete data\<close>

lemma sample_client:
  "ready_client 3 0 ''42'' sample_channel" "\<not> m_is_cancled (ch_controllers sample_channel 0)"
  "can_write_bytes_num (m_in_buffer (m_connection (m_client sample_channel))) = 128"
  "keeps_writes (client_env 1 (\<lambda>_ _ s. s))"
proof -
  have cl: "m_in_buffer (m_connection (m_client sample_channel)) = fresh_buffer 128"
    "m_out_buffer (m_connection (m_client sample_channel)) = fresh_buffer 128"
    "m_connection_type (m_connection (m_client sample_channel)) = TcpConnectionByClient"
    "m_write_dones (m_connection (m_client sample_channel)) = []"
    by (simp_all add: sample_channel_def channel_init_def RpcChannel_new_def TcpClient_new_def TcpConnection_new_def
        TcpBuffer_new_def vec_new_def Let_def fresh_buffer_def sample_rpc_loop_def EventLoop_new_def init_wakeup_fd_event_def
        init_timer_def Timer_new_def)
  then show "ready_client 3 0 ''42'' sample_channel"
    using fresh_buffer [of 128] sample_channel_idle(1,2) by (simp add: ready_client_def fresh_conn_def roomy_def)
  show "can_write_bytes_num (m_in_buffer (m_connection (m_client sample_channel))) = 128"
    using cl fresh_buffer(3) [of 128] by simp
  show "\<not> m_is_cancled (ch_controllers sample_channel 0)"
    using sample_channel_idle(5) by (simp add: set_msg_id_def RpcController_new_def)
  show "keeps_writes (client_env 1 (\<lambda>_ _ s. s))"
    by (auto simp: keeps_writes_def client_env_def listen_read_def push_read_message_def Let_def split: rpc_done.splits)
qed

lemma sample_call_ok:
  obtains ch1 where "CallMethod 4 ''seed'' sample_channel_env None 3 sample_clock name (Some 0) ''order'' sample_channel = Inr (ch1, Nothing)"
  using sample_channel_idle
  by (simp add: CallMethod_def Let_def idle_channel_def sample_channel_env_def connect_def case_prod_unfold)

lemma sample_channel_env:
  "ce_tid sample_channel_env = 1" "ce_serialize sample_channel_env d = Some d" "ce_parse sample_channel_env s r = (s \<noteq> [], s)"
  by (simp_all add: sample_channel_env_def)

lemma sample_server_ready:
  "ready_server 1 sample_addr sample_addr (sample_conn TcpConnectionByServer, the_sample_loop)"
  "can_write_bytes_num (m_in_buffer (sample_conn TcpConnectionByServer)) = 128"
  "env_services sample_env = register_service echo_service Map.empty"
  using fresh_buffer [of 128] the_sample_loop_inv the_sample_loop_fields(1)
  by (auto simp: ready_server_def sample_conn_def sample_env_def fresh_conn_def roomy_def)

lemma sample_frames:
  assumes "length name < 20" and "nul \<notin> set name" and "length d < 20"
  shows "wire_ok (request_protocol ''42'' name d)" "length (frame (request_protocol ''42'' name d)) < 128"
    "length (frame (not_found ''42'' name)) < 128"
  using assms by (auto simp: wire_ok_def sized_def frame_length request_protocol_def not_found_def set_protubuf_error_def
      with_msg_id_def ProtobufProtocol_new_def buf_limit_def in_i32_def nul_def char_of_def)

end
