(* ===== verification/Io_Thread.thy ===== *)
theory Io_Thread
  imports Event_Loop
begin

text \<open>
  The threads that run event loops: \<open>IOThread\<close> (\<open>src/net/io_thread/io_thread.cc\<close>) and
  \<open>IOThreadGroup\<close> (\<open>src/net/io_thread/io_thread_group.cc\<close>). An \<open>IOThread\<close> is shared by two
  threads, the owner of the object and the worker that runs \<open>Main\<close>. Each is a program counter;
  \<open>owner_step\<close> and \<open>worker_step\<close> execute one statement of it (\<open>None\<close> while the statement blocks),
  and a schedule is an arbitrary list of moves.

  The lemmas show that the two semaphores give the handshake they are meant to (the constructor
  returns only when the event loop is there, the worker loops only after \<open>start\<close>, and neither
  side gets stuck), that the destructor never completes, and which thread a group picks.
\<close>

section \<open>An I/O thread\<close>

record 'cb io_thread =
  io_thread_id :: int
  io_event_loop :: "'cb event_loop option"
  m_init_semphore :: nat
  m_start_semphore :: nat

text \<open>The member initialisers, and the two \<open>sem_init\<close> calls, which set both semaphores to 0.\<close>

definition IOThread_members :: "'cb io_thread" where
  "IOThread_members = \<lparr>io_thread_id = -1, io_event_loop = None, m_init_semphore = 0, m_start_semphore = 0\<rparr>"

definition sem_post_start :: "'cb io_thread \<Rightarrow> 'cb io_thread" where
  "sem_post_start t = t\<lparr>m_start_semphore := m_start_semphore t + 1\<rparr>"

definition get_eventloop :: "'cb io_thread \<Rightarrow> 'cb event_loop option" where
  "get_eventloop t = io_event_loop t"

definition get_evnetloop_task_size :: "'cb io_thread \<Rightarrow> int res" where
  "get_evnetloop_task_size t =
     (case io_event_loop t of None \<Rightarrow> Inl NullDeref | Some el \<Rightarrow> Inr (get_pending_tasks_size el))"

definition stop_loop :: "'cb io_thread \<Rightarrow> 'cb io_thread res" where
  "stop_loop t =
     (case io_event_loop t of None \<Rightarrow> Inl NullDeref | Some el \<Rightarrow> Inr (t\<lparr>io_event_loop := Some (stop el)\<rparr>))"

section \<open>Its two threads\<close>

text \<open>The owner constructs the object, then makes calls on it. The worker executes \<open>Main\<close>, whose
  local \<open>shared_ptr\<close> owns the object a second time: when \<open>Main\<close> returns it runs the
  destructor (\<open>W_DelStop\<close> to \<open>W_DelJoin\<close>) and frees the object.\<close>

datatype owner_pc = O_SemInit | O_Create | O_WaitInit | O_Running | O_Joining | O_DelSem | O_DelJoin | O_Deleted

datatype worker_pc = W_NotCreated | W_MakeLoop | W_SetThreadId | W_PostInit | W_WaitStart | W_EnterLoop
  | W_Looping | W_DelSem | W_DelJoin | W_Exited

datatype owner_call = CallStart | CallJoin | CallDestroy

record ('cb, 'w) io_system =
  io_object :: "'cb io_thread"
  io_owner :: owner_pc
  io_worker :: worker_pc
  io_starts :: nat
  io_frees :: nat
  io_world :: 'w

definition io_init :: "'w \<Rightarrow> ('cb, 'w) io_system" where
  "io_init w = \<lparr>io_object = IOThread_members, io_owner = O_SemInit, io_worker = W_NotCreated, io_starts = 0,
    io_frees = 0, io_world = w\<rparr>"

text \<open>One statement of the owner; \<open>call\<close> is the next call it makes once the constructor has
  returned, and every access to the object once it was freed is a fault. \<open>sem_destroy\<close> leaves a thread that waits on the semaphore waiting.\<close>

definition owner_step :: "owner_call \<Rightarrow> ('cb, 'w) io_system \<Rightarrow> ('cb, 'w) io_system res option" where
  "owner_step call s =
     (let t = io_object s
      in case io_owner s of
        O_SemInit \<Rightarrow> Some (Inr (s\<lparr>io_object := t\<lparr>m_init_semphore := 0, m_start_semphore := 0\<rparr>, io_owner := O_Create\<rparr>))
      | O_Create \<Rightarrow> Some (Inr (s\<lparr>io_worker := W_MakeLoop, io_owner := O_WaitInit\<rparr>))
      | O_WaitInit \<Rightarrow>
          (if m_init_semphore t = 0 then None
           else Some (Inr (s\<lparr>io_object := t\<lparr>m_init_semphore := m_init_semphore t - 1\<rparr>, io_owner := O_Running\<rparr>)))
      | O_Running \<Rightarrow>
          (if io_frees s \<noteq> 0 then Some (Inl UseAfterFree)
           else case call of
             CallStart \<Rightarrow> Some (Inr (s\<lparr>io_object := sem_post_start t, io_starts := io_starts s + 1\<rparr>))
           | CallJoin \<Rightarrow> Some (Inr (s\<lparr>io_owner := O_Joining\<rparr>))
           | CallDestroy \<Rightarrow> Some (bindR (stop_loop t) (\<lambda>t'. Inr (s\<lparr>io_object := t', io_owner := O_DelSem\<rparr>))))
      | O_Joining \<Rightarrow> (if io_worker s = W_Exited then Some (Inr (s\<lparr>io_owner := O_Running\<rparr>)) else None)
      | O_DelSem \<Rightarrow> (if io_frees s \<noteq> 0 then Some (Inl UseAfterFree) else Some (Inr (s\<lparr>io_owner := O_DelJoin\<rparr>)))
      | O_DelJoin \<Rightarrow>
          (if io_worker s \<noteq> W_Exited then None
           else if io_frees s \<noteq> 0 then Some (Inl UseAfterFree)
           else Some (Inr (s\<lparr>io_owner := O_Deleted, io_frees := 1\<rparr>)))
      | O_Deleted \<Rightarrow> None)"

text \<open>One statement of the worker. \<open>mk\<close> is the result of \<open>make_shared<EventLoop>()\<close> on the worker's
  thread \<open>tid\<close>; \<open>r\<close> is what \<open>epoll_wait\<close> reports in this round of the loop. A thread that joins itself
  gets \<open>EDEADLK\<close> at once, which the destructor ignores.\<close>

definition worker_step ::
  "('cb, 'w) runner \<Rightarrow> int \<Rightarrow> 'cb event_loop res \<Rightarrow> (32 word \<times> nat option) list option \<Rightarrow>
   ('cb, 'w) io_system \<Rightarrow> ('cb, 'w) io_system res option" where
  "worker_step run tid mk r s =
     (let t = io_object s
      in case io_worker s of
        W_NotCreated \<Rightarrow> None
      | W_MakeLoop \<Rightarrow> Some (bindR mk (\<lambda>el. Inr (s\<lparr>io_object := t\<lparr>io_event_loop := Some el\<rparr>, io_worker := W_SetThreadId\<rparr>)))
      | W_SetThreadId \<Rightarrow> Some (Inr (s\<lparr>io_object := t\<lparr>io_thread_id := tid\<rparr>, io_worker := W_PostInit\<rparr>))
      | W_PostInit \<Rightarrow>
          Some (Inr (s\<lparr>io_object := t\<lparr>m_init_semphore := m_init_semphore t + 1\<rparr>, io_worker := W_WaitStart\<rparr>))
      | W_WaitStart \<Rightarrow>
          (if m_start_semphore t = 0 then None
           else Some (Inr (s\<lparr>io_object := t\<lparr>m_start_semphore := m_start_semphore t - 1\<rparr>, io_worker := W_EnterLoop\<rparr>)))
      | W_EnterLoop \<Rightarrow>
          (case io_event_loop t of
             None \<Rightarrow> Some (Inl NullDeref)
           | Some el \<Rightarrow> Some (Inr (s\<lparr>io_object := t\<lparr>io_event_loop := Some (el\<lparr>m_is_looping := True\<rparr>)\<rparr>, io_worker := W_Looping\<rparr>)))
      | W_Looping \<Rightarrow>
          (case io_event_loop t of
             None \<Rightarrow> Some (Inl NullDeref)
           | Some el \<Rightarrow>
               if m_stop_flag el then Some (Inr (s\<lparr>io_object := t\<lparr>io_event_loop := Some (stop el)\<rparr>, io_worker := W_DelSem\<rparr>))
               else Some (bindR (loop_round run tid r (el, io_world s)) (\<lambda>(el', w').
                    Inr (s\<lparr>io_object := t\<lparr>io_event_loop := Some el'\<rparr>, io_world := w'\<rparr>))))
      | W_DelSem \<Rightarrow> Some (Inr (s\<lparr>io_worker := W_DelJoin\<rparr>))
      | W_DelJoin \<Rightarrow> Some (Inr (s\<lparr>io_worker := W_Exited, io_frees := io_frees s + 1\<rparr>))
      | W_Exited \<Rightarrow> None)"

datatype move = Owner owner_call | Worker "(32 word \<times> nat option) list option"

fun io_move ::
  "('cb, 'w) runner \<Rightarrow> int \<Rightarrow> 'cb event_loop res \<Rightarrow> move \<Rightarrow> ('cb, 'w) io_system \<Rightarrow> ('cb, 'w) io_system res option" where
  "io_move run tid mk (Owner call) s = owner_step call s"
| "io_move run tid mk (Worker r) s = worker_step run tid mk r s"

fun io_run ::
  "('cb, 'w) runner \<Rightarrow> int \<Rightarrow> 'cb event_loop res \<Rightarrow> move list \<Rightarrow> ('cb, 'w) io_system \<Rightarrow> ('cb, 'w) io_system res option" where
  "io_run run tid mk [] s = Some (Inr s)"
| "io_run run tid mk (m # ms) s = bindO (io_move run tid mk m s) (io_run run tid mk ms)"

section \<open>The handshake\<close>

fun worker_rank :: "worker_pc \<Rightarrow> nat" where
  "worker_rank W_NotCreated = 0" | "worker_rank W_MakeLoop = 1" | "worker_rank W_SetThreadId = 2"
| "worker_rank W_PostInit = 3" | "worker_rank W_WaitStart = 4" | "worker_rank W_EnterLoop = 5"
| "worker_rank W_Looping = 6" | "worker_rank W_DelSem = 7" | "worker_rank W_DelJoin = 8" | "worker_rank W_Exited = 9"

text \<open>Whether the constructor has returned.\<close>

definition constructed :: "owner_pc \<Rightarrow> bool" where
  "constructed p \<longleftrightarrow> p \<notin> {O_SemInit, O_Create, O_WaitInit}"

definition io_inv :: "int \<Rightarrow> ('cb, 'w) io_system \<Rightarrow> bool" where
  "io_inv tid s \<longleftrightarrow>
     (let t = io_object s; k = worker_rank (io_worker s)
      in (k = 0 \<longleftrightarrow> io_owner s \<in> {O_SemInit, O_Create}) \<and>
         (io_event_loop t = None \<longleftrightarrow> k < 2) \<and> (2 < k \<longrightarrow> io_thread_id t = tid) \<and>
         m_init_semphore t = (if 3 < k \<and> \<not> constructed (io_owner s) then 1 else 0) \<and>
         (constructed (io_owner s) \<longrightarrow> 3 < k) \<and>
         m_start_semphore t + (if 4 < k then 1 else 0) = io_starts s \<and>
         (\<not> constructed (io_owner s) \<longrightarrow> io_starts s = 0) \<and>
         io_frees s = (if k = 9 then 1 else 0) \<and> io_owner s \<noteq> O_Deleted)"

lemma io_init_inv: "io_inv tid (io_init w)"
  by (simp add: io_inv_def io_init_def IOThread_members_def constructed_def)

lemma owner_step_inv:
  assumes "io_inv tid s" and "owner_step call s = Some (Inr s')"
  shows "io_inv tid s'"
  using assms
  by (cases "io_owner s"; cases "io_worker s";
      simp add: io_inv_def owner_step_def Let_def constructed_def sem_post_start_def stop_loop_def
        split: if_splits option.splits owner_call.splits; (elim conjE)?; (hypsubst)?; simp)

lemma worker_step_inv:
  assumes "io_inv tid s" and "worker_step run tid mk r s = Some (Inr s')"
  shows "io_inv tid s'"
  using assms
  by (cases "io_worker s"; cases "io_owner s";
      simp add: io_inv_def worker_step_def Let_def constructed_def fault_simps
        split: if_splits option.splits; (elim conjE exE)?; (hypsubst)?; simp)

lemma io_run_inv: "io_inv tid s \<Longrightarrow> io_run run tid mk ms s = Some (Inr s') \<Longrightarrow> io_inv tid s'"
proof (induction ms arbitrary: s)
  case (Cons m ms)
  then obtain s1 where one: "io_move run tid mk m s = Some (Inr s1)" and rest: "io_run run tid mk ms s1 = Some (Inr s')"
    by (auto simp: fault_simps)
  have "io_inv tid s1" using one Cons.prems(1) owner_step_inv worker_step_inv by (cases m) fastforce+
  then show ?case using Cons.IH rest by blast
qed simp

lemma io_reach_inv: "io_run run tid mk ms (io_init w) = Some (Inr s) \<Longrightarrow> io_inv tid s"
  by (rule io_run_inv [OF io_init_inv])

lemma worker_runs_after_start:
  assumes "io_inv tid s" and "0 < io_starts s" and "io_worker s \<noteq> W_Exited"
  shows "worker_step run tid mk r s \<noteq> None"
  using assms
  by (cases "io_worker s") (auto simp: io_inv_def worker_step_def Let_def constructed_def split: option.splits if_splits)

lemma constructor_runs:
  assumes "io_inv tid s" and "\<not> constructed (io_owner s)"
  shows "owner_step call s \<noteq> None \<or> worker_step run tid mk r s \<noteq> None"
  using assms
  by (cases "io_owner s"; cases "io_worker s")
    (auto simp: io_inv_def owner_step_def worker_step_def Let_def constructed_def)

text \<open>C34 (The construction handshake).
  In every state that some interleaving of the owner and the worker reaches: once the constructor has returned,
  the event loop exists, so that it can be used and asked for its size, and the thread id is the
  worker's; the worker enters its loop only after a call of \<open>start\<close>; while the constructor has not returned one of the
  two threads can run, so it does not deadlock; and after \<open>start\<close>, made before or after the
  worker got to its semaphore, the worker is never blocked until it ends.\<close>

theorem io_thread_handshake:
  assumes "io_run run tid mk ms (io_init w) = Some (Inr s)"
  shows "(constructed (io_owner s) \<longrightarrow>
       (\<exists>el. get_eventloop (io_object s) = Some el \<and>
         get_evnetloop_task_size (io_object s) = Inr (get_pending_tasks_size el)) \<and>
       io_thread_id (io_object s) = tid) \<and>
    (io_worker s \<in> {W_EnterLoop, W_Looping} \<longrightarrow> 0 < io_starts s) \<and>
    (\<not> constructed (io_owner s) \<longrightarrow> (\<exists>m. io_move run tid mk m s \<noteq> None)) \<and>
    (0 < io_starts s \<and> io_worker s \<noteq> W_Exited \<longrightarrow> worker_step run tid mk r s \<noteq> None)"
proof (intro conjI impI)
  have inv: "io_inv tid s" by (rule io_reach_inv [OF assms])
  show "\<exists>el. get_eventloop (io_object s) = Some el \<and>
      get_evnetloop_task_size (io_object s) = Inr (get_pending_tasks_size el)" if "constructed (io_owner s)"
    using inv that
    by (cases "io_event_loop (io_object s)") (auto simp: io_inv_def Let_def get_eventloop_def get_evnetloop_task_size_def)
  show "io_thread_id (io_object s) = tid" if "constructed (io_owner s)"
    using inv that by (simp add: io_inv_def Let_def)
  show "0 < io_starts s" if "io_worker s \<in> {W_EnterLoop, W_Looping}"
    using inv that by (auto simp: io_inv_def Let_def)
  show "\<exists>m. io_move run tid mk m s \<noteq> None" if "\<not> constructed (io_owner s)"
    using constructor_runs [OF inv that, of _ run mk] io_move.simps by metis
  show "worker_step run tid mk r s \<noteq> None" if "0 < io_starts s \<and> io_worker s \<noteq> W_Exited"
    using worker_runs_after_start inv that by blast
qed

definition construct_and_start :: "move list" where
  "construct_and_start = [Owner CallStart, Owner CallStart, Worker None, Worker None, Worker None,
     Owner CallStart, Owner CallStart, Worker None]"

lemma construct_and_start_run:
  "\<exists>s. io_run (\<lambda>_ x. x) 1 sample_loop construct_and_start (io_init ()) = Some (Inr s) \<and>
    io_owner s = O_Running \<and> io_worker s = W_EnterLoop \<and> io_starts s = 1"
  by (simp add: construct_and_start_def io_init_def IOThread_members_def owner_step_def worker_step_def Let_def
      sample_loop sem_post_start_def)

lemma io_thread_handshake_witness:
  "\<exists>(s :: (nat, unit) io_system) s'. io_run (\<lambda>_ x. x) 1 sample_loop construct_and_start (io_init ()) = Some (Inr s) \<and>
    get_eventloop (io_object s) \<noteq> None \<and> io_thread_id (io_object s) = 1 \<and> 0 < io_starts s \<and>
    worker_step (\<lambda>_ x. x) 1 sample_loop None s = Some s'"
  using construct_and_start_run io_thread_handshake [of "\<lambda>_ x. x" 1 sample_loop construct_and_start "()" _ None]
  by (fastforce simp: constructed_def)

section \<open>The end of an I/O thread\<close>

lemma dead_owner_blocked:
  assumes "io_inv tid s" and "io_owner s = O_DelJoin" and "io_starts s = 0" and "io_worker s = W_WaitStart"
  shows "io_move run tid mk m s = None"
  using assms by (cases m) (auto simp: io_inv_def Let_def owner_step_def worker_step_def constructed_def)

lemma never_deleted: "io_inv tid s \<Longrightarrow> io_owner s \<noteq> O_Deleted"
  by (simp add: io_inv_def Let_def)

lemma exited_owner_faults:
  assumes "io_inv tid s" and "io_worker s = W_Exited" and "io_owner s \<in> {O_Running, O_DelSem, O_DelJoin}"
  shows "owner_step call s = Some (Inl UseAfterFree)"
  using assms by (auto simp: io_inv_def Let_def owner_step_def)

text \<open>C35 (The destructor never completes).
  No interleaving ever completes the destruction of an \<open>IOThread\<close>. If it was never started, the
  owner's \<open>pthread_join\<close> and the worker's \<open>sem_wait\<close> wait for each other and no step is possible any
  more. If the worker has ended, its own \<open>shared_ptr\<close> has already destroyed and freed the object, and whatever
  the owner does with it next, the end of its destructor included, is a use after free.\<close>

theorem io_thread_destructor_never_completes:
  assumes "io_run run tid mk ms (io_init w) = Some (Inr s)"
  shows "io_owner s \<noteq> O_Deleted \<and>
    (io_owner s = O_DelJoin \<and> io_starts s = 0 \<and> io_worker s = W_WaitStart \<longrightarrow>
       (\<forall>m. io_move run tid mk m s = None)) \<and>
    (io_worker s = W_Exited \<and> io_owner s \<in> {O_Running, O_DelSem, O_DelJoin} \<longrightarrow>
       owner_step call s = Some (Inl UseAfterFree))"
  using io_reach_inv [OF assms] dead_owner_blocked exited_owner_faults never_deleted by blast

definition construct_and_destroy :: "move list" where
  "construct_and_destroy = [Owner CallStart, Owner CallStart, Worker None, Worker None, Worker None,
     Owner CallDestroy, Owner CallDestroy, Owner CallDestroy]"

lemma io_thread_destructor_never_completes_witness:
  "\<exists>s :: (nat, unit) io_system. io_run (\<lambda>_ x. x) 1 sample_loop construct_and_destroy (io_init ()) = Some (Inr s) \<and>
    (\<forall>m. io_move (\<lambda>_ x. x) 1 sample_loop m s = None)"
proof -
  obtain s :: "(nat, unit) io_system"
    where "io_run (\<lambda>_ x. x) 1 sample_loop construct_and_destroy (io_init ()) = Some (Inr s)"
      "io_owner s = O_DelJoin" "io_worker s = W_WaitStart" "io_starts s = 0"
    by (simp add: construct_and_destroy_def io_init_def IOThread_members_def owner_step_def worker_step_def Let_def
      sample_loop sem_post_start_def stop_loop_def)
  then show ?thesis
    using io_thread_destructor_never_completes [of "\<lambda>_ x. x" 1 sample_loop construct_and_destroy "()" s] by blast
qed
section \<open>The group\<close>

text \<open>\<open>m_idx\<close> of the class is never used. \<open>mk\<close> stands for the constructor of the i-th \<open>IOThread\<close>.\<close>

record 'cb io_thread_group =
  m_group_size :: int
  m_io_thread_groups :: "'cb io_thread list"

definition IOThreadGroup_new :: "(nat \<Rightarrow> 'cb io_thread) \<Rightarrow> int \<Rightarrow> 'cb io_thread_group res" where
  "IOThreadGroup_new mk n =
     (if n < 0 then Inl LengthError
      else Inr \<lparr>m_group_size = n, m_io_thread_groups = map mk [0..<nat n]\<rparr>)"

definition group_start :: "'cb io_thread_group \<Rightarrow> 'cb io_thread_group" where
  "group_start g = g\<lparr>m_io_thread_groups := map sem_post_start (m_io_thread_groups g)\<rparr>"

text \<open>The body of the search; the queue is measured a second time when it is shorter. An index of
  a group fits an \<open>int\<close>.\<close>

definition shorter_queue :: "'cb io_thread list \<Rightarrow> nat \<Rightarrow> nat \<times> int \<Rightarrow> (nat \<times> int) res" where
  "shorter_queue ts i = (\<lambda>(ans_idx, number_fd).
     bindR (get_evnetloop_task_size (ts ! i)) (\<lambda>n.
     if n < number_fd then bindR (get_evnetloop_task_size (ts ! i)) (\<lambda>n'. Inr (i, n'))
     else Inr (ans_idx, number_fd)))"

definition get_io_thread :: "'cb io_thread_group \<Rightarrow> nat res" where
  "get_io_thread g =
     (let ts = m_io_thread_groups g
      in if ts = [] then Inl OutOfBounds
         else bindR (get_evnetloop_task_size (ts ! 0)) (\<lambda>n.
              bindR (foldR (shorter_queue ts) [1..<length ts] (0, n)) (\<lambda>(ans_idx, _). Inr ans_idx)))"

lemma search_first_minimum:
  assumes "\<And>i. i < length ts \<Longrightarrow> get_evnetloop_task_size (ts ! i) = Inr (q i)" and "0 < k" and "k \<le> length ts"
  shows "\<exists>a<k. foldR (shorter_queue ts) [1..<k] (0, q 0) = Inr (a, q a) \<and>
    (\<forall>i<k. q a \<le> q i) \<and> (\<forall>i<a. q a < q i)"
  using assms(2,3)
proof (induction k)
  case (Suc k)
  show ?case
  proof (cases "k = 0")
    case False
    then obtain a where a: "a < k" "foldR (shorter_queue ts) [1..<k] (0, q 0) = Inr (a, q a)"
      "\<forall>i<k. q a \<le> q i" "\<forall>i<a. q a < q i" using Suc by auto
    have split: "[1..<Suc k] = [1..<k] @ [k]" using False by simp
    have "foldR (shorter_queue ts) [1..<Suc k] (0, q 0) = Inr (if q k < q a then (k, q k) else (a, q a))"
      unfolding split using a(2) Suc.prems(2) assms(1) by (simp add: foldR_append shorter_queue_def)
    moreover have "\<forall>i<k. q k < q i" if "q k < q a" using that a(3) by fastforce
    ultimately show ?thesis
      using a by (cases "q k < q a") (auto simp: less_Suc_eq intro!: exI [of _ k] exI [of _ a] less_imp_le)
  qed simp
qed simp

text \<open>Lemma (A connection goes to the first thread with the shortest queue).
  If every thread of a non-empty group has its event loop, \<open>get_io_thread\<close> returns the index of a
  thread whose queue of pending tasks is shortest, and the first such thread. In particular it is
  always thread 0 while the queues are equally long, so threads are not taken in turn.\<close>

theorem get_io_thread_shortest_queue:
  assumes "m_io_thread_groups g \<noteq> []"
    and "\<And>i. i < length (m_io_thread_groups g) \<Longrightarrow> get_evnetloop_task_size (m_io_thread_groups g ! i) = Inr (q i)"
  shows "\<exists>a<length (m_io_thread_groups g). get_io_thread g = Inr a \<and>
    (\<forall>i<length (m_io_thread_groups g). q a \<le> q i) \<and> (\<forall>i<a. q a < q i) \<and>
    ((\<forall>i<length (m_io_thread_groups g). q i = q 0) \<longrightarrow> a = 0)"
proof -
  let ?ts = "m_io_thread_groups g"
  obtain a where a: "a < length ?ts" "foldR (shorter_queue ?ts) [1..<length ?ts] (0, q 0) = Inr (a, q a)"
    "\<forall>i<length ?ts. q a \<le> q i" "\<forall>i<a. q a < q i"
    using search_first_minimum [of ?ts q "length ?ts", OF assms(2)] assms(1) by auto
  moreover have "get_io_thread g = Inr a"
    using a(2) assms(1) assms(2) [of 0] by (simp add: get_io_thread_def Let_def)
  moreover have "a = 0" if "\<forall>i<length ?ts. q i = q 0"
    using a(1,4) that by (metis gr_zeroI order_less_irrefl)
  ultimately show ?thesis by blast
qed

definition queue_thread :: "nat \<Rightarrow> nat io_thread" where
  "queue_thread k = IOThread_members\<lparr>io_event_loop := Some (the_sample_loop\<lparr>m_pending_tasks := replicate k None\<rparr>)\<rparr>"

definition sample_group :: "nat io_thread_group" where
  "sample_group = \<lparr>m_group_size = 4, m_io_thread_groups = map queue_thread [3, 1, 2, 1]\<rparr>"

lemma queue_thread_size: "k < 100 \<Longrightarrow> get_evnetloop_task_size (queue_thread k) = Inr (int k)"
  by (simp add: queue_thread_def get_evnetloop_task_size_def get_pending_tasks_size_def in_i32_def)

lemma get_io_thread_shortest_queue_witness:
  "\<exists>a. get_io_thread sample_group = Inr a \<and> a < 4 \<and> int ([3, 1, 2, 1] ! a) \<le> 1"
proof -
  have len: "length (m_io_thread_groups sample_group) = 4" by (simp add: sample_group_def)
  have q: "get_evnetloop_task_size (m_io_thread_groups sample_group ! i) = Inr (int ([3, 1, 2, 1] ! i))"
    if "i < length (m_io_thread_groups sample_group)" for i
  proof -
    have "i = 0 \<or> i = 1 \<or> i = 2 \<or> i = 3" using that len by linarith
    then show ?thesis by (auto simp: sample_group_def queue_thread_size)
  qed
  show ?thesis
    using get_io_thread_shortest_queue [of sample_group "\<lambda>i. int ([3, 1, 2, 1] ! i)", OF _ q] len
    by (auto simp: sample_group_def dest!: spec [of _ 1])
qed

end
