(* ===== verification/Tcp_Server.thy ===== *)
theory Tcp_Server
  imports Tcp_Connection Io_Thread
begin

text \<open>
  The server side: \<open>TcpAcceptor\<close> (\<open>src/net/tcp/tcp_acceptor.cc\<close>) and \<open>TcpServer\<close>
  (\<open>src/net/tcp/tcp_server.cc\<close>). The main loop listens to the accepting socket; every accepted
  connection is handed to the event loop of one thread of the group. The results of the system calls
  are arguments.

  The lemmas show when the server comes up and when the process exits instead, and what
  \<open>on_accept\<close> does: exactly one thread gets the connection, as a task and a wake-up.
\<close>

section \<open>The acceptor\<close>

text \<open>\<open>acc_reuseport\<close> is the value given to \<open>setsockopt(SO_REUSEPORT)\<close>, whose result is only logged.\<close>

record tcp_acceptor =
  acc_local_addr :: ipv4_net_addr
  m_family :: int
  m_listenfd :: int
  acc_reuseport :: int

definition TcpAcceptor_new ::
  "(string \<Rightarrow> 32 word) \<Rightarrow> int \<Rightarrow> int \<Rightarrow> int \<Rightarrow> ipv4_net_addr \<Rightarrow> tcp_acceptor res" where
  "TcpAcceptor_new inet_addr socket_rt bind_rt listen_rt local_addr =
     (if \<not> check_valid inet_addr local_addr then Inl (ProcessExit 2)
      else if socket_rt < 0 then Inl (ProcessExit 2)
      else if bind_rt \<noteq> 0 then Inl (ProcessExit 2)
      else if listen_rt \<noteq> 0 then Inl (ProcessExit 2)
      else Inr \<lparr>acc_local_addr = local_addr, m_family = get_family local_addr, m_listenfd = socket_rt, acc_reuseport = 0\<rparr>)"

definition acceptor_accept ::
  "(32 word \<Rightarrow> string) \<Rightarrow> int \<Rightarrow> sockaddr_in \<Rightarrow> (int \<times> ipv4_net_addr) res" where
  "acceptor_accept inet_ntoa accept_rt client_addr =
     (if accept_rt < 0 then Inl (ProcessExit 2)
      else Inr (accept_rt, IPv4NetAddr_sockaddr inet_ntoa client_addr))"

section \<open>The server\<close>

record ('cb, 'd) tcp_server =
  m_acceptor :: tcp_acceptor
  srv_local_addr :: ipv4_net_addr
  m_main_event_loop :: "'cb event_loop"
  m_io_thread_group :: "'cb io_thread_group"
  m_listen_fd_event :: nat
  m_client_counts :: int
  srv_client :: "('cb, 'd) tcp_connection list"

text \<open>\<open>slot\<close> is the thread's current event loop and \<open>fresh\<close> a new one; \<open>hw\<close> is
  \<open>hardware_concurrency()\<close>; \<open>mk\<close> stands for the constructor of each \<open>IOThread\<close>.\<close>

definition group_size :: "nat \<Rightarrow> int" where
  "group_size hw = int (max (hw div 2) 4)"

definition TcpServer_new ::
  "int \<Rightarrow> (string \<Rightarrow> 32 word) \<Rightarrow> int \<Rightarrow> int \<Rightarrow> int \<Rightarrow> nat \<Rightarrow> (nat \<Rightarrow> 'cb io_thread) \<Rightarrow> nat \<Rightarrow> 'cb \<Rightarrow>
   'cb event_loop option \<Rightarrow> 'cb event_loop \<Rightarrow> ipv4_net_addr \<Rightarrow> ('cb, 'd) tcp_server res" where
  "TcpServer_new tid inet_addr socket_rt bind_rt listen_rt hw mk p on_accept_cb slot fresh local_addr =
     bindR (TcpAcceptor_new inet_addr socket_rt bind_rt listen_rt local_addr) (\<lambda>acceptor.
     let (el, _) = Get_Current_Eventloop slot fresh
     in bindR (IOThreadGroup_new mk (group_size hw)) (\<lambda>group.
        let ev = listen p IN_EVENT (Some on_accept_cb) None (FdEvent_new (m_listenfd acceptor));
            el1 = add_epoll_event tid p (el\<lparr>el_events := (el_events el)(p := ev)\<rparr>)
        in Inr \<lparr>m_acceptor = acceptor, srv_local_addr = local_addr, m_main_event_loop = el1,
             m_io_thread_group = group, m_listen_fd_event = p, m_client_counts = 0, srv_client = []\<rparr>))"

definition server_start ::
  "('cb, 'w) runner \<Rightarrow> int \<Rightarrow> (32 word \<times> nat option) list option list \<Rightarrow>
   ('cb, 'd) tcp_server \<times> 'w \<Rightarrow> (('cb, 'd) tcp_server \<times> 'w) res" where
  "server_start run tid rs = (\<lambda>(srv, w).
     let srv1 = srv\<lparr>m_io_thread_group := group_start (m_io_thread_group srv)\<rparr>
     in bindR (loop run tid rs (m_main_event_loop srv1, w)) (\<lambda>(el, w').
        Inr (srv1\<lparr>m_main_event_loop := el\<rparr>, w')))"

definition server_destroy :: "('cb, 'd) tcp_server \<Rightarrow> 'cb event_loop" where
  "server_destroy srv = stop (m_main_event_loop srv)"

text \<open>\<open>p\<close> is the address of the \<open>FdEvent\<close> of the accepted descriptor; the two callbacks are
  bound to the new connection.\<close>

definition on_accept ::
  "int \<Rightarrow> (32 word \<Rightarrow> string) \<Rightarrow> int \<Rightarrow> sockaddr_in \<Rightarrow> nat \<Rightarrow> 'cb \<Rightarrow> 'cb \<Rightarrow>
   ('cb, 'd) tcp_server \<Rightarrow> ('cb, 'd) tcp_server res" where
  "on_accept tid inet_ntoa accept_rt client_addr p on_read_cb on_write_cb srv =
     bindR (acceptor_accept inet_ntoa accept_rt client_addr) (\<lambda>(client_fd, peer_addr).
     bindR (chk_i32 (m_client_counts srv + 1)) (\<lambda>counts.
     bindR (get_io_thread (m_io_thread_group srv)) (\<lambda>a.
     let group = m_io_thread_group srv; io_thread = m_io_thread_groups group ! a
     in case get_eventloop io_thread of
          None \<Rightarrow> Inl NullDeref
        | Some el \<Rightarrow>
            bindR (TcpConnection_new tid p client_fd 128 (Some (srv_local_addr srv)) (Some peer_addr)
                     TcpConnectionByServer on_read_cb on_write_cb el) (\<lambda>(connection, el').
            let t' = io_thread\<lparr>io_event_loop := Some el'\<rparr>
            in Inr (srv\<lparr>m_client_counts := counts,
                  m_io_thread_group := group\<lparr>m_io_thread_groups := (m_io_thread_groups group)[a := t']\<rparr>,
                  srv_client := srv_client srv @ [set_state Connected connection]\<rparr>)))))"

section \<open>Coming up\<close>

lemma group_size: "nat (group_size hw) = max (hw div 2) 4" "\<not> group_size hw < 0"
  by (simp_all only: group_size_def nat_int of_nat_less_0_iff not_False_eq_True)

text \<open>Lemma (The server comes up or the process exits).
  If the address is valid and the socket can be opened, bound and listened to, the server is built: its main loop
  watches the listening descriptor for input with \<open>on_accept\<close> as callback, and the group has half as many
  threads as processors, at least four. Otherwise the process exits with code 2, whichever step failed.\<close>

theorem server_up_or_exit:
  assumes "m_thread_id (fst (Get_Current_Eventloop slot fresh)) = tid"
  shows "if check_valid inet_addr local_addr \<and> 0 \<le> socket_rt \<and> bind_rt = 0 \<and> listen_rt = 0
    then \<exists>srv. TcpServer_new tid inet_addr socket_rt bind_rt listen_rt hw mk p on_accept_cb slot fresh local_addr =
          Inr (srv :: ('cb, 'd) tcp_server) \<and>
        socket_rt \<in> m_listen_fds (m_main_event_loop srv) \<and>
        handler IN_EVENT (el_events (m_main_event_loop srv) p) = Some on_accept_cb \<and>
        m_events (el_events (m_main_event_loop srv) p) AND EPOLLIN \<noteq> 0 \<and>
        length (m_io_thread_groups (m_io_thread_group srv)) = max (hw div 2) 4 \<and>
        m_client_counts srv = 0 \<and> srv_client srv = []
    else TcpServer_new tid inet_addr socket_rt bind_rt listen_rt hw mk p on_accept_cb slot fresh local_addr =
      (Inl (ProcessExit 2) :: ('cb, 'd) tcp_server res)"
proof (cases "check_valid inet_addr local_addr \<and> 0 \<le> socket_rt \<and> bind_rt = 0 \<and> listen_rt = 0")
  case True
  obtain el rest where el: "Get_Current_Eventloop slot fresh = (el, rest)" by fastforce
  have tid: "m_thread_id el = tid" using assms el by simp
  have fd: "m_fd (listen p IN_EVENT (Some on_accept_cb) None (FdEvent_new socket_rt)) = socket_rt"
    by (simp add: listen_def Let_def FdEvent_new_def)
  show ?thesis
    using True el tid fd
    by (auto simp: TcpServer_new_def TcpAcceptor_new_def IOThreadGroup_new_def Let_def
        add_epoll_event_def is_in_current_loop_thread_def add_to_epoll_def listen_def EPOLLIN_def FdEvent_new_def group_size)
next
  case False
  then show ?thesis by (auto simp: TcpServer_new_def TcpAcceptor_new_def)
qed

definition sample_io_thread :: "nat io_thread" where
  "sample_io_thread = IOThread_members\<lparr>io_event_loop := Some (the_sample_loop\<lparr>m_thread_id := 2\<rparr>)\<rparr>"

definition resolves :: "string \<Rightarrow> 32 word" where
  "resolves ip = (if ip = m_ip sample_addr then 0x0100007F else INADDR_NONE)"

lemma resolves_sample: "check_valid resolves sample_addr"
  by (simp add: check_valid_def resolves_def sample_addr_def INADDR_NONE_def IPv4NetAddr_ip_port_def)

lemma server_up_or_exit_witness:
  "\<exists>srv :: (nat, nat) tcp_server.
     TcpServer_new 1 resolves 20 0 0 16 (\<lambda>_. sample_io_thread) 5 50 None the_sample_loop sample_addr = Inr srv \<and>
     20 \<in> m_listen_fds (m_main_event_loop srv) \<and> length (m_io_thread_groups (m_io_thread_group srv)) = 8"
  using server_up_or_exit [of None the_sample_loop 1 resolves sample_addr 20 0 0 16 "\<lambda>_. sample_io_thread" 5 50]
    resolves_sample the_sample_loop_fields(1)
  by (auto simp: Get_Current_Eventloop_def)

section \<open>Accepting\<close>

lemma registered_after_task:
  assumes "m_fd (el_events el p) = fd"
  shows "fd \<in> m_listen_fds (fst (run_task run (Some (AddToEpoll p)) (el, w)))"
  using assms by (simp add: add_to_epoll_def Let_def)

text \<open>Lemma (An accepted connection goes to one thread).
  If \<open>accept\<close> succeeds and the threads have their loops, \<open>on_accept\<close> on the main thread picks the thread that
  \<open>get_io_thread\<close> names and leaves the others alone. The new connection is \<open>Connected\<close>, has the accepted descriptor
  and the peer's address, and is kept by the server. The chosen loop is not changed otherwise: it gets one more
  task at the end of its queue and one more wake-up, and running the task registers the descriptor.\<close>

theorem on_accept_hands_over:
  fixes srv :: "('cb, 'd) tcp_server"
  assumes "0 \<le> fd" and "0 \<le> m_client_counts srv" and "m_client_counts srv < 2147483647"
    and "get_io_thread (m_io_thread_group srv) = Inr a" and "a < length (m_io_thread_groups (m_io_thread_group srv))"
    and "io_event_loop (m_io_thread_groups (m_io_thread_group srv) ! a) = Some el" and "m_thread_id el \<noteq> tid"
    and "m_fd (el_events el p) = fd"
  shows "\<exists>srv' c el'. on_accept tid inet_ntoa fd client_addr p on_read_cb on_write_cb srv = Inr srv' \<and>
    m_client_counts srv' = m_client_counts srv + 1 \<and> srv_client srv' = srv_client srv @ [c] \<and>
    m_state c = Connected \<and> conn_fd c = fd \<and> conn_peer_addr c = Some (IPv4NetAddr_sockaddr inet_ntoa client_addr) \<and>
    map io_event_loop (m_io_thread_groups (m_io_thread_group srv')) =
      (map io_event_loop (m_io_thread_groups (m_io_thread_group srv)))[a := Some el'] \<and>
    m_pending_tasks el' = m_pending_tasks el @ [Some (AddToEpoll p)] \<and>
    length (el_wakeups el') = Suc (length (el_wakeups el)) \<and> m_listen_fds el' = m_listen_fds el \<and>
    fd \<in> m_listen_fds (fst (run_task run (Some (AddToEpoll p)) (el', w)))"
proof -
  let ?el = "update_event p (listen p IN_EVENT (Some on_read_cb) None) el"
  let ?el' = "add_task (Some (AddToEpoll p)) True ?el"
  obtain b where b: "TcpBuffer_new 128 = Inr b" by (simp add: TcpBuffer_new_def vec_new_def)
  let ?c = "\<lparr>conn_local_addr = Some (srv_local_addr srv), conn_peer_addr = Some (IPv4NetAddr_sockaddr inet_ntoa client_addr),
      m_in_buffer = b, m_out_buffer = b, conn_fd_event = p, m_state = NotConnected, conn_fd = fd,
      m_connection_type = TcpConnectionByServer, m_write_dones = [], m_read_dones = Map.empty,
      conn_on_read = on_read_cb, conn_on_write = on_write_cb\<rparr> :: ('cb, 'd) tcp_connection"
  have conn: "TcpConnection_new tid p fd 128 (Some (srv_local_addr srv)) (Some (IPv4NetAddr_sockaddr inet_ntoa client_addr))
      TcpConnectionByServer on_read_cb on_write_cb el = Inr (?c, ?el')"
    using b assms(7)
    by (simp add: TcpConnection_new_def listen_read_def Let_def add_epoll_event_def is_in_current_loop_thread_def)
  let ?g = "m_io_thread_group srv"
  let ?ts = "(m_io_thread_groups ?g)[a := (m_io_thread_groups ?g ! a)\<lparr>io_event_loop := Some ?el'\<rparr>]"
  let ?srv = "srv\<lparr>m_client_counts := m_client_counts srv + 1, m_io_thread_group := ?g\<lparr>m_io_thread_groups := ?ts\<rparr>,
      srv_client := srv_client srv @ [set_state Connected ?c]\<rparr>"
  have run: "on_accept tid inet_ntoa fd client_addr p on_read_cb on_write_cb srv = Inr ?srv"
    using assms(1-6) conn
    by (simp add: on_accept_def acceptor_accept_def get_eventloop_def in_i32_def Let_def)
  have fd: "fd \<in> m_listen_fds (fst (run_task run (Some (AddToEpoll p)) (?el', w)))"
    using assms(8) by (intro registered_after_task) (simp add: listen_def Let_def)
  show ?thesis
    by (rule exI [of _ ?srv], rule exI [of _ "set_state Connected ?c"], rule exI [of _ ?el'])
      (use run fd in \<open>simp add: set_state_def map_update add_task_def wake_up_def Let_def update_event_def\<close>)
qed

definition sample_server :: "(nat, nat) tcp_server" where
  "sample_server = \<lparr>m_acceptor = \<lparr>acc_local_addr = sample_addr, m_family = AF_INET, m_listenfd = 20, acc_reuseport = 0\<rparr>,
     srv_local_addr = sample_addr, m_main_event_loop = the_sample_loop,
     m_io_thread_group = \<lparr>m_group_size = 1, m_io_thread_groups = [sample_io_thread]\<rparr>,
     m_listen_fd_event = 5, m_client_counts = 0, srv_client = []\<rparr>"

lemma on_accept_hands_over_witness:
  "\<exists>srv' c. on_accept 1 (\<lambda>_. ''10.0.0.1'') 9 sockaddr_zero 2 90 91 sample_server = Inr srv' \<and>
    srv_client srv' = [c] \<and> m_state c = Connected \<and> conn_fd c = 9 \<and> m_client_counts srv' = 1"
proof -
  have ts: "m_io_thread_groups (m_io_thread_group sample_server) = [sample_io_thread]" by (simp add: sample_server_def)
  have "io_event_loop sample_io_thread = Some (the_sample_loop\<lparr>m_thread_id := 2\<rparr>)" by (simp add: sample_io_thread_def)
  moreover from this have "get_io_thread (m_io_thread_group sample_server) = Inr 0"
    by (simp add: get_io_thread_def ts Let_def get_evnetloop_task_size_def)
  ultimately show ?thesis
    using on_accept_hands_over [of 9 sample_server 0 "the_sample_loop\<lparr>m_thread_id := 2\<rparr>" 1 2] ts the_sample_loop_fields(4)
    by (fastforce simp: sample_server_def FdEvent_new_def)
qed

end
