(* ===== verification/Reactor.thy ===== *)
theory Reactor
  imports Tcp_Server
begin

text \<open>
  The loop of an I/O thread with the connections it serves: the callbacks that \<open>listen_read\<close> and
  \<open>listen_write\<close> bind to a connection's event run that connection's handlers, and the loop queues
  them when \<open>epoll_wait\<close> reports its descriptor. The sockets are parameters of any behaviour.

  The lemmas show that the composition keeps every connection to itself: whatever the peers send and
  whatever \<open>epoll_wait\<close> reports, a connection's descriptor is registered, if at all, with the
  present mask and the address of its own event, whose callbacks are its own handlers. The last
  sections follow a client from \<open>on_accept\<close> on the server's main thread through three rounds of the
  loop that got the connection, up to the answers in its socket.
\<close>

section \<open>The callbacks of a server's loop\<close>

text \<open>\<open>LoopInternal\<close> stands for the callbacks of the wake-up descriptor and of the timer, which has
  no events on an I/O thread: they only read their descriptors.\<close>

datatype reactor_cb = ConnRead nat | ConnWrite nat | LoopInternal

type_synonym 's conns = "nat \<rightharpoonup> (reactor_cb, unit) tcp_connection \<times> 's"

text \<open>\<open>None\<close> is a process that has faulted or hangs in a handler.\<close>

definition run_handler ::
  "('s \<Rightarrow> (reactor_cb, unit) conn_loop \<Rightarrow> ((reactor_cb, unit) conn_loop \<times> 's) res option) \<Rightarrow> nat \<Rightarrow>
   reactor_cb event_loop \<Rightarrow> 's conns \<Rightarrow> reactor_cb event_loop \<times> 's conns option" where
  "run_handler h i el cs =
     (case cs i of
        None \<Rightarrow> (el, None)
      | Some (c, s) \<Rightarrow>
     (case h s (c, el) of
        Some (Inr ((c', el'), s')) \<Rightarrow> (el', Some (cs(i \<mapsto> (c', s'))))
      | _ \<Rightarrow> (el, None)))"

fun reactor_run ::
  "(reactor_cb, unit, 'm, 'req, 'rsp) conn_env \<Rightarrow> int \<Rightarrow> 's reader \<Rightarrow> 's writer \<Rightarrow>
   (reactor_cb, 's conns option) runner" where
  "reactor_run env tid rd wr cb (el, None) = (el, None)"
| "reactor_run env tid rd wr LoopInternal (el, Some cs) = (el, Some cs)"
| "reactor_run env tid rd wr (ConnRead i) (el, Some cs) = run_handler (on_read env tid rd) i el cs"
| "reactor_run env tid rd wr (ConnWrite i) (el, Some cs) = run_handler (on_write env tid wr) i el cs"

section \<open>What a handler touches\<close>

definition in_step :: "(reactor_cb, unit) tcp_connection \<Rightarrow> reactor_cb event_loop \<Rightarrow> bool" where
  "in_step c el \<longleftrightarrow> m_fd (conn_event c el) = conn_fd c \<and> m_data_ptr (conn_event c el) = Some (conn_fd_event c) \<and>
     registered el (conn_fd c) \<in> {None, Some (Some (m_events (conn_event c el), Some (conn_fd_event c)))}"

definition closed_off :: "(reactor_cb, unit) tcp_connection \<Rightarrow> reactor_cb event_loop \<Rightarrow> bool" where
  "closed_off c el \<longleftrightarrow> (m_state c = Closed \<longrightarrow> m_events (conn_event c el) AND (EPOLLIN OR EPOLLOUT) = 0)"

text \<open>Between two loops: only the connection's own event and descriptor have changed, and are in step.\<close>

definition own_effect ::
  "(reactor_cb, unit) tcp_connection \<Rightarrow> reactor_cb event_loop \<Rightarrow> reactor_cb event_loop \<Rightarrow> bool" where
  "own_effect c el el' \<longleftrightarrow>
     loop_inv el' \<and> m_thread_id el' = m_thread_id el \<and> m_pending_tasks el' = m_pending_tasks el \<and> m_stop_flag el' = m_stop_flag el \<and>
     (\<forall>q. q \<noteq> conn_fd_event c \<longrightarrow> el_events el' q = el_events el q) \<and>
     (\<forall>fd. fd \<noteq> conn_fd c \<longrightarrow> registered el' fd = registered el fd) \<and> in_step c el' \<and>
     m_read_callback (conn_event c el') = m_read_callback (conn_event c el) \<and>
     m_write_callback (conn_event c el') \<in> {m_write_callback (conn_event c el), Some (conn_on_write c)} \<and>
     (m_error_callback (conn_event c el) = None \<longrightarrow> m_error_callback (conn_event c el') = None)"

definition same_conn :: "(reactor_cb, unit) tcp_connection \<Rightarrow> (reactor_cb, unit) tcp_connection \<Rightarrow> bool" where
  "same_conn c c' \<longleftrightarrow> conn_fd_event c' = conn_fd_event c \<and> conn_fd c' = conn_fd c \<and>
     m_connection_type c' = m_connection_type c \<and> conn_on_read c' = conn_on_read c \<and> conn_on_write c' = conn_on_write c \<and>
     m_state c' \<in> {m_state c, Closed}"

lemma own_effect_refl: "loop_inv el \<Longrightarrow> in_step c el \<Longrightarrow> own_effect c el el"
  by (simp add: own_effect_def)

text \<open>Changing the own event and registering it again.\<close>

lemma own_effect_watch:
  fixes f :: "reactor_cb fd_event \<Rightarrow> reactor_cb fd_event"
  assumes "loop_inv el" and "in_step c el" and "m_thread_id el = tid"
    and "\<And>ev. m_fd (f ev) = m_fd ev"
    and "m_data_ptr (f (conn_event c el)) = Some (conn_fd_event c)"
    and "m_read_callback (f (conn_event c el)) = m_read_callback (conn_event c el)"
    and "m_write_callback (f (conn_event c el)) \<in> {m_write_callback (conn_event c el), Some (conn_on_write c)}"
    and "m_error_callback (conn_event c el) = None \<Longrightarrow> m_error_callback (f (conn_event c el)) = None"
  shows "own_effect c el (add_epoll_event tid (conn_fd_event c) (update_event (conn_fd_event c) f el))"
proof -
  let ?p = "conn_fd_event c"
  let ?el = "update_event ?p f el"
  have add: "add_epoll_event tid ?p ?el = add_to_epoll ?p ?el"
    using assms(3) by (simp add: add_epoll_event_def is_in_current_loop_thread_def)
  have fd: "m_fd (el_events ?el ?p) = conn_fd c"
    using assms(2,4) by (simp add: in_step_def conn_event_def)
  have reg: "loop_inv (add_to_epoll ?p ?el)" "registered (add_to_epoll ?p ?el) =
      (registered el)(conn_fd c \<mapsto> Some (m_events (f (conn_event c el)), Some ?p))"
    using ep.watch_law [OF update_event_inv [OF assms(1)], of ?p ?p f] fd assms(5)
    by (simp_all add: event_fd_def event_interest_def conn_event_def)
  have ev: "el_events (add_to_epoll ?p ?el) = (el_events el)(?p := f (conn_event c el))"
    by (simp add: add_to_epoll_def update_event_def Let_def conn_event_def)
  have rest: "m_thread_id (add_to_epoll ?p ?el) = m_thread_id el" "m_pending_tasks (add_to_epoll ?p ?el) = m_pending_tasks el"
    "m_stop_flag (add_to_epoll ?p ?el) = m_stop_flag el"
    by (simp_all add: add_to_epoll_def update_event_def Let_def)
  show ?thesis
    unfolding add own_effect_def in_step_def
    using reg rest assms(5-8) fd by (simp add: conn_event_def ev)
qed

lemma listen_write_effect:
  assumes "loop_inv el" and "in_step c el" and "m_thread_id el = tid"
  shows "fst (listen_write tid (c, el)) = c" "own_effect c el (snd (listen_write tid (c, el)))"
proof -
  show "fst (listen_write tid (c, el)) = c" by (simp add: listen_write_def Let_def)
  show "own_effect c el (snd (listen_write tid (c, el)))"
    unfolding listen_write_def Let_def prod.case snd_conv
    by (rule own_effect_watch [OF assms]) (simp_all add: listen_def Let_def)
qed

lemma cancel_write_effect:
  assumes "loop_inv el" and "in_step c el" and "m_thread_id el = tid"
  shows "own_effect c el (add_epoll_event tid (conn_fd_event c) (update_event (conn_fd_event c) (cancel OUT_EVENT) el))"
  by (rule own_effect_watch [OF assms]) (use assms(2) in \<open>simp_all add: cancel_def in_step_def\<close>)

lemma mask_cancelled: "m_events (cancel OUT_EVENT (cancel IN_EVENT ev)) AND (EPOLLIN OR EPOLLOUT) = 0"
proof (rule bit_word_eqI)
  fix n
  show "bit (m_events (cancel OUT_EVENT (cancel IN_EVENT ev)) AND (EPOLLIN OR EPOLLOUT)) n = bit (0 :: 32 word) n"
    by (cases "n = 0"; cases "n = 2") (simp_all add: fd_event_simps bit_and_iff bit_or_iff bit_EPOLL)
qed

lemma clear_effect:
  assumes "loop_inv el" and "in_step c el" and "m_thread_id el = tid" and "m_state c \<noteq> Closed"
  shows "fst (clear tid (c, el)) = c\<lparr>m_state := Closed\<rparr>" "own_effect c el (snd (clear tid (c, el)))"
    "m_events (conn_event c (snd (clear tid (c, el)))) AND (EPOLLIN OR EPOLLOUT) = 0"
proof -
  let ?p = "conn_fd_event c"
  let ?el = "update_event ?p (cancel OUT_EVENT) (update_event ?p (cancel IN_EVENT) el)"
  have fd: "m_fd (el_events ?el ?p) = conn_fd c" using assms(2) by (simp add: in_step_def conn_event_def cancel_def)
  have run: "clear tid (c, el) = (c\<lparr>m_state := Closed\<rparr>, delete_from_epoll (conn_fd c) ?el)"
    using assms(3,4) fd by (simp add: clear_def Let_def delete_epoll_event_def is_in_current_loop_thread_def)
  have reg: "loop_inv (delete_from_epoll (conn_fd c) ?el)"
    "registered (delete_from_epoll (conn_fd c) ?el) = (registered el)(conn_fd c := None)"
    using ep.unwatch_law [OF update_event_inv [OF update_event_inv [OF assms(1)]], of "conn_fd c" ?p "cancel OUT_EVENT" ?p "cancel IN_EVENT"]
    by simp_all
  have ev: "el_events (delete_from_epoll (conn_fd c) ?el) = (el_events el)(?p := cancel OUT_EVENT (cancel IN_EVENT (conn_event c el)))"
    "m_thread_id (delete_from_epoll (conn_fd c) ?el) = m_thread_id el"
    "m_pending_tasks (delete_from_epoll (conn_fd c) ?el) = m_pending_tasks el" "m_stop_flag (delete_from_epoll (conn_fd c) ?el) = m_stop_flag el"
    by (simp_all add: delete_from_epoll_def update_event_def conn_event_def)
  show "fst (clear tid (c, el)) = c\<lparr>m_state := Closed\<rparr>" by (simp add: run)
  have keep: "m_data_ptr (cancel OUT_EVENT (cancel IN_EVENT e)) = m_data_ptr e"
    "m_error_callback (cancel OUT_EVENT (cancel IN_EVENT e)) = m_error_callback e" for e :: "reactor_cb fd_event"
    by (simp_all add: cancel_def)
  show "own_effect c el (snd (clear tid (c, el)))"
    unfolding run snd_conv own_effect_def in_step_def
    using reg ev assms(2) by (simp add: conn_event_def in_step_def cancel_callbacks keep)
  show "m_events (conn_event c (snd (clear tid (c, el)))) AND (EPOLLIN OR EPOLLOUT) = 0"
    unfolding run snd_conv conn_event_def ev by (simp add: mask_cancelled)
qed

text \<open>The two handlers of a server's connection, whatever the socket does.\<close>

lemma on_read_effect:
  assumes "on_read env tid rd s (c, el) = Some (Inr ((c', el'), s'))" and "m_connection_type c = TcpConnectionByServer"
    and "loop_inv el" and "in_step c el" and "m_thread_id el = tid" and "closed_off c el"
  shows "same_conn c c' \<and> own_effect c el el' \<and> closed_off c' el'"
proof (cases "m_state c = Connected")
  case False
  then show ?thesis
    using assms own_effect_refl by (auto simp: handlers_inert same_conn_def)
next
  case True
  then obtain is_close s1 in_b where one: "read_loop rd (s, m_in_buffer c) = Some (Inr (is_close, s1, in_b))"
    and rest: "(if is_close then Some (Inr (clear tid (c\<lparr>m_in_buffer := in_b\<rparr>, el), s1))
       else bindO (excute env tid (c\<lparr>m_in_buffer := in_b\<rparr>, el)) (\<lambda>r. Some (Inr (r, s1)))) = Some (Inr ((c', el'), s'))"
    using assms(1) by (auto simp: on_read_def Let_def fault_simps)
  let ?c = "c\<lparr>m_in_buffer := in_b\<rparr>"
  have step: "in_step ?c el" "own_effect ?c = own_effect c"
    using assms(4) by (auto simp: in_step_def conn_event_def own_effect_def fun_eq_iff)
  show ?thesis
  proof (cases is_close)
    case True
    note cl = clear_effect [OF assms(3) step(1) assms(5)]
    have "m_state ?c \<noteq> Closed" using \<open>m_state c = Connected\<close> by simp
    moreover have "c' = fst (clear tid (?c, el))" "el' = snd (clear tid (?c, el))"
      using rest True by (simp_all add: prod_eq_iff)
    ultimately have "c' = ?c\<lparr>m_state := Closed\<rparr>" "own_effect c el el'" "m_events (conn_event c el') AND (EPOLLIN OR EPOLLOUT) = 0"
      using cl step(2) by (simp_all add: conn_event_def)
    then show ?thesis by (simp add: same_conn_def closed_off_def conn_event_def)
  next
    case False
    then obtain out_b in_b2 where r: "listen_write tid (?c\<lparr>m_in_buffer := in_b2, m_out_buffer := out_b\<rparr>, el) = (c', el')"
      using rest assms(2) by (auto simp: excute_def excute_server_def fault_simps)
    let ?c2 = "?c\<lparr>m_in_buffer := in_b2, m_out_buffer := out_b\<rparr>"
    have step2: "in_step ?c2 el" "own_effect ?c2 = own_effect c"
      using assms(4) by (auto simp: in_step_def conn_event_def own_effect_def fun_eq_iff)
    have "c' = ?c2" "own_effect c el el'"
      using listen_write_effect [OF assms(3) step2(1) assms(5)] r step2(2) by (metis fst_conv snd_conv)+
    then show ?thesis using \<open>m_state c = Connected\<close> by (simp add: same_conn_def closed_off_def)
  qed
qed

lemma on_write_effect:
  assumes "on_write env tid wr s (c, el) = Some (Inr ((c', el'), s'))" and "m_connection_type c = TcpConnectionByServer"
    and "loop_inv el" and "in_step c el" and "m_thread_id el = tid" and "closed_off c el"
  shows "same_conn c c' \<and> own_effect c el el' \<and> closed_off c' el'"
proof (cases "m_state c = Connected")
  case False
  then show ?thesis
    using assms own_effect_refl by (auto simp: handlers_inert same_conn_def)
next
  case True
  then show ?thesis
    using assms cancel_write_effect [OF assms(3-5)] own_effect_refl [OF assms(3,4)]
    by (auto simp: on_write_def encode_pending_def Let_def fault_simps same_conn_def closed_off_def split: if_splits)
qed

section \<open>The invariant\<close>

definition conn_inv :: "nat \<Rightarrow> (reactor_cb, unit) tcp_connection \<Rightarrow> reactor_cb event_loop \<Rightarrow> bool" where
  "conn_inv i c el \<longleftrightarrow> m_connection_type c = TcpConnectionByServer \<and> conn_on_read c = ConnRead i \<and> conn_on_write c = ConnWrite i \<and>
     in_step c el \<and> closed_off c el \<and> m_read_callback (conn_event c el) = Some (ConnRead i) \<and>
     m_write_callback (conn_event c el) \<in> {None, Some (ConnWrite i)} \<and> m_error_callback (conn_event c el) = None"

definition conn_ptrs :: "'s conns \<Rightarrow> nat set" where
  "conn_ptrs cs = (\<lambda>(c, s). conn_fd_event c) ` ran cs"

definition apart :: "'s conns \<Rightarrow> bool" where
  "apart cs \<longleftrightarrow> (\<forall>i j c s d t. cs i = Some (c, s) \<and> cs j = Some (d, t) \<and> i \<noteq> j \<longrightarrow>
     conn_fd c \<noteq> conn_fd d \<and> conn_fd_event c \<noteq> conn_fd_event d)"

fun task_ok :: "'s conns \<Rightarrow> reactor_cb task option \<Rightarrow> bool" where
  "task_ok cs (Some (Call (ConnRead i))) \<longleftrightarrow> cs i \<noteq> None"
| "task_ok cs (Some (Call (ConnWrite i))) \<longleftrightarrow> cs i \<noteq> None"
| "task_ok cs (Some (AddToEpoll p)) \<longleftrightarrow> p \<in> conn_ptrs cs"
| "task_ok cs _ \<longleftrightarrow> True"

definition internal_event :: "reactor_cb fd_event \<Rightarrow> bool" where
  "internal_event ev \<longleftrightarrow> m_read_callback ev \<in> {None, Some LoopInternal} \<and> m_write_callback ev \<in> {None, Some LoopInternal} \<and>
     m_error_callback ev = None"

definition reactor_inv :: "int \<Rightarrow> reactor_cb event_loop \<Rightarrow> 's conns \<Rightarrow> bool" where
  "reactor_inv tid el cs \<longleftrightarrow> loop_inv el \<and> m_thread_id el = tid \<and> apart cs \<and>
     (\<forall>i c s. cs i = Some (c, s) \<longrightarrow> conn_inv i c el) \<and>
     (\<forall>q. q \<notin> conn_ptrs cs \<longrightarrow> internal_event (el_events el q)) \<and> list_all (task_ok cs) (m_pending_tasks el)"

lemma conn_ptrsI: "cs i = Some (c, s) \<Longrightarrow> conn_fd_event c \<in> conn_ptrs cs"
  by (force simp: conn_ptrs_def ran_def)

lemma conn_ptrsE:
  assumes "p \<in> conn_ptrs cs"
  obtains i c s where "cs i = Some (c, s)" "conn_fd_event c = p"
  using assms by (auto simp: conn_ptrs_def ran_def)

lemma conn_ptrs_upd:
  "cs i = Some (c, s) \<Longrightarrow> conn_fd_event c' = conn_fd_event c \<Longrightarrow> conn_ptrs (cs(i \<mapsto> (c', s'))) = conn_ptrs cs"
proof (intro set_eqI iffI)
  fix p
  assume a: "cs i = Some (c, s)" "conn_fd_event c' = conn_fd_event c"
  { assume "p \<in> conn_ptrs (cs(i \<mapsto> (c', s')))"
    then show "p \<in> conn_ptrs cs" using a by (auto elim!: conn_ptrsE split: if_splits intro: conn_ptrsI dest: sym) }
  { assume "p \<in> conn_ptrs cs"
    then obtain j d t where "cs j = Some (d, t)" "conn_fd_event d = p" by (rule conn_ptrsE)
    then show "p \<in> conn_ptrs (cs(i \<mapsto> (c', s')))"
      using a conn_ptrsI [of "cs(i \<mapsto> (c', s'))" i c' s'] conn_ptrsI [of "cs(i \<mapsto> (c', s'))" j d t]
      by (cases "j = i") auto }
qed

lemma task_ok_upd:
  assumes "cs i = Some (c, s)" and "conn_fd_event c' = conn_fd_event c"
  shows "task_ok (cs(i \<mapsto> (c', s'))) = task_ok cs"
proof
  fix t
  show "task_ok (cs(i \<mapsto> (c', s'))) t = task_ok cs t"
    using assms conn_ptrs_upd [of cs i c s c' s', OF assms] by (cases "(cs, t)" rule: task_ok.cases) auto
qed

lemma handler_keeps_inv:
  assumes "reactor_inv tid el cs" and "cs i = Some (c, s)" and "same_conn c c'" and "own_effect c el el'" and "closed_off c' el'"
  shows "reactor_inv tid el' (cs(i \<mapsto> (c', s')))"
proof -
  have ap: "apart cs" and inv: "\<And>j d t. cs j = Some (d, t) \<Longrightarrow> conn_inv j d el"
    using assms(1) by (auto simp: reactor_inv_def)
  have ptr: "conn_fd_event c' = conn_fd_event c" and fd: "conn_fd c' = conn_fd c" using assms(3) by (auto simp: same_conn_def)
  have "conn_inv j d el'" if "(cs(i \<mapsto> (c', s'))) j = Some (d, t)" for j d t
  proof (cases "j = i")
    case True
    then show ?thesis
      using that inv [OF assms(2)] assms(3-5) by (auto simp: conn_inv_def same_conn_def own_effect_def in_step_def conn_event_def)
  next
    case False
    then have d: "cs j = Some (d, t)" using that by simp
    then have "conn_fd d \<noteq> conn_fd c" "conn_fd_event d \<noteq> conn_fd_event c"
      using ap assms(2) False unfolding apart_def by blast+
    then show ?thesis
      using inv [OF d] assms(4) by (auto simp: conn_inv_def own_effect_def in_step_def closed_off_def conn_event_def)
  qed
  moreover have "apart (cs(i \<mapsto> (c', s')))"
    using ap assms(2) ptr fd unfolding apart_def by (auto split: if_splits) metis+
  moreover have "internal_event (el_events el' q)" if "q \<notin> conn_ptrs cs" for q
  proof -
    have "q \<noteq> conn_fd_event c" using that conn_ptrsI [of cs i c s, OF assms(2)] by auto
    then have "el_events el' q = el_events el q" using assms(4) unfolding own_effect_def by blast
    then show ?thesis using that assms(1) by (simp add: reactor_inv_def)
  qed
  ultimately show ?thesis
    using assms(1,4) conn_ptrs_upd [of cs i c s c' s', OF assms(2) ptr] task_ok_upd [of cs i c s c' s', OF assms(2) ptr]
    by (simp add: reactor_inv_def own_effect_def)
qed

section \<open>Every round keeps it\<close>

lemma delete_keeps_inv:
  assumes "reactor_inv tid el cs"
  shows "reactor_inv tid (delete_from_epoll fd el) cs"
proof -
  let ?el = "delete_from_epoll fd el"
  have inv: "loop_inv el" and conns: "\<And>j d t. cs j = Some (d, t) \<Longrightarrow> conn_inv j d el"
    using assms by (auto simp: reactor_inv_def)
  have same: "el_events ?el = el_events el" "m_thread_id ?el = m_thread_id el" "m_pending_tasks ?el = m_pending_tasks el"
    by (simp_all add: delete_from_epoll_def)
  have reg: "loop_inv ?el" "registered ?el = (registered el)(fd := None)" using ep.unwatch_law [OF inv] by blast+
  have "conn_inv j d ?el" if "cs j = Some (d, t)" for j d t
    using conns [OF that] reg(2) by (auto simp: conn_inv_def in_step_def closed_off_def conn_event_def same)
  then show ?thesis using assms reg(1) by (simp add: reactor_inv_def same)
qed

lemma add_keeps_inv:
  assumes "reactor_inv tid el cs" and "p \<in> conn_ptrs cs"
  shows "reactor_inv tid (add_to_epoll p el) cs"
proof -
  obtain i c s where c: "cs i = Some (c, s)" "conn_fd_event c = p" using assms(2) by (rule conn_ptrsE)
  have inv: "loop_inv el" "in_step c el" "m_thread_id el = tid" "closed_off c el"
    using assms(1) c(1) by (auto simp: reactor_inv_def conn_inv_def)
  have "own_effect c el (add_epoll_event tid p (update_event p (\<lambda>ev. ev) el))"
    unfolding c(2) [symmetric] by (rule own_effect_watch [OF inv(1-3)]) (use inv(2) in \<open>simp_all add: in_step_def\<close>)
  then have eff: "own_effect c el (add_to_epoll p el)"
    using inv(3) by (simp add: add_epoll_event_def is_in_current_loop_thread_def update_event_def)
  have off: "closed_off c (add_to_epoll p el)"
    using inv(4) by (simp add: closed_off_def conn_event_def add_to_epoll_def Let_def)
  have "same_conn c c" by (simp add: same_conn_def)
  then have "reactor_inv tid (add_to_epoll p el) (cs(i \<mapsto> (c, s)))"
    by (rule handler_keeps_inv [OF assms(1) c(1) _ eff off])
  then show ?thesis using c(1) by (simp add: fun_upd_idem)
qed

lemma run_handler_keeps:
  assumes "reactor_inv tid el cs" and "run_handler h i el cs = (el', Some cs')"
    and "\<And>c s c' el' s'. h s (c, el) = Some (Inr ((c', el'), s')) \<Longrightarrow> m_connection_type c = TcpConnectionByServer \<Longrightarrow>
      loop_inv el \<Longrightarrow> in_step c el \<Longrightarrow> m_thread_id el = tid \<Longrightarrow> closed_off c el \<Longrightarrow>
      same_conn c c' \<and> own_effect c el el' \<and> closed_off c' el'"
  shows "reactor_inv tid el' cs' \<and> task_ok cs' = task_ok cs"
proof -
  obtain c s where c: "cs i = Some (c, s)"
    using assms(2) by (cases "cs i") (auto simp: run_handler_def)
  obtain c' s' where h: "cs i = Some (c, s)" "h s (c, el) = Some (Inr ((c', el'), s'))" "cs' = cs(i \<mapsto> (c', s'))"
  proof (cases "h s (c, el)")
    case None
    then show ?thesis using assms(2) c by (simp add: run_handler_def)
  next
    case (Some r)
    then show ?thesis using assms(2) c that by (cases r) (simp_all add: run_handler_def split_beta prod_eq_iff)
  qed
  have "conn_inv i c el" "loop_inv el" "m_thread_id el = tid" using assms(1) h(1) by (auto simp: reactor_inv_def)
  then have eff: "same_conn c c'" "own_effect c el el'" "closed_off c' el'"
    using assms(3) [OF h(2)] by (auto simp: conn_inv_def)
  have "conn_fd_event c' = conn_fd_event c" using eff(1) by (simp add: same_conn_def)
  then have "task_ok cs' = task_ok cs" unfolding h(3) by (rule task_ok_upd [of cs i c s c' s', OF h(1)])
  moreover have "reactor_inv tid el' cs'" unfolding h(3) by (rule handler_keeps_inv [OF assms(1) h(1) eff])
  ultimately show ?thesis by blast
qed

lemma run_task_keeps:
  assumes "reactor_inv tid el cs" and "task_ok cs t"
    and "run_task (reactor_run env tid rd wr) t (el, Some cs) = (el', Some cs')"
  shows "reactor_inv tid el' cs' \<and> task_ok cs' = task_ok cs"
proof (cases "(cs, t)" rule: task_ok.cases)
  case (1 cs2 i)
  then have "run_handler (on_read env tid rd) i el cs = (el', Some cs')" using assms(3) by simp
  then show ?thesis by (rule run_handler_keeps [OF assms(1)]) (rule on_read_effect)
next
  case (2 cs2 i)
  then have "run_handler (on_write env tid wr) i el cs = (el', Some cs')" using assms(3) by simp
  then show ?thesis by (rule run_handler_keeps [OF assms(1)]) (rule on_write_effect)
next
  case (3 cs2 p)
  then show ?thesis using assms add_keeps_inv by auto
qed (use assms delete_keeps_inv in auto)

lemma run_task_stuck: "snd (run_task (reactor_run env tid rd wr) t (el, None)) = None"
  by (cases "run_task (reactor_run env tid rd wr) t (el, None)" ; cases t rule: option.exhaust; cases "the t") auto

lemma run_tasks_stuck: "snd (fold (run_task (reactor_run env tid rd wr)) ts (el, None)) = None"
proof (induction ts arbitrary: el)
  case (Cons t ts)
  obtain el1 w1 where "run_task (reactor_run env tid rd wr) t (el, None) = (el1, w1)" by fastforce
  then show ?case using run_task_stuck [of env tid rd wr t el] Cons.IH [of el1] by simp
qed simp

lemma run_tasks_keep:
  "reactor_inv tid el cs \<Longrightarrow> list_all (task_ok cs) ts \<Longrightarrow>
   fold (run_task (reactor_run env tid rd wr)) ts (el, Some cs) = (el', Some cs') \<Longrightarrow> reactor_inv tid el' cs'"
proof (induction ts arbitrary: el cs)
  case (Cons t ts)
  obtain el1 w1 where one: "run_task (reactor_run env tid rd wr) t (el, Some cs) = (el1, w1)" by fastforce
  then have rest: "fold (run_task (reactor_run env tid rd wr)) ts (el1, w1) = (el', Some cs')" using Cons.prems(3) by simp
  then obtain cs1 where w1: "w1 = Some cs1" using run_tasks_stuck [of env tid rd wr ts el1] by (cases w1) auto
  then show ?case using run_task_keeps [OF Cons.prems(1) _ one [unfolded w1]] Cons.prems(2) Cons.IH [of el1 cs1] rest by simp
qed simp

lemma add_task_keeps: "reactor_inv tid el cs \<Longrightarrow> task_ok cs t \<Longrightarrow> reactor_inv tid (add_task t w el) cs"
proof -
  assume a: "reactor_inv tid el cs" "task_ok cs t"
  have "registered (add_task t w el) = registered el" by (simp add: registered_def)
  moreover have "loop_inv (add_task t w el)" using a(1) by (intro loop_inv_cong [of "add_task t w el" el]) (simp_all add: reactor_inv_def)
  ultimately show ?thesis
    using a by (simp add: reactor_inv_def conn_inv_def in_step_def closed_off_def conn_event_def)
qed

lemma handler_task_ok:
  assumes "reactor_inv tid el cs" and "t \<noteq> ERROR_EVENT"
  shows "task_ok cs (map_option Call (handler t (el_events el p)))" "handler ERROR_EVENT (el_events el p) = None"
proof -
  have "task_ok cs (map_option Call (handler t (el_events el p))) \<and> handler ERROR_EVENT (el_events el p) = None"
  proof (cases "p \<in> conn_ptrs cs")
    case True
    then obtain i c s where "cs i = Some (c, s)" "conn_fd_event c = p" by (rule conn_ptrsE)
    then have "conn_inv i c el" "cs i \<noteq> None" "conn_fd_event c = p" using assms(1) by (auto simp: reactor_inv_def)
    then show ?thesis using assms(2) by (cases t) (auto simp: conn_inv_def conn_event_def)
  next
    case False
    then have "internal_event (el_events el p)" using assms(1) by (simp add: reactor_inv_def)
    then show ?thesis using assms(2) by (cases t) (auto simp: internal_event_def)
  qed
  then show "task_ok cs (map_option Call (handler t (el_events el p)))" "handler ERROR_EVENT (el_events el p) = None" by simp_all
qed

lemma handle_trigger_keeps:
  assumes "reactor_inv tid el cs" and "handle_trigger tid (e, d) el = Inr el'"
  shows "reactor_inv tid el' cs"
proof -
  obtain p where p: "d = Some p" using assms(2) by (cases d) (auto simp: handle_trigger_def)
  define el1 where "el1 = (if e AND EPOLLIN \<noteq> 0 then add_task (map_option Call (handler IN_EVENT (el_events el p))) False el else el)"
  define el2 where "el2 = (if e AND EPOLLOUT \<noteq> 0 then add_task (map_option Call (handler OUT_EVENT (el_events el p))) False el1 else el1)"
  have ok: "task_ok cs (map_option Call (handler IN_EVENT (el_events el p)))" "task_ok cs (map_option Call (handler OUT_EVENT (el_events el p)))"
    by (rule handler_task_ok(1) [OF assms(1)], simp)+
  have "reactor_inv tid el1 cs"
    by (cases "e AND EPOLLIN \<noteq> 0") (simp_all only: el1_def if_True if_False not_False_eq_True add_task_keeps assms(1) ok)
  then have two: "reactor_inv tid el2 cs"
    by (cases "e AND EPOLLOUT \<noteq> 0") (simp_all only: el2_def if_True if_False not_False_eq_True add_task_keeps ok)
  have "m_thread_id el2 = tid" using two by (simp add: reactor_inv_def)
  then have "el' = (if e AND EPOLLERR \<noteq> 0 then delete_from_epoll (m_fd (el_events el p)) el2 else el2)"
    using assms(2) handler_task_ok(2) [OF assms(1), of IN_EVENT p]
    unfolding p handle_trigger_def by (simp add: Let_def delete_epoll_event_def is_in_current_loop_thread_def el1_def el2_def split: if_splits)
  then show ?thesis using two by (simp add: delete_keeps_inv)
qed

lemma triggers_keep:
  "foldR (handle_trigger tid) ts el = Inr el' \<Longrightarrow> reactor_inv tid el cs \<Longrightarrow> reactor_inv tid el' cs"
proof (induction ts arbitrary: el)
  case (Cons t ts)
  then obtain el1 where "handle_trigger tid t el = Inr el1" "foldR (handle_trigger tid) ts el1 = Inr el'"
    by (auto simp: fault_simps)
  then show ?case using Cons handle_trigger_keeps [of tid el cs "fst t" "snd t" el1] by simp
qed simp

lemma loop_round_keeps:
  assumes "reactor_inv tid el cs" and "loop_round (reactor_run env tid rd wr) tid r (el, Some cs) = Inr (el', Some cs')"
  shows "reactor_inv tid el' cs'"
proof -
  obtain el1 w1 where one: "fold (run_task (reactor_run env tid rd wr)) (m_pending_tasks el) (el\<lparr>m_pending_tasks := []\<rparr>, Some cs) = (el1, w1)"
    by fastforce
  have w1: "w1 = Some cs'" using assms(2) one by (auto simp: loop_round_def fault_simps split: option.splits)
  have "reactor_inv tid (el\<lparr>m_pending_tasks := []\<rparr>) cs" "list_all (task_ok cs) (m_pending_tasks el)"
    using assms(1) by (auto simp: reactor_inv_def conn_inv_def in_step_def closed_off_def conn_event_def registered_def
        intro: loop_inv_cong)
  then have "reactor_inv tid el1 cs'" using run_tasks_keep one w1 by blast
  then show ?thesis
    using assms(2) one triggers_keep by (auto simp: loop_round_def fault_simps split: option.splits)
qed

section \<open>Every reachable state has it\<close>

text \<open>A descriptor of an accepted client, with its event at \<open>p\<close>: the library never closes the descriptor of an
  accepted connection, so \<open>accept\<close> does not return one twice.\<close>

definition fresh_fd :: "int \<Rightarrow> nat \<Rightarrow> reactor_cb event_loop \<Rightarrow> 's conns \<Rightarrow> bool" where
  "fresh_fd fd p el cs \<longleftrightarrow> (\<forall>j d t. cs j = Some (d, t) \<longrightarrow> conn_fd d \<noteq> fd \<and> conn_fd_event d \<noteq> p) \<and>
     el_events el p = FdEvent_new fd \<and> fd \<notin> m_listen_fds el"

text \<open>What happens to the loop of an I/O thread that neither faults nor hangs: its own rounds, whatever \<open>epoll_wait\<close>
  reports; a socket whose peer does anything; another thread that accepts a client for it, as \<open>on_accept\<close> does;
  and another thread that stops it.\<close>

inductive reactor_step ::
  "(reactor_cb, unit, 'm, 'req, 'rsp) conn_env \<Rightarrow> int \<Rightarrow> 's reader \<Rightarrow> 's writer \<Rightarrow>
   reactor_cb event_loop \<times> 's conns \<Rightarrow> reactor_cb event_loop \<times> 's conns \<Rightarrow> bool"
  for env tid rd wr where
  round: "loop_round (reactor_run env tid rd wr) tid r (el, Some cs) = Inr (el', Some cs') \<Longrightarrow>
    reactor_step env tid rd wr (el, cs) (el', cs')"
| peer: "cs i = Some (c, s) \<Longrightarrow> reactor_step env tid rd wr (el, cs) (el, cs(i \<mapsto> (c, s')))"
| accepted: "cs i = None \<Longrightarrow> fresh_fd fd p el cs \<Longrightarrow> tid' \<noteq> tid \<Longrightarrow>
    TcpConnection_new tid' p fd 128 la pa TcpConnectionByServer (ConnRead i) (ConnWrite i) el = Inr (c, el') \<Longrightarrow>
    reactor_step env tid rd wr (el, cs) (el', cs(i \<mapsto> (set_state Connected c, s)))"
| stopped: "reactor_step env tid rd wr (el, cs) (stop el, cs)"

inductive_cases reactor_stepE: "reactor_step env tid rd wr x y"

lemma accepted_connection:
  assumes "TcpConnection_new tid' p fd 128 la pa TcpConnectionByServer on_r on_w el = Inr (c, el')" and "tid' \<noteq> m_thread_id el"
  shows "el' = add_task (Some (AddToEpoll p)) True (update_event p (listen p IN_EVENT (Some on_r) None) el)"
    "conn_fd_event c = p" "conn_fd c = fd" "m_connection_type c = TcpConnectionByServer" "conn_on_read c = on_r" "conn_on_write c = on_w"
    "conn_local_addr c = la" "conn_peer_addr c = pa" "m_in_buffer c = fresh_buffer 128" "m_out_buffer c = fresh_buffer 128"
  using assms
  by (auto simp: TcpConnection_new_def TcpBuffer_new_def vec_new_def fresh_buffer_def Let_def listen_read_def add_epoll_event_def
      is_in_current_loop_thread_def)

lemma registered_None: "loop_inv el \<Longrightarrow> fd \<notin> m_listen_fds el \<Longrightarrow> registered el fd = None"
  by (auto elim!: loop_invE)

lemma accept_keeps:
  assumes "reactor_inv tid el cs" and "cs i = None" and "fresh_fd fd p el cs" and "tid' \<noteq> tid"
    and new: "TcpConnection_new tid' p fd 128 la pa TcpConnectionByServer (ConnRead i) (ConnWrite i) el = Inr (c, el')"
  shows "reactor_inv tid el' (cs(i \<mapsto> (set_state Connected c, s)))"
proof -
  let ?cs = "cs(i \<mapsto> (set_state Connected c, s))"
  let ?el = "update_event p (listen p IN_EVENT (Some (ConnRead i)) None) el"
  have inv: "loop_inv el" "m_thread_id el = tid" "apart cs" using assms(1) by (auto simp: reactor_inv_def)
  have "tid' \<noteq> m_thread_id el" using inv(2) assms(4) by simp
  note c = accepted_connection [OF new this]
  have ev: "el_events ?el = (el_events el)(p := listen p IN_EVENT (Some (ConnRead i)) None (FdEvent_new fd))"
    using assms(3) by (simp add: fresh_fd_def update_event_def)
  have fresh: "conn_fd d \<noteq> fd" "conn_fd_event d \<noteq> p" if "cs j = Some (d, t)" for j d t
    using assms(3) that unfolding fresh_fd_def by blast+
  have none: "registered el fd = None" using registered_None [OF inv(1)] assms(3) by (simp add: fresh_fd_def)
  have ptrs: "conn_ptrs ?cs = insert p (conn_ptrs cs)"
    using assms(2) by (simp add: conn_ptrs_def set_state_def c(2))
  have "conn_inv j d ?el" if "?cs j = Some (d, t)" for j d t
  proof (cases "j = i")
    case True
    then have "d = set_state Connected c" using that by simp
    then show ?thesis
      using none True by (simp add: conn_inv_def set_state_def c in_step_def closed_off_def conn_event_def ev)
        (simp add: listen_def FdEvent_new_def)
  next
    case False
    then have d: "cs j = Some (d, t)" using that by simp
    then have "conn_inv j d el" using assms(1) by (auto simp: reactor_inv_def)
    then show ?thesis using fresh(2) [OF d] by (simp add: conn_inv_def in_step_def closed_off_def conn_event_def ev)
  qed
  moreover have "apart ?cs"
    unfolding apart_def
  proof (intro allI impI)
    fix j k d s1 e t1
    assume a: "?cs j = Some (d, s1) \<and> ?cs k = Some (e, t1) \<and> j \<noteq> k"
    show "conn_fd d \<noteq> conn_fd e \<and> conn_fd_event d \<noteq> conn_fd_event e"
    proof (cases "j = i \<or> k = i")
      case True
      then show ?thesis
        using a fresh [of j d s1] fresh [of k e t1] c(2,3) by (auto simp: set_state_def)
    next
      case False
      then show ?thesis using a inv(3) unfolding apart_def by (metis fun_upd_other)
    qed
  qed
  moreover have "internal_event (el_events ?el q)" if "q \<notin> conn_ptrs ?cs" for q
    using that assms(1) by (simp add: ptrs ev reactor_inv_def)
  moreover have "list_all (task_ok ?cs) (m_pending_tasks ?el)"
  proof -
    have "task_ok ?cs t" if "task_ok cs t" for t
      using that by (cases "(cs, t)" rule: task_ok.cases) (auto simp: ptrs)
    then show ?thesis using assms(1) by (auto simp: reactor_inv_def update_event_def list_all_iff)
  qed
  ultimately have "reactor_inv tid ?el ?cs"
    using inv(1,2) update_event_inv [OF inv(1)] by (simp add: reactor_inv_def)
  then show ?thesis unfolding c(1) by (rule add_task_keeps) (simp add: ptrs)
qed

lemma peer_keeps:
  assumes "reactor_inv tid el cs" and "cs i = Some (c, s)"
  shows "reactor_inv tid el (cs(i \<mapsto> (c, s')))"
proof (rule handler_keeps_inv [OF assms])
  have "loop_inv el" "in_step c el" "closed_off c el" using assms by (auto simp: reactor_inv_def conn_inv_def)
  then show "own_effect c el el" "closed_off c el" using own_effect_refl by auto
qed (simp add: same_conn_def)

lemma reactor_step_keeps: "reactor_step env tid rd wr (el, cs) (el', cs') \<Longrightarrow> reactor_inv tid el cs \<Longrightarrow> reactor_inv tid el' cs'"
proof (erule reactor_stepE, goal_cases)
  case (4)
  then show ?case
    by (auto simp: reactor_inv_def conn_inv_def in_step_def closed_off_def conn_event_def registered_def stop_def wake_up_def
        intro: loop_inv_cong)
qed (auto simp: loop_round_keeps peer_keeps accept_keeps)

lemma EventLoop_new_reactor:
  assumes "EventLoop_new False tid epfd (wa, efd, LoopInternal) (ta, tfd, LoopInternal) heap events = Inr el"
    and "\<And>q. internal_event (events q)"
  shows "reactor_inv tid el Map.empty"
proof -
  have "m_thread_id el = tid" "m_pending_tasks el = []"
    "el_events el = events(wa := listen wa IN_EVENT (Some LoopInternal) None (FdEvent_new efd),
       ta := listen ta IN_EVENT (Some LoopInternal) None (FdEvent_new tfd))"
    using assms(1)
    by (auto simp: EventLoop_new_def init_wakeup_fd_event_def init_timer_def Let_def add_epoll_event_def
        is_in_current_loop_thread_def add_to_epoll_def Timer_new_def split: if_splits)
  then show ?thesis
    using EventLoop_new_inv [OF assms(1)] assms(2)
    by (simp add: reactor_inv_def apart_def internal_event_def listen_def FdEvent_new_def)
qed

lemma reachable_reactor_inv:
  assumes "(reactor_step env tid rd wr)\<^sup>*\<^sup>* x y" and "reactor_inv tid (fst x) (snd x)"
  shows "reactor_inv tid (fst y) (snd y)"
  using assms
proof (induction rule: rtranclp_induct)
  case (step y z)
  then show ?case using reactor_step_keeps [of env tid rd wr "fst y" "snd y" "fst z" "snd z"] by simp
qed

text \<open>A loop of an I/O thread that has come up and has run in some way the steps allow.\<close>

definition has_run ::
  "(reactor_cb, unit, 'm, 'req, 'rsp) conn_env \<Rightarrow> int \<Rightarrow> 's reader \<Rightarrow> 's writer \<Rightarrow> reactor_cb event_loop \<Rightarrow> 's conns \<Rightarrow> bool" where
  "has_run env tid rd wr el cs \<longleftrightarrow> (\<exists>epfd wa efd ta tfd heap fds el0.
     EventLoop_new False tid epfd (wa, efd, LoopInternal) (ta, tfd, LoopInternal) heap (\<lambda>q. FdEvent_new (fds q)) = Inr el0 \<and>
     (reactor_step env tid rd wr)\<^sup>*\<^sup>* (el0, Map.empty) (el, cs))"

lemma has_run_inv: "has_run env tid rd wr el cs \<Longrightarrow> reactor_inv tid el cs"
proof -
  assume "has_run env tid rd wr el cs"
  then obtain epfd wa efd ta tfd heap fds el0 where
    "EventLoop_new False tid epfd (wa, efd, LoopInternal) (ta, tfd, LoopInternal) heap (\<lambda>q. FdEvent_new (fds q)) = Inr el0"
    "(reactor_step env tid rd wr)\<^sup>*\<^sup>* (el0, Map.empty) (el, cs)"
    unfolding has_run_def by blast
  moreover from this(1) have "reactor_inv tid el0 Map.empty"
    by (rule EventLoop_new_reactor) (simp add: internal_event_def FdEvent_new_def)
  ultimately show ?thesis using reachable_reactor_inv [of env tid rd wr "(el0, Map.empty)" "(el, cs)"] by simp
qed

text \<open>C8 (Connections of a loop stay apart).
  Start from a new loop on an I/O thread and let anything happen that the steps allow: rounds of the loop with
  any reports of \<open>epoll_wait\<close>, any bytes from any peer, clients accepted by another thread on fresh descriptors. Then a
  connection's descriptor is registered, if at all, with exactly the present mask and the address of its own event; the
  callbacks of that event are the connection's own handlers, so what is reported for the descriptor never runs
  another connection's; a closed connection's mask is empty; and no two connections share a descriptor or an
  event.\<close>

theorem connections_stay_apart:
  assumes "has_run env tid rd wr el cs" and "cs i = Some (c, s)"
  shows "(registered el (conn_fd c) = None \<or>
      registered el (conn_fd c) = Some (Some (m_events (conn_event c el), Some (conn_fd_event c)))) \<and>
    handler IN_EVENT (conn_event c el) = Some (ConnRead i) \<and>
    handler OUT_EVENT (conn_event c el) \<in> {None, Some (ConnWrite i)} \<and>
    (m_state c = Closed \<longrightarrow> m_events (conn_event c el) AND (EPOLLIN OR EPOLLOUT) = 0) \<and>
    (\<forall>j d t. cs j = Some (d, t) \<and> j \<noteq> i \<longrightarrow> conn_fd d \<noteq> conn_fd c \<and> conn_fd_event d \<noteq> conn_fd_event c)"
proof -
  have "reactor_inv tid el cs" by (rule has_run_inv [OF assms(1)])
  then have c: "conn_inv i c el" and ap: "apart cs" using assms(2) by (auto simp: reactor_inv_def)
  have "conn_fd d \<noteq> conn_fd c \<and> conn_fd_event d \<noteq> conn_fd_event c" if "cs j = Some (d, t)" "j \<noteq> i" for j d t
    using ap that assms(2) unfolding apart_def by metis
  then show ?thesis using c by (auto simp: conn_inv_def in_step_def closed_off_def)
qed

section \<open>From accept to the answer\<close>

text \<open>A socket: the bytes that have arrived and are not read, whether the peer has closed, and what was sent.\<close>

record sock =
  sk_in :: string
  sk_eof :: bool
  sk_out :: string

definition sock_read :: "sock reader" where
  "sock_read k n =
     (if sk_in k = [] then (if sk_eof k then ReadEof else ReadAgain, k)
      else (ReadData (take (nat n) (sk_in k)), k\<lparr>sk_in := drop (nat n) (sk_in k)\<rparr>))"

definition sock_write :: "sock writer" where
  "sock_write k data = (Wrote (int (length data)), k\<lparr>sk_out := sk_out k @ data\<rparr>)"

lemma on_accept_effect:
  assumes "on_accept tid inet_ntoa fd client_addr p on_r on_w srv = Inr srv'"
    and "get_io_thread (m_io_thread_group srv) = Inr a" and "a < length (m_io_thread_groups (m_io_thread_group srv))"
    and "io_event_loop (m_io_thread_groups (m_io_thread_group srv) ! a) = Some el"
  obtains c el' where
    "TcpConnection_new tid p fd 128 (Some (srv_local_addr srv)) (Some (IPv4NetAddr_sockaddr inet_ntoa client_addr))
       TcpConnectionByServer on_r on_w el = Inr (c, el')"
    "srv_client srv' = srv_client srv @ [set_state Connected c]"
    "io_event_loop (m_io_thread_groups (m_io_thread_group srv') ! a) = Some el'"
  using assms
  by (auto simp: on_accept_def acceptor_accept_def get_eventloop_def fault_simps Let_def split: if_splits)

lemma trigger_bits:
  "EPOLLIN AND EPOLLIN \<noteq> 0" "EPOLLIN AND EPOLLOUT = 0" "EPOLLIN AND EPOLLERR = 0"
  "EPOLLOUT AND EPOLLIN = 0" "EPOLLOUT AND EPOLLOUT \<noteq> 0" "EPOLLOUT AND EPOLLERR = 0"
  "EPOLLIN \<noteq> 0" "EPOLLOUT \<noteq> 0"
  by (simp_all add: EPOLLIN_def EPOLLOUT_def EPOLLERR_def)

text \<open>A round whose only task is one, and that then hears of one descriptor or of none.\<close>

lemma one_task_round:
  assumes "m_pending_tasks el = [t]" and "run_task run t (el\<lparr>m_pending_tasks := []\<rparr>, w) = (el1, w1)"
  shows "loop_round run tid (Some [(EPOLLIN, Some p)]) (el, w) =
      Inr (add_task (map_option Call (handler IN_EVENT (el_events el1 p))) False el1, w1)"
    "loop_round run tid (Some [(EPOLLOUT, Some p)]) (el, w) =
      Inr (add_task (map_option Call (handler OUT_EVENT (el_events el1 p))) False el1, w1)"
    "loop_round run tid None (el, w) = Inr (el1, w1)"
  using assms by (simp_all add: loop_round_def handle_trigger_def trigger_bits G_EPOLL_MAX_EVENTS_def Let_def)

lemma reactor_inv_idle: "reactor_inv tid el cs \<Longrightarrow> reactor_inv tid (el\<lparr>m_pending_tasks := []\<rparr>) cs"
  by (auto simp: reactor_inv_def conn_inv_def in_step_def closed_off_def conn_event_def registered_def intro: loop_inv_cong)

text \<open>What the handlers leave alone on the loop.\<close>

lemma on_read_tasks:
  assumes "reactor_inv tid el cs" and "cs i = Some (c, s)" and "on_read env tid rd s (c, el) = Some (Inr ((c', el'), s'))"
  shows "m_pending_tasks el' = m_pending_tasks el" "m_stop_flag el' = m_stop_flag el"
proof -
  have "conn_inv i c el" "loop_inv el" "m_thread_id el = tid" using assms(1,2) by (auto simp: reactor_inv_def)
  then have "own_effect c el el'" using on_read_effect [OF assms(3)] by (simp add: conn_inv_def)
  then show "m_pending_tasks el' = m_pending_tasks el" "m_stop_flag el' = m_stop_flag el" by (simp_all add: own_effect_def)
qed

lemma on_write_tasks:
  assumes "reactor_inv tid el cs" and "cs i = Some (c, s)" and "on_write env tid wr s (c, el) = Some (Inr ((c', el'), s'))"
  shows "m_pending_tasks el' = m_pending_tasks el" "m_stop_flag el' = m_stop_flag el"
proof -
  have "conn_inv i c el" "loop_inv el" "m_thread_id el = tid" using assms(1,2) by (auto simp: reactor_inv_def)
  then have "own_effect c el el'" using on_write_effect [OF assms(3)] by (simp add: conn_inv_def)
  then show "m_pending_tasks el' = m_pending_tasks el" "m_stop_flag el' = m_stop_flag el" by (simp_all add: own_effect_def)
qed

text \<open>The round that adds the accepted descriptor and hears of input on it.\<close>

lemma round_adds:
  assumes "reactor_inv tid el cs" and "m_pending_tasks el = [Some (AddToEpoll p)]" and "cs i = Some (c, s)" and "conn_fd_event c = p"
  obtains el' where "loop_round (reactor_run env tid rd wr) tid (Some [(EPOLLIN, Some p)]) (el, Some cs) = Inr (el', Some cs)"
    "m_pending_tasks el' = [Some (Call (ConnRead i))]" "m_stop_flag el' = m_stop_flag el"
proof -
  let ?el = "add_to_epoll p (el\<lparr>m_pending_tasks := []\<rparr>)"
  have p: "p \<in> conn_ptrs cs" using conn_ptrsI [of cs i c s, OF assms(3)] assms(4) by simp
  have "reactor_inv tid ?el cs" using add_keeps_inv [OF reactor_inv_idle [OF assms(1)] p] .
  then have "conn_inv i c ?el" using assms(3) by (auto simp: reactor_inv_def)
  then have h: "handler IN_EVENT (el_events ?el p) = Some (ConnRead i)"
    using assms(4) by (simp add: conn_inv_def conn_event_def)
  have rest: "m_pending_tasks ?el = []" "m_stop_flag ?el = m_stop_flag el" by (simp_all add: add_to_epoll_def Let_def)
  have run: "run_task (reactor_run env tid rd wr) (Some (AddToEpoll p)) (el\<lparr>m_pending_tasks := []\<rparr>, Some cs) = (?el, Some cs)" by simp
  show thesis
    by (rule that [OF one_task_round(1) [OF assms(2) run]]) (use h in \<open>simp_all add: rest add_task_def\<close>)
qed

text \<open>The round that reads requests and hears that the socket can be written.\<close>

lemma round_reads:
  assumes "reactor_inv tid el cs" and "m_pending_tasks el = [Some (Call (ConnRead i))]"
    and "cs i = Some (c, \<lparr>sk_in = concat (map frame ms), sk_eof = False, sk_out = []\<rparr>)" and "conn_fd_event c = p" and "m_state c = Connected"
    and "m_in_buffer c = fresh_buffer 128" and "m_out_buffer c = fresh_buffer 128"
    and "conn_local_addr c = Some l" and "conn_peer_addr c = Some q"
    and "ms \<noteq> []" and "list_all wire_ok ms" and "length (concat (map frame ms)) < 128"
    and "list_all (\<lambda>m. sized (answer env c (decoded m))) ms"
    and "length (concat (map (\<lambda>m. frame (answer env c (decoded m))) ms)) \<le> buf_limit"
  obtains in_b out_b el' where
    "loop_round (reactor_run env tid sock_read wr) tid (Some [(EPOLLOUT, Some p)]) (el, Some cs) =
       Inr (el', Some (cs(i \<mapsto> (c\<lparr>m_in_buffer := in_b, m_out_buffer := out_b\<rparr>, \<lparr>sk_in = [], sk_eof = False, sk_out = []\<rparr>))))"
    "m_pending_tasks el' = [Some (Call (ConnWrite i))]" "m_stop_flag el' = m_stop_flag el"
    "buf_tight out_b" "content out_b = concat (map (\<lambda>m. frame (answer env c (decoded m))) ms)"
proof -
  let ?el = "el\<lparr>m_pending_tasks := []\<rparr>" and ?in = "concat (map frame ms)"
  have inv: "reactor_inv tid ?el cs" using reactor_inv_idle [OF assms(1)] .
  have c: "m_connection_type c = TcpConnectionByServer" "loop_inv ?el" "m_thread_id ?el = tid" "conn_on_write c = ConnWrite i"
    using inv assms(3) by (auto simp: reactor_inv_def conn_inv_def)
  have ne: "?in \<noteq> []" using assms(10) frame_nonempty by (cases ms) auto
  have b: "buf_tight (fresh_buffer 128)" using fresh_buffer(1) [of 128] by (simp add: roomy_def)
  have rd: "sock_read \<lparr>sk_in = ?in, sk_eof = False, sk_out = []\<rparr> (can_write_bytes_num (m_in_buffer c)) =
      (ReadData ?in, \<lparr>sk_in = [], sk_eof = False, sk_out = []\<rparr>)"
    using ne assms(6,12) fresh_buffer(3) [of 128] by (simp add: sock_read_def)
  obtain in_b out_b el' where on: "on_read env tid sock_read \<lparr>sk_in = ?in, sk_eof = False, sk_out = []\<rparr> (c, ?el) =
      Some (Inr ((c\<lparr>m_in_buffer := in_b, m_out_buffer := out_b\<rparr>, el'), \<lparr>sk_in = [], sk_eof = False, sk_out = []\<rparr>))"
    "buf_tight out_b" "content out_b = concat (map (\<lambda>m. frame (answer env c (decoded m))) ms)"
    "handler OUT_EVENT (conn_event c el') = Some (ConnWrite i)"
    by (rule on_read_server [of c l q sock_read "\<lparr>sk_in = ?in, sk_eof = False, sk_out = []\<rparr>" ?in
          "\<lparr>sk_in = [], sk_eof = False, sk_out = []\<rparr>" ms "[]" env ?el tid])
      (use assms c rd b fresh_buffer [of 128] in \<open>auto simp: awaits_def\<close>)
  note same = on_read_tasks [OF inv assms(3) on(1)]
  have run: "run_task (reactor_run env tid sock_read wr) (Some (Call (ConnRead i))) (?el, Some cs) =
      (el', Some (cs(i \<mapsto> (c\<lparr>m_in_buffer := in_b, m_out_buffer := out_b\<rparr>, \<lparr>sk_in = [], sk_eof = False, sk_out = []\<rparr>))))"
    using on(1) assms(3) by (simp add: run_handler_def)
  show thesis
    by (rule that [OF one_task_round(2) [OF assms(2) run]]) (use on same assms(4) in \<open>simp_all add: add_task_def conn_event_def\<close>)
qed

text \<open>The round that sends the answers.\<close>

lemma round_writes:
  assumes "reactor_inv tid el cs" and "m_pending_tasks el = [Some (Call (ConnWrite i))]" and "cs i = Some (c, k)" and "m_state c = Connected"
    and "buf_tight (m_out_buffer c)" and "content (m_out_buffer c) \<noteq> []"
  obtains el' where "loop_round (reactor_run env tid rd sock_write) tid None (el, Some cs) =
       Inr (el', Some (cs(i \<mapsto> (c, k\<lparr>sk_out := sk_out k @ content (m_out_buffer c)\<rparr>))))"
    "m_pending_tasks el' = []" "m_stop_flag el' = m_stop_flag el"
proof -
  let ?el = "el\<lparr>m_pending_tasks := []\<rparr>" and ?k = "k\<lparr>sk_out := sk_out k @ content (m_out_buffer c)\<rparr>"
  have inv: "reactor_inv tid ?el cs" using reactor_inv_idle [OF assms(1)] .
  have "m_connection_type c = TcpConnectionByServer" using inv assms(3) by (auto simp: reactor_inv_def conn_inv_def)
  then obtain el' where on: "on_write env tid sock_write k (c, ?el) = Some (Inr ((c, el'), ?k))"
    using on_write_server [of c sock_write k ?k env tid ?el] assms(4-6) by (auto simp: sock_write_def)
  note same = on_write_tasks [OF inv assms(3) on]
  have run: "run_task (reactor_run env tid rd sock_write) (Some (Call (ConnWrite i))) (?el, Some cs) = (el', Some (cs(i \<mapsto> (c, ?k))))"
    using on assms(3) by (simp add: run_handler_def)
  show thesis by (rule that [OF one_task_round(3) [OF assms(2) run]]) (simp_all add: same)
qed

text \<open>What the dispatcher answers to a request on a connection between two addresses.\<close>

definition server_reply ::
  "('cb, 'd, 'm, 'req, 'rsp) conn_env \<Rightarrow> ipv4_net_addr \<Rightarrow> ipv4_net_addr \<Rightarrow> protobuf_protocol \<Rightarrow> protobuf_protocol" where
  "server_reply env l q m =
     (case dispatcher (env_debug env) (env_services env) (ProtobufP (decoded m)) (ProtobufP ProtobufProtocol_new) (Some l) (Some q) of
        Inr rsp \<Rightarrow> rsp | Inl _ \<Rightarrow> ProtobufProtocol_new)"

lemma server_reply_answer:
  "conn_local_addr c = Some l \<Longrightarrow> conn_peer_addr c = Some q \<Longrightarrow> answer env c (decoded m) = server_reply env l q m"
  by (simp add: answer_def server_reply_def)

text \<open>Three rounds serve a client whose connection has just been handed over.\<close>

lemma rounds_serve:
  assumes "reactor_inv tid el cs" and "m_pending_tasks el = [Some (AddToEpoll p)]" and "\<not> m_stop_flag el"
    and "cs i = Some (c, \<lparr>sk_in = concat (map frame ms), sk_eof = False, sk_out = []\<rparr>)" and "conn_fd_event c = p" and "m_state c = Connected"
    and "m_in_buffer c = fresh_buffer 128" and "m_out_buffer c = fresh_buffer 128"
    and "conn_local_addr c = Some l" and "conn_peer_addr c = Some q"
    and "ms \<noteq> []" and "list_all wire_ok ms" and "length (concat (map frame ms)) < 128"
    and "list_all (\<lambda>m. sized (server_reply env l q m)) ms"
    and "length (concat (map (\<lambda>m. frame (server_reply env l q m)) ms)) \<le> buf_limit"
  obtains in_b out_b el' where
    "loop_rounds (reactor_run env tid sock_read sock_write) tid
         [Some [(EPOLLIN, Some p)], Some [(EPOLLOUT, Some p)], None] (el, Some cs) =
       Inr (el', Some (cs(i \<mapsto> (c\<lparr>m_in_buffer := in_b, m_out_buffer := out_b\<rparr>,
         \<lparr>sk_in = [], sk_eof = False, sk_out = concat (map (\<lambda>m. frame (server_reply env l q m)) ms)\<rparr>))))"
    "m_pending_tasks el' = []" "\<not> m_stop_flag el'"
    "reactor_inv tid el' (cs(i \<mapsto> (c\<lparr>m_in_buffer := in_b, m_out_buffer := out_b\<rparr>,
         \<lparr>sk_in = [], sk_eof = False, sk_out = concat (map (\<lambda>m. frame (server_reply env l q m)) ms)\<rparr>)))"
proof -
  let ?run = "reactor_run env tid sock_read sock_write" and ?out = "concat (map (\<lambda>m. frame (server_reply env l q m)) ms)"
  have ans: "answer env c (decoded m) = server_reply env l q m" for m using server_reply_answer assms(9,10) .
  obtain el1 where r1: "loop_round ?run tid (Some [(EPOLLIN, Some p)]) (el, Some cs) = Inr (el1, Some cs)"
    "m_pending_tasks el1 = [Some (Call (ConnRead i))]" "m_stop_flag el1 = m_stop_flag el"
    by (rule round_adds [of tid el cs p i c _ env sock_read sock_write, OF assms(1,2,4,5)])
  have inv1: "reactor_inv tid el1 cs" using loop_round_keeps [OF assms(1) r1(1)] .
  obtain in_b out_b el2 where r2: "loop_round ?run tid (Some [(EPOLLOUT, Some p)]) (el1, Some cs) =
       Inr (el2, Some (cs(i \<mapsto> (c\<lparr>m_in_buffer := in_b, m_out_buffer := out_b\<rparr>, \<lparr>sk_in = [], sk_eof = False, sk_out = []\<rparr>))))"
    "m_pending_tasks el2 = [Some (Call (ConnWrite i))]" "m_stop_flag el2 = m_stop_flag el1" "buf_tight out_b" "content out_b = ?out"
    by (rule round_reads [of tid el1 cs i c ms p l q env sock_write]) (use assms inv1 r1 in \<open>simp_all add: ans\<close>)
  let ?c = "c\<lparr>m_in_buffer := in_b, m_out_buffer := out_b\<rparr>" and ?k = "\<lparr>sk_in = [], sk_eof = False, sk_out = []\<rparr>"
  let ?cs = "cs(i \<mapsto> (?c, ?k))"
  have inv2: "reactor_inv tid el2 ?cs" using loop_round_keeps [OF inv1 r2(1)] .
  have ne: "?out \<noteq> []" using assms(11) frame_nonempty by (cases ms) auto
  obtain el3 where r3: "loop_round ?run tid None (el2, Some ?cs) =
       Inr (el3, Some (?cs(i \<mapsto> (?c, ?k\<lparr>sk_out := sk_out ?k @ content (m_out_buffer ?c)\<rparr>))))"
    "m_pending_tasks el3 = []" "m_stop_flag el3 = m_stop_flag el2"
    by (rule round_writes [of tid el2 ?cs i ?c ?k env sock_read]) (use assms(6) inv2 r2 ne in simp_all)
  have inv3: "reactor_inv tid el3 (?cs(i \<mapsto> (?c, ?k\<lparr>sk_out := sk_out ?k @ content (m_out_buffer ?c)\<rparr>)))"
    using loop_round_keeps [OF inv2 r3(1)] .
  have stop: "\<not> m_stop_flag el1" "\<not> m_stop_flag el2" "\<not> m_stop_flag el3" using r1 r2 r3 assms(3) by simp_all
  show thesis
    by (rule that [of el3 out_b in_b]) (use r1(1) r2(1) r3(1,2) r2(5) stop assms(3) inv3 in simp_all)
qed

text \<open>The server's next client goes to thread \<open>a\<close>, whose loop is \<open>el\<close>.\<close>

definition next_loop :: "('cb, 'd) tcp_server \<Rightarrow> nat \<Rightarrow> 'cb event_loop \<Rightarrow> bool" where
  "next_loop srv a el \<longleftrightarrow> get_io_thread (m_io_thread_group srv) = Inr a \<and>
     a < length (m_io_thread_groups (m_io_thread_group srv)) \<and>
     io_event_loop (m_io_thread_groups (m_io_thread_group srv) ! a) = Some el"

lemma accepted_rounds:
  assumes "reactor_inv tid el cs"
    and "m_pending_tasks el = []" and "\<not> m_stop_flag el" and "cs i = None" and "fresh_fd fd p el cs" and "tid' \<noteq> tid"
    and "next_loop srv a el" and "on_accept tid' inet_ntoa fd ca p (ConnRead i) (ConnWrite i) srv = Inr srv'"
    and "ms \<noteq> []" and "list_all wire_ok ms" and "length (concat (map frame ms)) < 128"
    and "list_all (\<lambda>m. sized (server_reply env (srv_local_addr srv) (IPv4NetAddr_sockaddr inet_ntoa ca) m)) ms"
    and "length (concat (map (\<lambda>m. frame (server_reply env (srv_local_addr srv) (IPv4NetAddr_sockaddr inet_ntoa ca) m)) ms)) \<le> buf_limit"
  obtains c el1 c2 el2 where "srv_client srv' = srv_client srv @ [c]"
    "io_event_loop (m_io_thread_groups (m_io_thread_group srv') ! a) = Some el1"
    "loop_rounds (reactor_run env tid sock_read sock_write) tid [Some [(EPOLLIN, Some p)], Some [(EPOLLOUT, Some p)], None]
      (el1, Some (cs(i \<mapsto> (c, \<lparr>sk_in = concat (map frame ms), sk_eof = False, sk_out = []\<rparr>)))) =
      Inr (el2, Some (cs(i \<mapsto> (c2, \<lparr>sk_in = [], sk_eof = False, sk_out =
        concat (map (\<lambda>m. frame (server_reply env (srv_local_addr srv) (IPv4NetAddr_sockaddr inet_ntoa ca) m)) ms)\<rparr>))))"
    "conn_fd c2 = fd" "m_state c2 = Connected" "m_pending_tasks el2 = []"
proof -
  let ?l = "srv_local_addr srv" and ?q = "IPv4NetAddr_sockaddr inet_ntoa ca"
  let ?k = "\<lparr>sk_in = concat (map frame ms), sk_eof = False, sk_out = []\<rparr>"
  have hand: "get_io_thread (m_io_thread_group srv) = Inr a" "a < length (m_io_thread_groups (m_io_thread_group srv))"
    "io_event_loop (m_io_thread_groups (m_io_thread_group srv) ! a) = Some el"
    using assms(7) by (simp_all add: next_loop_def)
  obtain c el1 where new: "TcpConnection_new tid' p fd 128 (Some ?l) (Some ?q) TcpConnectionByServer (ConnRead i) (ConnWrite i) el = Inr (c, el1)"
    "srv_client srv' = srv_client srv @ [set_state Connected c]"
    "io_event_loop (m_io_thread_groups (m_io_thread_group srv') ! a) = Some el1"
    by (rule on_accept_effect [OF assms(8) hand])
  have "tid' \<noteq> m_thread_id el" using assms(1,6) by (simp add: reactor_inv_def)
  note c = accepted_connection [OF new(1) this]
  have tasks: "m_pending_tasks el1 = [Some (AddToEpoll p)]" "\<not> m_stop_flag el1"
    using assms(2,3) unfolding c(1) by (simp_all add: add_task_def wake_up_def update_event_def)
  obtain in_b out_b el2 where
    "loop_rounds (reactor_run env tid sock_read sock_write) tid [Some [(EPOLLIN, Some p)], Some [(EPOLLOUT, Some p)], None]
        (el1, Some (cs(i \<mapsto> (set_state Connected c, ?k)))) =
       Inr (el2, Some (cs(i \<mapsto> (set_state Connected c, ?k), i \<mapsto> ((set_state Connected c)\<lparr>m_in_buffer := in_b, m_out_buffer := out_b\<rparr>,
         \<lparr>sk_in = [], sk_eof = False, sk_out = concat (map (\<lambda>m. frame (server_reply env ?l ?q m)) ms)\<rparr>))))"
    "m_pending_tasks el2 = []"
    by (rule rounds_serve [of tid el1 "cs(i \<mapsto> (set_state Connected c, ?k))" p i "set_state Connected c" ms ?l ?q env])
      (use accept_keeps [OF assms(1,4,5,6) new(1)] tasks c assms(9-13) in \<open>simp_all add: set_state_def\<close>)
  then show thesis using that [OF new(2,3)] c(3) by (simp add: set_state_def)
qed


section \<open>A sample\<close>

definition reactor_loop :: "reactor_cb event_loop" where
  "reactor_loop = (case EventLoop_new False 1 5 (0, 6, LoopInternal) (1, 7, LoopInternal)
       (\<lambda>_. \<lparr>m_arrive_time = 0, m_interval = 0, m_is_repeat = False, m_is_cancel = False, m_task = None\<rparr>)
       (\<lambda>q. FdEvent_new 9) of Inr el \<Rightarrow> el | Inl _ \<Rightarrow> undefined)"

lemma reactor_loop:
  "EventLoop_new False 1 5 (0, 6, LoopInternal) (1, 7, LoopInternal)
     (\<lambda>_. \<lparr>m_arrive_time = 0, m_interval = 0, m_is_repeat = False, m_is_cancel = False, m_task = None\<rparr>)
     (\<lambda>q. FdEvent_new 9) = Inr reactor_loop"
  by (simp add: reactor_loop_def EventLoop_new_def init_wakeup_fd_event_def split: sum.splits)

lemma reactor_loop_fields:
  "m_thread_id reactor_loop = 1" "m_pending_tasks reactor_loop = []" "\<not> m_stop_flag reactor_loop"
  "el_events reactor_loop 2 = FdEvent_new 9" "9 \<notin> m_listen_fds reactor_loop"
  by (simp_all add: reactor_loop_def EventLoop_new_def init_wakeup_fd_event_def init_timer_def Let_def
      add_epoll_event_def is_in_current_loop_thread_def add_to_epoll_def listen_def FdEvent_new_def Timer_new_def)

lemma reactor_loop_fresh: "fresh_fd 9 2 reactor_loop Map.empty"
  by (simp add: fresh_fd_def reactor_loop_fields)

definition reactor_env :: "(reactor_cb, unit, unit, string, string) conn_env" where
  "reactor_env = \<lparr>env_debug = True, env_services = register_service echo_service Map.empty, env_run_done = (\<lambda>d p s. s)\<rparr>"

definition reactor_server :: "(reactor_cb, unit) tcp_server" where
  "reactor_server = \<lparr>m_acceptor = \<lparr>acc_local_addr = sample_addr, m_family = AF_INET, m_listenfd = 20, acc_reuseport = 0\<rparr>,
     srv_local_addr = sample_addr, m_main_event_loop = reactor_loop\<lparr>m_thread_id := 2\<rparr>,
     m_io_thread_group = \<lparr>m_group_size = 1, m_io_thread_groups =
       [IOThread_members\<lparr>io_event_loop := Some reactor_loop\<rparr>]\<rparr>,
     m_listen_fd_event = 5, m_client_counts = 0, srv_client = []\<rparr>"

lemma reactor_server_fields: "srv_local_addr reactor_server = sample_addr" "srv_client reactor_server = []"
  by (simp_all add: reactor_server_def)

lemma reactor_server_next: "next_loop reactor_server 0 reactor_loop"
  by (simp add: next_loop_def reactor_server_def get_io_thread_def get_evnetloop_task_size_def Let_def)

lemma reactor_server_accepts:
  obtains srv' where "on_accept 3 (\<lambda>_. ''10.0.0.1'') 9 sockaddr_zero 2 (ConnRead 0) (ConnWrite 0) reactor_server = Inr srv'"
proof -
  have "m_client_counts reactor_server = 0" by (simp add: reactor_server_def)
  moreover obtain b where "TcpBuffer_new 128 = Inr b" by (simp add: TcpBuffer_new_def vec_new_def)
  ultimately show thesis
    using that reactor_server_next
    by (simp add: next_loop_def on_accept_def acceptor_accept_def get_eventloop_def in_i32_def TcpConnection_new_def listen_read_def Let_def)
qed

lemma reactor_loop_ran: "has_run env 1 rd wr reactor_loop Map.empty"
  unfolding has_run_def by (intro exI conjI, rule reactor_loop, rule rtranclp.rtrancl_refl)

lemma connections_stay_apart_witness:
  "\<exists>el cs c. has_run reactor_env 1 sock_read sock_write el cs \<and>
     cs 0 = Some (c, \<lparr>sk_in = ''ab'', sk_eof = False, sk_out = []\<rparr>) \<and> conn_fd c = 9 \<and>
     handler IN_EVENT (conn_event c el) = Some (ConnRead 0)"
proof -
  let ?k = "\<lparr>sk_in = ''ab'', sk_eof = False, sk_out = []\<rparr>"
  obtain b where b: "TcpBuffer_new 128 = Inr b" by (simp add: TcpBuffer_new_def vec_new_def)
  then obtain c :: "(reactor_cb, unit) tcp_connection" and el' where new:
    "TcpConnection_new 3 2 9 128 None None TcpConnectionByServer (ConnRead 0) (ConnWrite 0) reactor_loop = Inr (c, el')"
    by (simp add: TcpConnection_new_def listen_read_def Let_def)
  let ?c = "set_state Connected c"
  have one: "reactor_step reactor_env 1 sock_read sock_write (reactor_loop, Map.empty) (el', [0 \<mapsto> (?c, ?k)])"
    by (rule reactor_step.accepted [OF _ reactor_loop_fresh _ new]) simp_all
  have ran: "has_run reactor_env 1 sock_read sock_write el' [0 \<mapsto> (?c, ?k)]"
    unfolding has_run_def by (intro exI conjI, rule reactor_loop, rule r_into_rtranclp, rule one)
  moreover have "conn_fd ?c = 9" using accepted_connection(3) [OF new] by (simp add: set_state_def reactor_loop_fields)
  ultimately show ?thesis
    using connections_stay_apart [OF ran, of 0 ?c ?k]
    by (intro exI [of _ el'] exI [of _ "[0 \<mapsto> (?c, ?k)]"] exI [of _ ?c]) simp
qed

lemma sample_reply:
  "server_reply reactor_env sample_addr q sample_request =
   ProtobufProtocol_new\<lparr>m_msg_id := ''42'', m_method_name := ''Order.make'', m_pb_data := ''body42''\<rparr>"
  by (simp add: server_reply_def reactor_env_def sample_request_def decoded_def encoded_def Let_def
      with_msg_id_def dispatcher_def parse_service_full_name_def register_service_def echo_service_def
      controller_defs ProtobufProtocol_new_def)


end
