(* ===== verification/Client_Loop.thy ===== *)
theory Client_Loop
  imports Rpc_Call Reactor
begin

text \<open>
  The client's side of a call in its own event loop: what the loop runs when \<open>epoll_wait\<close> reports the
  client's socket is the lambda of the connect in progress (\<open>src/net/tcp/tcp_client.cc\<close>), the
  handlers of the connection (\<open>src/net/tcp/tcp_connection.cc\<close>) with the lambdas of the channel as
  message callbacks (\<open>src/net/rpc/rpc_channel.cc\<close>), or the timer.

  The lemmas follow a call whose connect is in progress through the rounds of the loop: connected, the request
  written, the reply read, the closure run; or nothing heard, and the timeout; or the connect refused.
\<close>

section \<open>The handlers of a channel's connection\<close>

text \<open>\<open>on_read\<close> of a client's connection with its message callbacks run on the whole channel.\<close>

definition channel_on_read ::
  "('req, 'rsp) channel_env \<Rightarrow> 's reader \<Rightarrow> 's \<Rightarrow> ('req, 'rsp) rpc_channel \<Rightarrow> (('req, 'rsp) rpc_channel \<times> 's) res option" where
  "channel_on_read env rd s ch =
     (let (c, el) = conn_part ch
      in if m_state c \<noteq> Connected then Some (Inr (ch, s))
         else bindO (read_loop rd (s, m_in_buffer c)) (\<lambda>(is_close, s', in_b).
              if is_close then Some (Inr (with_conn (clear (ce_tid env) (c\<lparr>m_in_buffer := in_b\<rparr>, el)) ch, s'))
              else bindO (ProtobufCoder_decode [] in_b) (\<lambda>(result, in_b').
                   Some (bindR (foldR (deliver env) result (with_conn (c\<lparr>m_in_buffer := in_b'\<rparr>, el) ch)) (\<lambda>ch'.
                         Inr (ch', s'))))))"

text \<open>\<open>on_write\<close>: its callbacks only register the reply and listen for it, which \<open>client_env\<close> does to the connection.\<close>

definition channel_on_write ::
  "('req, 'rsp) channel_env \<Rightarrow> 's writer \<Rightarrow> 's \<Rightarrow> ('req, 'rsp) rpc_channel \<Rightarrow> (('req, 'rsp) rpc_channel \<times> 's) res option" where
  "channel_on_write env wr s ch =
     bindO (on_write (client_env (ce_tid env) (\<lambda>_ _ x. x)) (ce_tid env) wr s (conn_part ch)) (\<lambda>(x, s').
     Some (Inr (with_conn x ch, s')))"

text \<open>The channel's \<open>on_read\<close> is the connection's, followed by what the replies do to the channel.\<close>

lemma read_dones_inert:
  "(\<forall>d \<in> ran (m_read_dones (fst s)). \<exists>h ctl. d = ReadDone h ctl) \<Longrightarrow>
   fold (complete_read (client_env tid (\<lambda>_ _ x. x))) ps s = s"
proof (induction ps)
  case (Cons p ps)
  have "complete_read (client_env tid (\<lambda>_ _ x. x)) p s = s"
    using Cons.prems by (cases s) (auto simp: complete_read_def client_env_def ran_def split: option.splits rpc_done.splits)
  then show ?case using Cons by simp
qed simp

lemma channel_on_read_conn:
  assumes "\<forall>d \<in> ran (reply_map ch). \<exists>h ctl. d = ReadDone h ctl"
    and "m_connection_type (m_connection (m_client ch)) = TcpConnectionByClient"
    and "on_read (client_env (ce_tid env) (\<lambda>_ _ x. x)) (ce_tid env) rd s (conn_part ch) = Some (Inr (x, s'))"
  obtains result where "channel_on_read env rd s ch = Some (bindR (foldR (deliver env) result (with_conn x ch)) (\<lambda>ch'. Inr (ch', s')))"
proof (cases "m_state (m_connection (m_client ch)) = Connected")
  case False
  then have "channel_on_read env rd s ch = Some (Inr (ch, s))" "x = conn_part ch" "s' = s"
    using assms(3) by (auto simp: channel_on_read_def conn_part_def handlers_inert)
  then show thesis using that [of "[]"] by (simp add: with_conn_def conn_part_def)
next
  case True
  let ?c = "m_connection (m_client ch)"
  obtain is_close s1 in_b where one: "read_loop rd (s, m_in_buffer ?c) = Some (Inr (is_close, s1, in_b))"
    and rest: "(if is_close then Some (Inr (clear (ce_tid env) (?c\<lparr>m_in_buffer := in_b\<rparr>, ch_loop ch), s1))
       else bindO (excute (client_env (ce_tid env) (\<lambda>_ _ x. x)) (ce_tid env) (?c\<lparr>m_in_buffer := in_b\<rparr>, ch_loop ch))
         (\<lambda>r. Some (Inr (r, s1)))) = Some (Inr (x, s'))"
    using assms(3) True by (auto simp: on_read_def conn_part_def Let_def fault_simps)
  show thesis
  proof (cases is_close)
    case True
    then show thesis using that [of "[]"] one rest \<open>m_state ?c = Connected\<close> by (simp add: channel_on_read_def conn_part_def)
  next
    case False
    then obtain result in_b2 where dec: "ProtobufCoder_decode [] in_b = Some (Inr (result, in_b2))"
      and x: "x = fold (complete_read (client_env (ce_tid env) (\<lambda>_ _ x. x))) result (?c\<lparr>m_in_buffer := in_b2\<rparr>, ch_loop ch)" "s' = s1"
      using rest assms(2) by (auto simp: excute_def excute_client_def fault_simps)
    have "x = (?c\<lparr>m_in_buffer := in_b2\<rparr>, ch_loop ch)"
      unfolding x(1) by (rule read_dones_inert) (use assms(1) in simp)
    then show thesis
      using that [of result] one dec False x(2) \<open>m_state ?c = Connected\<close> by (simp add: channel_on_read_def conn_part_def)
  qed
qed

section \<open>The loop\<close>

text \<open>What the loop's callbacks need of the system: the socket, the second result of \<open>connect\<close> with the socket
  that replaces a failed one, the timer's descriptor and the clock.\<close>

record 's client_io =
  io_read :: "'s reader"
  io_write :: "'s writer"
  io_connect :: "int option"
  io_socket :: int
  io_timer_fd :: "nat \<Rightarrow> int \<times> int"
  io_clock :: clock

fun run_callback ::
  "('req, 'rsp) channel_env \<Rightarrow> 's client_io \<Rightarrow> rpc_cb \<Rightarrow> ('req, 'rsp) rpc_channel \<times> 's \<Rightarrow> (('req, 'rsp) rpc_channel \<times> 's) res option" where
  "run_callback env io OnRead (ch, s) = channel_on_read env (io_read io) s ch"
| "run_callback env io OnWrite (ch, s) = channel_on_write env (io_write io) s ch"
| "run_callback env io DrainWakeup (ch, s) = Some (Inr (ch, s))"
| "run_callback env io OnTimer (ch, s) = map_option (\<lambda>ch'. Inr (ch', s)) (tick (io_timer_fd io) (io_clock io) ch)"
| "run_callback env io (ConnectReady req ctl) (ch, s) =
     Some (Inr (channel_connect_ready env (io_connect io) (io_socket io) req ctl ch, s))"
| "run_callback env io (CallTimeout ctl) (ch, s) = Some (Inr (call_timeout ctl ch, s))"

text \<open>The loop is part of the channel while a callback runs; \<open>None\<close> is a process that has faulted or hangs.\<close>

fun client_run ::
  "('req, 'rsp) channel_env \<Rightarrow> 's client_io \<Rightarrow> (rpc_cb, (('req, 'rsp) rpc_channel \<times> 's) option) runner" where
  "client_run env io cb (el, None) = (el, None)"
| "client_run env io cb (el, Some (ch, s)) =
     (case run_callback env io cb (ch\<lparr>ch_loop := el\<rparr>, s) of
        Some (Inr (ch', s')) \<Rightarrow> (ch_loop ch', Some (ch', s'))
      | _ \<Rightarrow> (el, None))"

section \<open>The call until the request is queued\<close>

text \<open>The channel's loop before the call: on this thread, idle, and the client's connection bound to its event.\<close>

definition loop_ready :: "('req, 'rsp) channel_env \<Rightarrow> nat \<Rightarrow> ('req, 'rsp) rpc_channel \<Rightarrow> bool" where
  "loop_ready env e ch \<longleftrightarrow> m_thread_id (ch_loop ch) = ce_tid env \<and> m_pending_tasks (ch_loop ch) = [] \<and> \<not> m_stop_flag (ch_loop ch) \<and>
     cl_fd_event (m_client ch) = e \<and> conn_fd_event (m_connection (m_client ch)) = e \<and>
     conn_on_read (m_connection (m_client ch)) = OnRead \<and> conn_on_write (m_connection (m_client ch)) = OnWrite"

lemma epoll_in_thread [simp]:
  "m_thread_id el = tid \<Longrightarrow> m_pending_tasks (add_epoll_event tid p el) = m_pending_tasks el"
  "m_thread_id el = tid \<Longrightarrow> m_stop_flag (add_epoll_event tid p el) = m_stop_flag el"
  "m_thread_id el = tid \<Longrightarrow> m_pending_tasks (delete_epoll_event tid fd el) = m_pending_tasks el"
  "m_thread_id el = tid \<Longrightarrow> m_stop_flag (delete_epoll_event tid fd el) = m_stop_flag el"
  "m_thread_id (delete_epoll_event tid fd el) = m_thread_id el" "m_timer (delete_epoll_event tid fd el) = m_timer el"
  "el_events (delete_epoll_event tid fd el) = el_events el"
  by (auto simp: add_epoll_event_def delete_epoll_event_def is_in_current_loop_thread_def add_to_epoll_def delete_from_epoll_def
      add_task_def wake_up_def Let_def)

lemma update_event_keeps [simp]:
  "m_pending_tasks (update_event p f el) = m_pending_tasks el" "m_stop_flag (update_event p f el) = m_stop_flag el"
  "el_events (update_event p f el) = (el_events el)(p := f (el_events el p))"
  by (simp_all add: update_event_def)

text \<open>A state of the call: the channel \<open>ch1\<close> after \<open>CallMethod\<close> on \<open>ch\<close>, up to the loop and the connection.\<close>

definition under_way :: "nat \<Rightarrow> nat \<Rightarrow> ('req, 'rsp) rpc_channel \<Rightarrow> ('req, 'rsp) rpc_channel \<Rightarrow> bool" where
  "under_way ctl p ch ch1 \<longleftrightarrow> m_timer_evnet ch1 = p \<and> ch_ran ch1 = [] \<and> m_closure ch1 = m_closure ch \<and> m_response ch1 = m_response ch \<and>
     ch_controllers ch1 = ch_controllers ch \<and> call_timer ctl p (channel_timer ch1) \<and> may_fire p (channel_timer ch1)"

lemma CallMethod_in_progress:
  assumes "idle_channel p ch" and "rc_msg_id (ch_controllers ch ctl) = mid" and "mid \<noteq> []" and "loop_ready env e ch"
    and "ce_serialize env request = Some data"
    and "CallMethod open_fd urandom env (Some EINPROGRESS) p clk name (Some ctl) request ch = Inr (ch1, nxt)"
  shows "nxt = (if m_is_looping (ch_loop ch) then Nothing else RunLoop)" "under_way ctl p ch ch1" "loop_ready env e ch1"
    "m_client ch1 = m_client ch"
    "handler OUT_EVENT (el_events (ch_loop ch1) e) = Some (ConnectReady (request_protocol mid name data) ctl)"
    "(fst (get_now_ms clk) + m_timeout_ms (ch_controllers ch ctl), p) \<in> set (m_pending_events (channel_timer ch1))"
    "\<And>t. t \<noteq> e \<Longrightarrow> el_events (ch_loop ch1) t = el_events (ch_loop ch) t" "m_is_init ch1"
proof -
  let ?tm = "channel_timer ch"
  obtain ev clk1 where ev: "TimerEvent_new (m_timeout_ms (ch_controllers ch ctl)) False (Some (CallTimeout ctl)) clk = (ev, clk1)"
    by fastforce
  obtain tm' clk2 where add: "add_time_event p (?tm\<lparr>tm_heap := (tm_heap ?tm)(p := ev)\<rparr>, clk1) = (tm', clk2)"
    by fastforce
  have timer: "call_timer ctl p tm' \<and> may_fire p tm'"
    using call_timer_added [OF _ _ _ ev add] assms(1) by (simp add: idle_channel_def)
  have arrival: "m_arrive_time ev = fst (get_now_ms clk) + m_timeout_ms (ch_controllers ch ctl)"
    using ev by (auto simp: TimerEvent_new_def split: prod.splits)
  let ?el = "add_epoll_event (ce_tid env) e
      (update_event e (listen e OUT_EVENT (Some (ConnectReady (request_protocol mid name data) ctl)) None) ((ch_loop ch)\<lparr>m_timer := tm'\<rparr>))"
  have step: "ch1 = ch\<lparr>m_timer_evnet := p, m_client := m_client ch, ch_loop := ?el\<rparr>"
    "nxt = (if m_is_looping ?el then Nothing else RunLoop)"
    using assms add ev
    by (auto simp: CallMethod_def Let_def idle_channel_def loop_ready_def client_add_timer_event_def add_timer_event_def connect_def
        request_protocol_def split: if_splits)
  have tid: "m_thread_id (ch_loop ch) = ce_tid env" using assms(4) by (simp add: loop_ready_def)
  show "nxt = (if m_is_looping (ch_loop ch) then Nothing else RunLoop)"
    using step(2) by (simp add: update_event_def)
  show "under_way ctl p ch ch1" "m_client ch1 = m_client ch" "loop_ready env e ch1"
    "handler OUT_EVENT (el_events (ch_loop ch1) e) = Some (ConnectReady (request_protocol mid name data) ctl)"
    "\<And>t. t \<noteq> e \<Longrightarrow> el_events (ch_loop ch1) t = el_events (ch_loop ch) t" "m_is_init ch1"
    using step(1) timer assms(1,4) tid by (simp_all add: under_way_def idle_channel_def loop_ready_def listen_def Let_def)
  show "(fst (get_now_ms clk) + m_timeout_ms (ch_controllers ch ctl), p) \<in> set (m_pending_events (channel_timer ch1))"
    using step(1) add_time_event_fields(1) [OF add] arrival by simp
qed

section \<open>The steps of the call\<close>

lemma with_conn_fields [simp]:
  "m_timer_evnet (with_conn x ch) = m_timer_evnet ch" "ch_ran (with_conn x ch) = ch_ran ch" "m_closure (with_conn x ch) = m_closure ch"
  "m_response (with_conn x ch) = m_response ch" "ch_controllers (with_conn x ch) = ch_controllers ch"
  "ch_loop (with_conn x ch) = snd x" "m_connection (m_client (with_conn x ch)) = fst x" "cl_fd_event (m_client (with_conn x ch)) = cl_fd_event (m_client ch)"
  by (simp_all add: with_conn_def)

text \<open>The lambda of the connect: connected, the request is queued and the connection listens for writing.\<close>

lemma connect_step:
  assumes "under_way ctl p ch ch1" and "loop_ready env e ch1" and "m_connect_error_code (m_client ch1) = 0" and "rt \<in> {None, Some EISCONN}"
    and "channel_connect_ready env rt nfd q ctl ch1 = ch2"
  shows "under_way ctl p ch ch2" "loop_ready env e ch2" "handler OUT_EVENT (el_events (ch_loop ch2) e) = Some OnWrite"
    "m_connection (m_client ch2) = push_send_message (ProtobufP q) (WriteDone q ctl) ((m_connection (m_client ch1))\<lparr>m_state := Connected\<rparr>)"
proof -
  obtain cl el where one: "connect_ready (ce_tid env) (ce_inet_ntoa env) (ce_getsockname env) (ce_strerror env) rt nfd
      (m_client ch1, ch_loop ch1) = ((cl, el), RunDone)"
    by (auto simp: connect_ready_def Let_def)
  have cl: "m_connection cl = (m_connection (m_client ch1))\<lparr>m_state := Connected\<rparr>" "m_connect_error_code cl = 0" "cl_fd_event cl = e"
    and el: "el = delete_epoll_event (ce_tid env) (m_fd (el_events (ch_loop ch1) e)) (ch_loop ch1)"
    using one assms(2-4) by (auto simp: client_defs loop_ready_def Let_def split: option.splits)
  have ch2: "ch2 = connect_done env q ctl (ch1\<lparr>m_client := cl, ch_loop := el\<rparr>)"
    using assms(5) one by (simp add: channel_connect_ready_def)
  note f = write_message_fields [of "ch1\<lparr>m_client := cl, ch_loop := el\<rparr>" env q ctl, folded ch2]
  show "m_connection (m_client ch2) = push_send_message (ProtobufP q) (WriteDone q ctl) ((m_connection (m_client ch1))\<lparr>m_state := Connected\<rparr>)"
    using f(5) cl by simp
  show "under_way ctl p ch ch2" using assms(1) f cl el by (simp add: under_way_def)
  have loop: "cl_fd_event (m_client ch2) = e"
    "ch_loop ch2 = add_epoll_event (ce_tid env) e (update_event e (listen e OUT_EVENT (Some OnWrite) None) el)"
    using assms(2) cl by (simp_all add: ch2 connect_done_def on_client_def write_message_def listen_write_def push_send_message_def
        loop_ready_def Let_def)
  show "loop_ready env e ch2"
    using assms(2) f(5) cl loop el by (simp add: loop_ready_def push_send_message_def)
  show "handler OUT_EVENT (el_events (ch_loop ch2) e) = Some OnWrite" using loop(2) by (simp add: listen_def Let_def)
qed

text \<open>The write: the frame of the request goes out, and the connection waits for the reply.\<close>

lemma write_step:
  assumes "under_way ctl p ch ch2" and "loop_ready env e ch2" and "fresh_conn TcpConnectionByClient c0" and "m_read_dones c0 = Map.empty"
    and "m_write_dones c0 = []" and "m_connection (m_client ch2) = push_send_message (ProtobufP q) (WriteDone q ctl) (c0\<lparr>m_state := Connected\<rparr>)"
    and "sized q" and "keeps_writes (client_env (ce_tid env) (\<lambda>_ _ x. x))"
  obtains ch3 where "channel_on_write env sock_write k ch2 = Some (Inr (ch3, k\<lparr>sk_out := sk_out k @ frame q\<rparr>))"
    "under_way ctl p ch ch3" "handler IN_EVENT (el_events (ch_loop ch3) e) = Some OnRead"
    "m_pending_tasks (ch_loop ch3) = []" "\<not> m_stop_flag (ch_loop ch3)" "m_thread_id (ch_loop ch3) = ce_tid env"
    "m_state (m_connection (m_client ch3)) = Connected" "m_in_buffer (m_connection (m_client ch3)) = m_in_buffer c0"
    "reply_map ch3 = [m_msg_id q \<mapsto> ReadDone True ctl]"
proof -
  obtain c el where part: "conn_part ch2 = (c, el)" by fastforce
  then have c: "c = push_send_message (ProtobufP q) (WriteDone q ctl) (c0\<lparr>m_state := Connected\<rparr>)" and el: "el = ch_loop ch2"
    using assms(6) by (simp_all add: conn_part_def)
  have cf: "conn_fd_event c = e" "conn_on_read c = OnRead" using assms(2,6) c by (simp_all add: loop_ready_def)
  obtain c' el' where w: "on_write (client_env (ce_tid env) (\<lambda>_ _ x. x)) (ce_tid env) sock_write k (c, el) =
      Some (Inr ((c', el'), k\<lparr>sk_out := sk_out k @ frame q\<rparr>))"
    "m_state c' = Connected" "m_connection_type c' = TcpConnectionByClient" "m_in_buffer c' = m_in_buffer c"
    "m_read_dones c' = [m_msg_id q \<mapsto> ReadDone True ctl]" "conn_fd_event c' = conn_fd_event c"
    "el' = add_epoll_event (ce_tid env) (conn_fd_event c) (update_event (conn_fd_event c)
       (listen (conn_fd_event c) IN_EVENT (Some (conn_on_read c)) None)
       (add_epoll_event (ce_tid env) (conn_fd_event c) (update_event (conn_fd_event c) (cancel OUT_EVENT) el)))"
    by (rule client_writes_request [of c q ctl "ce_tid env" "\<lambda>_ _ x. x" sock_write k "k\<lparr>sk_out := sk_out k @ frame q\<rparr>" el])
      (use assms(3-5,7,8) in \<open>simp_all add: c push_send_message_def fresh_conn_def sock_write_def\<close>)
  have loop: "m_thread_id el = ce_tid env" "m_pending_tasks el = []" "\<not> m_stop_flag el" using assms(2) el by (simp_all add: loop_ready_def)
  have run: "channel_on_write env sock_write k ch2 = Some (Inr (with_conn (c', el') ch2, k\<lparr>sk_out := sk_out k @ frame q\<rparr>))"
    using w(1) part by (simp add: channel_on_write_def)
  show thesis
    by (rule that [OF run]) (use w(2-5) loop assms(1) el cf in \<open>simp_all add: w(7) under_way_def listen_def Let_def c push_send_message_def\<close>)
qed

text \<open>The read: the reply's callback runs on the channel.\<close>

lemma read_step:
  assumes "under_way ctl p ch ch3" and "m_state (m_connection (m_client ch3)) = Connected" and "roomy (m_in_buffer (m_connection (m_client ch3)))"
    and "content (m_in_buffer (m_connection (m_client ch3))) = []" and "reply_map ch3 = [mid \<mapsto> ReadDone True ctl]"
    and "wire_ok a" and "m_msg_id a = mid" and "mid \<noteq> []"
    and "int (length (frame a)) < can_write_bytes_num (m_in_buffer (m_connection (m_client ch3)))"
    and "m_closure ch = Some (Some f)" and "m_response ch = Some rsp0" and "\<not> m_is_cancled (ch_controllers ch ctl)"
    and "ce_parse env (m_pb_data a) rsp0 = (True, rsp1)" and "m_err_code a = 0"
  obtains ch4 where "channel_on_read env sock_read \<lparr>sk_in = frame a, sk_eof = eof, sk_out = out\<rparr> ch3 =
      Some (Inr (ch4, \<lparr>sk_in = [], sk_eof = eof, sk_out = out\<rparr>))"
    "ch_ran ch4 = [f]" "m_response ch4 = Some rsp1" "\<not> may_fire p (channel_timer ch4)"
proof -
  let ?c = "m_connection (m_client ch3)"
  have rd: "sock_read \<lparr>sk_in = frame a, sk_eof = eof, sk_out = out\<rparr> (can_write_bytes_num (m_in_buffer ?c)) =
      (ReadData (frame a), \<lparr>sk_in = [], sk_eof = eof, sk_out = out\<rparr>)"
    using assms(9) frame_nonempty [of a] by (simp add: sock_read_def)
  obtain b1 where b1: "read_loop sock_read (\<lparr>sk_in = frame a, sk_eof = eof, sk_out = out\<rparr>, m_in_buffer ?c) =
      Some (Inr (False, \<lparr>sk_in = [], sk_eof = eof, sk_out = out\<rparr>, b1))" "roomy b1" "content b1 = frame a"
    using read_loop_short [of "m_in_buffer ?c" sock_read "\<lparr>sk_in = frame a, sk_eof = eof, sk_out = out\<rparr>" "frame a"
        "\<lparr>sk_in = [], sk_eof = eof, sk_out = out\<rparr>", OF assms(3) rd assms(9)] assms(4) by auto
  obtain in_b where dec: "ProtobufCoder_decode [] b1 = Some (Inr ([ProtobufP (decoded a)], in_b))"
    using protobuf_stream.dec_law [OF b1(2), of "[ProtobufP a]" "[]" "[]"] b1(3) assms(6) protobuf_stream.idle_Nil by auto
  let ?ch = "with_conn (?c\<lparr>m_in_buffer := in_b\<rparr>, ch_loop ch3) ch3"
  have way: "ch_ran ch3 = []" "m_closure ch3 = Some (Some f)" "m_response ch3 = Some rsp0" "\<not> m_is_cancled (ch_controllers ch3 ctl)"
    using assms(1,10-12) by (simp_all add: under_way_def)
  obtain ch4 where d: "deliver env (ProtobufP (decoded a)) ?ch = Inr ch4" "ch_ran ch4 = [f]" "m_response ch4 = Some rsp1"
    using call_completes [of "(?c\<lparr>m_in_buffer := in_b\<rparr>, ch_loop ch3)" mid ctl ch3 f rsp0 a env rsp1] way assms(5,7,8,13,14) by auto
  have "in_call ctl p mid ?ch" "completed_once ctl p mid ?ch"
    using assms(1,5) by (auto simp: in_call_def completed_once_def under_way_def)
  then have "completed_once ctl p mid ch4" using deliver_once d(1) by blast
  then have "\<not> may_fire p (channel_timer ch4)" using d(2) by (simp add: completed_once_def)
  moreover have "channel_on_read env sock_read \<lparr>sk_in = frame a, sk_eof = eof, sk_out = out\<rparr> ch3 =
      Some (Inr (ch4, \<lparr>sk_in = [], sk_eof = eof, sk_out = out\<rparr>))"
    using b1(1) dec d(1) assms(2) by (simp add: channel_on_read_def conn_part_def)
  ultimately show thesis using that d(2,3) by blast
qed

section \<open>The rounds of the call\<close>

lemma no_tasks_left: "m_pending_tasks el = [] \<Longrightarrow> el\<lparr>m_pending_tasks := []\<rparr> = el"
  by (cases el) simp

lemma idle_round:
  assumes "m_pending_tasks el = []"
  shows "loop_round run tid (Some [(EPOLLIN, Some p)]) (el, w) =
      Inr (add_task (map_option Call (handler IN_EVENT (el_events el p))) False el, w)"
    "loop_round run tid (Some [(EPOLLOUT, Some p)]) (el, w) =
      Inr (add_task (map_option Call (handler OUT_EVENT (el_events el p))) False el, w)"
  using assms by (simp_all add: loop_round_def handle_trigger_def trigger_bits G_EPOLL_MAX_EVENTS_def Let_def no_tasks_left)

text \<open>A loop that has just queued a callback runs it in its next round on the loop as it was.\<close>

lemma queued_callback:
  assumes "m_pending_tasks el = []" and "run_callback env io cb (ch\<lparr>ch_loop := el\<rparr>, s) = Some (Inr (ch', s'))"
    and "el1 = add_task (Some (Call cb)) False el"
  shows "m_pending_tasks el1 = [Some (Call cb)]"
    "run_task (client_run env io) (Some (Call cb)) (el1\<lparr>m_pending_tasks := []\<rparr>, Some (ch, s)) = (ch_loop ch', Some (ch', s'))"
  using assms by (simp_all add: add_task_def no_tasks_left)

lemma channel_loop_same: "ch\<lparr>ch_loop := ch_loop ch\<rparr> = ch"
  by simp

lemma client_keeps_writes: "keeps_writes (client_env tid (\<lambda>_ _ x. x))"
  by (auto simp: keeps_writes_def client_env_def listen_read_def push_read_message_def Let_def split: rpc_done.splits)

text \<open>Three rounds from the connect in progress to the request on the wire. The loop may be looping already or be
  started by the call.\<close>

lemma rounds_send:
  assumes "ready_client p ctl mid ch" and "loop_ready env e ch" and "ce_serialize env request = Some data"
    and "CallMethod open_fd urandom env (Some EINPROGRESS) p clk name (Some ctl) request ch = Inr (ch1, nxt)"
    and "sized (request_protocol mid name data)"
    and "io_write io = sock_write" and "io_connect io \<in> {None, Some EISCONN}"
  obtains ch3 where "loop (client_run env io) (ce_tid env) [Some [(EPOLLOUT, Some e)], Some [(EPOLLOUT, Some e)], None]
      (ch_loop ch1, Some (ch1, k)) =
      Inr (ch_loop ch3, Some (ch3, k\<lparr>sk_out := sk_out k @ frame (request_protocol mid name data)\<rparr>))"
    "under_way ctl p ch ch3" "handler IN_EVENT (el_events (ch_loop ch3) e) = Some OnRead"
    "m_pending_tasks (ch_loop ch3) = []" "\<not> m_stop_flag (ch_loop ch3)" "m_thread_id (ch_loop ch3) = ce_tid env"
    "m_state (m_connection (m_client ch3)) = Connected"
    "m_in_buffer (m_connection (m_client ch3)) = m_in_buffer (m_connection (m_client ch))" "reply_map ch3 = [mid \<mapsto> ReadDone True ctl]"
proof -
  let ?q = "request_protocol mid name data" and ?run = "client_run env io"
  have cli: "idle_channel p ch" "rc_msg_id (ch_controllers ch ctl) = mid" "mid \<noteq> []"
    "fresh_conn TcpConnectionByClient (m_connection (m_client ch))" "m_write_dones (m_connection (m_client ch)) = []"
    "m_read_dones (m_connection (m_client ch)) = Map.empty" "m_connect_error_code (m_client ch) = 0"
    using assms(1) by (simp_all add: ready_client_def idle_channel_def)
  note call = CallMethod_in_progress [OF cli(1-3) assms(2-4)]
  let ?el = "(ch_loop ch1)\<lparr>m_is_looping := True\<rparr>"
  have one: "m_pending_tasks ?el = []" "\<not> m_stop_flag ?el" using call(3) by (simp_all add: loop_ready_def)
  have way: "under_way ctl p ch (ch1\<lparr>ch_loop := ?el\<rparr>)" "loop_ready env e (ch1\<lparr>ch_loop := ?el\<rparr>)"
    "m_client (ch1\<lparr>ch_loop := ?el\<rparr>) = m_client ch"
    using call(2-4) by (simp_all add: under_way_def loop_ready_def)
  obtain ch2 where ch2: "channel_connect_ready env (io_connect io) (io_socket io) ?q ctl (ch1\<lparr>ch_loop := ?el\<rparr>) = ch2" by simp
  note con = connect_step [OF way(1,2) _ assms(7) ch2, unfolded way(3), OF cli(7)]
  have two: "m_pending_tasks (ch_loop ch2) = []" "\<not> m_stop_flag (ch_loop ch2)" using con(2) by (simp_all add: loop_ready_def)
  obtain ch3 where ch3: "channel_on_write env sock_write k ch2 = Some (Inr (ch3, k\<lparr>sk_out := sk_out k @ frame ?q\<rparr>))"
    "under_way ctl p ch ch3" "handler IN_EVENT (el_events (ch_loop ch3) e) = Some OnRead"
    "m_pending_tasks (ch_loop ch3) = []" "\<not> m_stop_flag (ch_loop ch3)" "m_thread_id (ch_loop ch3) = ce_tid env"
    "m_state (m_connection (m_client ch3)) = Connected"
    "m_in_buffer (m_connection (m_client ch3)) = m_in_buffer (m_connection (m_client ch))" "reply_map ch3 = [m_msg_id ?q \<mapsto> ReadDone True ctl]"
    by (rule write_step [OF con(1,2) cli(4,6,5) con(4) assms(5) client_keeps_writes])
  let ?el1 = "add_task (Some (Call (ConnectReady ?q ctl))) False ?el"
    and ?el2 = "add_task (Some (Call OnWrite)) False (ch_loop ch2)"
  have r1: "loop_round ?run (ce_tid env) (Some [(EPOLLOUT, Some e)]) (?el, Some (ch1, k)) = Inr (?el1, Some (ch1, k))"
    using idle_round(2) [OF one(1), of ?run "ce_tid env" e] call(5) by simp
  have "run_callback env io (ConnectReady ?q ctl) (ch1\<lparr>ch_loop := ?el\<rparr>, k) = Some (Inr (ch2, k))"
    using ch2 by simp
  note q1 = queued_callback [OF one(1) this refl]
  have r2: "loop_round ?run (ce_tid env) (Some [(EPOLLOUT, Some e)]) (?el1, Some (ch1, k)) = Inr (?el2, Some (ch2, k))"
    using one_task_round(2) [OF q1, of "ce_tid env" e] con(3) by simp
  have "run_callback env io OnWrite (ch2\<lparr>ch_loop := ch_loop ch2\<rparr>, k) = Some (Inr (ch3, k\<lparr>sk_out := sk_out k @ frame ?q\<rparr>))"
    using ch3(1) assms(6) by (simp add: channel_loop_same)
  note q2 = queued_callback [OF two(1) this refl]
  have r3: "loop_round ?run (ce_tid env) None (?el2, Some (ch2, k)) = Inr (ch_loop ch3, Some (ch3, k\<lparr>sk_out := sk_out k @ frame ?q\<rparr>))"
    by (rule one_task_round(3) [OF q2])
  have stop: "\<not> m_stop_flag ?el1" "\<not> m_stop_flag ?el2" using one two by (simp_all add: add_task_def)
  have "m_msg_id ?q = mid" by (simp add: request_protocol_def)
  then show thesis using that [OF _ ch3(2-8)] ch3(9) r1 r2 r3 stop one(2) by (simp add: loop_def)
qed
text \<open>Two rounds from the reply in the socket to the closure.\<close>

lemma rounds_receive:
  assumes "under_way ctl p ch ch3" and "handler IN_EVENT (el_events (ch_loop ch3) e) = Some OnRead"
    and "m_pending_tasks (ch_loop ch3) = []" and "\<not> m_stop_flag (ch_loop ch3)"
    and "m_state (m_connection (m_client ch3)) = Connected" and "roomy (m_in_buffer (m_connection (m_client ch3)))"
    and "content (m_in_buffer (m_connection (m_client ch3))) = []" and "reply_map ch3 = [mid \<mapsto> ReadDone True ctl]"
    and "wire_ok a" and "m_msg_id a = mid" and "mid \<noteq> []" and "m_err_code a = 0"
    and "int (length (frame a)) < can_write_bytes_num (m_in_buffer (m_connection (m_client ch3)))"
    and "m_closure ch = Some (Some f)" and "m_response ch = Some rsp0" and "\<not> m_is_cancled (ch_controllers ch ctl)"
    and "ce_parse env (m_pb_data a) rsp0 = (True, rsp1)" and "io_read io = sock_read"
  obtains ch4 where "loop_rounds (client_run env io) (ce_tid env) [Some [(EPOLLIN, Some e)], None]
      (ch_loop ch3, Some (ch3, \<lparr>sk_in = frame a, sk_eof = eof, sk_out = out\<rparr>)) =
      Inr (ch_loop ch4, Some (ch4, \<lparr>sk_in = [], sk_eof = eof, sk_out = out\<rparr>))"
    "ch_ran ch4 = [f]" "m_response ch4 = Some rsp1" "\<not> may_fire p (channel_timer ch4)"
proof -
  let ?run = "client_run env io" and ?s = "\<lparr>sk_in = frame a, sk_eof = eof, sk_out = out\<rparr>"
    and ?el1 = "add_task (Some (Call OnRead)) False (ch_loop ch3)"
  obtain ch4 where ch4: "channel_on_read env sock_read ?s ch3 = Some (Inr (ch4, \<lparr>sk_in = [], sk_eof = eof, sk_out = out\<rparr>))"
    "ch_ran ch4 = [f]" "m_response ch4 = Some rsp1" "\<not> may_fire p (channel_timer ch4)"
    by (rule read_step [OF assms(1,5-11,13-17,12)])
  have r1: "loop_round ?run (ce_tid env) (Some [(EPOLLIN, Some e)]) (ch_loop ch3, Some (ch3, ?s)) = Inr (?el1, Some (ch3, ?s))"
    using idle_round(1) [OF assms(3), of ?run "ce_tid env" e] assms(2) by simp
  have "run_callback env io OnRead (ch3\<lparr>ch_loop := ch_loop ch3\<rparr>, ?s) = Some (Inr (ch4, \<lparr>sk_in = [], sk_eof = eof, sk_out = out\<rparr>))"
    using ch4(1) assms(18) by (simp add: channel_loop_same)
  note q = queued_callback [OF assms(3) this refl]
  have r2: "loop_round ?run (ce_tid env) None (?el1, Some (ch3, ?s)) = Inr (ch_loop ch4, Some (ch4, \<lparr>sk_in = [], sk_eof = eof, sk_out = out\<rparr>))"
    by (rule one_task_round(3) [OF q])
  have stop: "\<not> m_stop_flag ?el1" using assms(4) by (simp add: add_task_def)
  show thesis by (rule that [OF _ ch4(2-4)]) (use r1 r2 stop assms(4) in simp)
qed
section \<open>A call that hears nothing\<close>

text \<open>A timer that finds the call's timeout due runs it once, whatever else is due.\<close>

lemma call_timer_due:
  assumes "call_timer ctl p (channel_timer ch)" and "may_fire p (channel_timer ch)" and "(k, p) \<in> set (m_pending_events (channel_timer ch))"
    and "rd j = (-1, 11)" and "k \<le> fst (get_now_ms clk)"
  obtains tm where "tick rd clk ch = Some (call_timeout ctl (ch\<lparr>ch_loop := (ch_loop ch)\<lparr>m_timer := tm\<rparr>\<rparr>))"
    "call_timer ctl p tm" "\<not> may_fire p tm"
proof -
  let ?tm = "channel_timer ch"
  have inv: "timer_inv ?tm" and dist: "distinct (map snd (m_pending_events ?tm))" and cancel: "\<not> m_is_cancel (tm_heap ?tm p)"
    using assms(1,2) by (auto simp: call_timer_def timer_inv_def may_fire_def)
  obtain now clk1 where now: "get_now_ms clk = (now, clk1)" by fastforce
  obtain tm clk2 where run: "on_timer rd (?tm, clk) = Some (List.map_filter (\<lambda>e. m_task (tm_heap ?tm (snd e)))
      (filter (is_due now ?tm) (m_pending_events ?tm)), tm, clk2)"
    by (rule on_timer_ok [of ?tm rd j clk now clk1, OF inv assms(4) now])
  let ?ch = "ch\<lparr>ch_loop := (ch_loop ch)\<lparr>m_timer := tm\<rparr>\<rparr>"
  have "p \<in> snd ` set (filter (is_due now ?tm) (m_pending_events ?tm))"
    using assms(3,5) now cancel by (force simp: is_due_def)
  then have fold: "fold run_timer_task (List.map_filter (\<lambda>e. m_task (tm_heap ?tm (snd e))) (filter (is_due now ?tm) (m_pending_events ?tm))) x =
      call_timeout ctl x" for x :: "('a, 'b) rpc_channel"
    using fold_timeouts [of "filter (is_due now ?tm) (m_pending_events ?tm)" "\<lambda>q. m_task (tm_heap ?tm q)" p ctl x]
      assms(1) dist by (auto simp: call_timer_def distinct_map_filter)
  note t = call_timer_tick [OF assms(1) run]
  let ?x = "ch\<lparr>ch_controllers := (ch_controllers ch)(ctl := (ch_controllers ch ctl)\<lparr>m_is_cancled := False\<rparr>)\<rparr>"
  have "call_timeout ctl ?x \<noteq> ?x" using call_timeout_fields(4) [of ctl ?x] by auto
  then have "\<not> may_fire p tm" using t(2) [of ?x] fold [of ?x] by auto
  show thesis
    by (rule that [of tm]) (use t(1) \<open>\<not> may_fire p tm\<close> run fold in \<open>simp_all add: tick_def\<close>)
qed

text \<open>C4 (A call that hears nothing times out).
  \<open>CallMethod\<close> on an idle channel gets \<open>EINPROGRESS\<close> and the socket never becomes writable. Whenever the loop next wakes for its
  timer at least the call's timeout after the call, two rounds run the caller's closure exactly once, with the
  controller cancelled and failed with the timeout's code and message; the response is as the caller left it, the connection
  untouched, and the timeout cannot fire again.\<close>

theorem unanswered_call_times_out:
  assumes "idle_channel p ch" and "rc_msg_id (ch_controllers ch ctl) = mid" and "mid \<noteq> []" and "loop_ready env e ch"
    and "m_closure ch = Some (Some f)"
    and "t \<noteq> e" and "handler IN_EVENT (el_events (ch_loop ch) t) = Some OnTimer"
    and "ce_serialize env request = Some data"
    and "CallMethod open_fd urandom env (Some EINPROGRESS) p clk name (Some ctl) request ch = Inr (ch1, nxt)"
    and "io_timer_fd io j = (-1, 11)"
    and "fst (get_now_ms clk) + m_timeout_ms (ch_controllers ch ctl) \<le> fst (get_now_ms (io_clock io))"
  shows "\<exists>ch2. loop (client_run env io) (ce_tid env) [Some [(EPOLLIN, Some t)], None] (ch_loop ch1, Some (ch1, k)) =
      Inr (ch_loop ch2, Some (ch2, k)) \<and>
    ch_ran ch2 = [f] \<and> Failed (ch_controllers ch2 ctl) \<and> IsCanceled (ch_controllers ch2 ctl) \<and>
    m_error_code (ch_controllers ch2 ctl) = ERROR_RPC_CALL_TIMEOUT \<and>
    m_error_info (ch_controllers ch2 ctl) = ''rpc call timeout'' @ int_to_string (m_timeout_ms (ch_controllers ch ctl)) \<and>
    m_response ch2 = m_response ch \<and> m_client ch2 = m_client ch \<and> \<not> may_fire p (channel_timer ch2)"
proof -
  note call = CallMethod_in_progress [OF assms(1-4,8,9)]
  let ?el = "(ch_loop ch1)\<lparr>m_is_looping := True\<rparr>"
  let ?ch = "ch1\<lparr>ch_loop := ?el\<rparr>" and ?el1 = "add_task (Some (Call OnTimer)) False ?el"
  have idle: "m_pending_tasks ?el = []" "\<not> m_stop_flag ?el" using call(3) by (simp_all add: loop_ready_def)
  have way: "ch_ran ch1 = []" "m_closure ch1 = Some (Some f)" "m_response ch1 = m_response ch" "ch_controllers ch1 = ch_controllers ch"
    "call_timer ctl p (channel_timer ?ch)" "may_fire p (channel_timer ?ch)"
    using call(2) assms(5) by (simp_all add: under_way_def)
  obtain tm where tick: "tick (io_timer_fd io) (io_clock io) ?ch = Some (call_timeout ctl (?ch\<lparr>ch_loop := ?el\<lparr>m_timer := tm\<rparr>\<rparr>))"
    "\<not> may_fire p tm"
    by (rule call_timer_due [of ctl p ?ch "fst (get_now_ms clk) + m_timeout_ms (ch_controllers ch ctl)" "io_timer_fd io" j "io_clock io"])
      (use call(6) way(5,6) assms(10,11) in simp_all)
  let ?ch2 = "call_timeout ctl (?ch\<lparr>ch_loop := ?el\<lparr>m_timer := tm\<rparr>\<rparr>)"
  have r1: "loop_round (client_run env io) (ce_tid env) (Some [(EPOLLIN, Some t)]) (?el, Some (ch1, k)) = Inr (?el1, Some (ch1, k))"
    using idle_round(1) [OF idle(1), of "client_run env io" "ce_tid env" t "Some (ch1, k)"] call(7) [OF assms(6)] assms(7) by simp
  have "run_callback env io OnTimer (ch1\<lparr>ch_loop := ?el\<rparr>, k) = Some (Inr (?ch2, k))" using tick(1) by simp
  note q = queued_callback [OF idle(1) this refl]
  have r2: "loop_round (client_run env io) (ce_tid env) None (?el1, Some (ch1, k)) = Inr (ch_loop ?ch2, Some (?ch2, k))"
    by (rule one_task_round(3) [OF q])
  have stop: "\<not> m_stop_flag ?el1" using idle(2) by (simp add: add_task_def)
  have "loop (client_run env io) (ce_tid env) [Some [(EPOLLIN, Some t)], None] (ch_loop ch1, Some (ch1, k)) =
      Inr (ch_loop ?ch2, Some (?ch2, k))"
    using r1 r2 stop idle(2) by (simp add: loop_def)
  moreover have "ch_ran ?ch2 = [f]" "Failed (ch_controllers ?ch2 ctl)" "IsCanceled (ch_controllers ?ch2 ctl)"
    "m_error_code (ch_controllers ?ch2 ctl) = ERROR_RPC_CALL_TIMEOUT"
    "m_error_info (ch_controllers ?ch2 ctl) = ''rpc call timeout'' @ int_to_string (m_timeout_ms (ch_controllers ch ctl))"
    "m_response ?ch2 = m_response ch" "m_client ?ch2 = m_client ch" "\<not> may_fire p (channel_timer ?ch2)"
    using way tick(2) call(4)
    by (simp_all add: call_timeout_def run_closure_def RpcClosure_Run_def on_controller_def controller_set_error_def StartCancel_def
        Failed_def IsCanceled_def)
  ultimately show ?thesis by blast
qed

section \<open>A call that is refused\<close>

text \<open>The lambda of a refused connect: the controller has the reason, and nothing is queued or cancelled.\<close>

lemma refused_step:
  assumes "channel_connect_ready env (Some ECONNREFUSED) nfd q ctl ch1 = ch2" and "m_thread_id (ch_loop ch1) = ce_tid env"
  shows "m_connect_error_code (m_client ch2) = ERROR_PEER_CLOSED" "m_connection (m_client ch2) = m_connection (m_client ch1)"
    "Failed (ch_controllers ch2 ctl)" "m_error_code (ch_controllers ch2 ctl) = ERROR_PEER_CLOSED"
    "m_timeout_ms (ch_controllers ch2 ctl) = m_timeout_ms (ch_controllers ch1 ctl)"
    "ch_ran ch2 = ch_ran ch1" "m_closure ch2 = m_closure ch1" "m_is_init ch2 = m_is_init ch1" "channel_timer ch2 = channel_timer ch1"
    "el_events (ch_loop ch2) = el_events (ch_loop ch1)" "m_pending_tasks (ch_loop ch2) = m_pending_tasks (ch_loop ch1)"
    "m_stop_flag (ch_loop ch2) = m_stop_flag (ch_loop ch1)"
    "rc_msg_id (ch_controllers ch2 ctl2) = rc_msg_id (ch_controllers ch1 ctl2)"
  using assms(2) unfolding assms(1) [symmetric]
  by (simp_all add: channel_connect_ready_def connect_done_def client_defs on_controller_def controller_set_error_def Failed_def
      ERROR_PEER_CLOSED_def Let_def)

text \<open>A call on a channel whose client keeps the error of an earlier connect.\<close>

lemma CallMethod_stale_error:
  assumes "m_is_init ch" and "m_connect_error_code (m_client ch) = code" and "code \<noteq> 0" and "rc_msg_id (ch_controllers ch ctl) \<noteq> []"
    and "ce_serialize env request = Some data"
  shows "\<exists>ch'. CallMethod open_fd urandom env None p clk name (Some ctl) request ch = Inr (ch', Nothing) \<and>
    m_state (m_connection (m_client ch')) = Connected \<and> m_error_code (ch_controllers ch' ctl) = code \<and>
    m_write_dones (m_connection (m_client ch')) = m_write_dones (m_connection (m_client ch)) \<and> ch_ran ch' = ch_ran ch"
proof -
  obtain ev clk1 where ev: "TimerEvent_new (m_timeout_ms (ch_controllers ch ctl)) False (Some (CallTimeout ctl)) clk = (ev, clk1)"
    by fastforce
  obtain tm' clk2 where add: "add_time_event p ((channel_timer ch)\<lparr>tm_heap := (tm_heap (channel_timer ch))(p := ev)\<rparr>, clk1) = (tm', clk2)"
    by fastforce
  show ?thesis
    using assms ev add
    by (cases "ce_getsockname env") (simp_all add: CallMethod_def Let_def client_add_timer_event_def add_timer_event_def client_defs
      connect_done_def on_controller_def controller_set_error_def)
qed

text \<open>C6 (A refused call hides the reason and spoils the channel).
  \<open>CallMethod\<close> gets \<open>EINPROGRESS\<close> and the peer refuses. The controller is told so, but the closure is not run and the
  timeout stays pending: only when it expires is the closure run, once, and then the reason has been overwritten by the code of a
  timeout. The client keeps the error of its connect: every later call on the channel, even one whose connect succeeds at once, reports
  the old refusal on a connected socket and queues no request.\<close>

theorem refused_call_spoils_channel:
  assumes "idle_channel p ch" and "rc_msg_id (ch_controllers ch ctl) = mid" and "mid \<noteq> []" and "loop_ready env e ch"
    and "m_closure ch = Some (Some f)"
    and "t \<noteq> e" and "handler IN_EVENT (el_events (ch_loop ch) t) = Some OnTimer"
    and "ce_serialize env request = Some data"
    and "CallMethod open_fd urandom env (Some EINPROGRESS) p clk name (Some ctl) request ch = Inr (ch1, nxt)"
    and "io_connect io = Some ECONNREFUSED" and "io_timer_fd io j = (-1, 11)"
    and "fst (get_now_ms clk) + m_timeout_ms (ch_controllers ch ctl) \<le> fst (get_now_ms (io_clock io))"
  shows "\<exists>ch2 ch3.
    loop (client_run env io) (ce_tid env) [Some [(EPOLLOUT, Some e)], None] (ch_loop ch1, Some (ch1, k)) =
      Inr (ch_loop ch2, Some (ch2, k)) \<and>
    Failed (ch_controllers ch2 ctl) \<and> m_error_code (ch_controllers ch2 ctl) = ERROR_PEER_CLOSED \<and> ch_ran ch2 = [] \<and>
    loop_rounds (client_run env io) (ce_tid env) [Some [(EPOLLIN, Some t)], None] (ch_loop ch2, Some (ch2, k)) =
      Inr (ch_loop ch3, Some (ch3, k)) \<and>
    ch_ran ch3 = [f] \<and> m_error_code (ch_controllers ch3 ctl) = ERROR_RPC_CALL_TIMEOUT \<and>
    (\<forall>p2 clk2 name2 ctl2 request2. rc_msg_id (ch_controllers ch ctl2) \<noteq> [] \<and> ce_serialize env request2 \<noteq> None \<longrightarrow>
      (\<exists>ch4. CallMethod open_fd urandom env None p2 clk2 name2 (Some ctl2) request2 ch3 = Inr (ch4, Nothing) \<and>
        m_state (m_connection (m_client ch4)) = Connected \<and> m_error_code (ch_controllers ch4 ctl2) = ERROR_PEER_CLOSED \<and>
        m_write_dones (m_connection (m_client ch4)) = m_write_dones (m_connection (m_client ch)) \<and> ch_ran ch4 = [f]))"
proof -
  note call = CallMethod_in_progress [OF assms(1-4,8,9)]
  let ?q = "request_protocol mid name data" and ?el = "(ch_loop ch1)\<lparr>m_is_looping := True\<rparr>" and ?run = "client_run env io"
  let ?ch = "ch1\<lparr>ch_loop := ?el\<rparr>" and ?el1 = "add_task (Some (Call (ConnectReady ?q ctl))) False ?el"
  have idle: "m_pending_tasks ?el = []" "\<not> m_stop_flag ?el" "m_thread_id ?el = ce_tid env"
    using call(3) by (simp_all add: loop_ready_def)
  have way: "ch_ran ch1 = []" "m_closure ch1 = Some (Some f)" "ch_controllers ch1 = ch_controllers ch"
    "call_timer ctl p (channel_timer ch1)" "may_fire p (channel_timer ch1)"
    using call(2) assms(5) by (simp_all add: under_way_def)
  obtain ch2 where ch2: "channel_connect_ready env (Some ECONNREFUSED) (io_socket io) ?q ctl ?ch = ch2" by simp
  note ref = refused_step [OF ch2, simplified, OF idle(3) [simplified]]
  have r1: "loop_round ?run (ce_tid env) (Some [(EPOLLOUT, Some e)]) (?el, Some (ch1, k)) = Inr (?el1, Some (ch1, k))"
    using idle_round(2) [OF idle(1), of ?run "ce_tid env" e "Some (ch1, k)"] call(5) by simp
  have "run_callback env io (ConnectReady ?q ctl) (ch1\<lparr>ch_loop := ?el\<rparr>, k) = Some (Inr (ch2, k))" using ch2 assms(10) by simp
  note q1 = queued_callback [OF idle(1) this refl]
  have r2: "loop_round ?run (ce_tid env) None (?el1, Some (ch1, k)) = Inr (ch_loop ch2, Some (ch2, k))" by (rule one_task_round(3) [OF q1])
  have one: "loop ?run (ce_tid env) [Some [(EPOLLOUT, Some e)], None] (ch_loop ch1, Some (ch1, k)) = Inr (ch_loop ch2, Some (ch2, k))"
    using r1 r2 idle(2) by (simp add: loop_def add_task_def)
  have two: "m_pending_tasks (ch_loop ch2) = []" "\<not> m_stop_flag (ch_loop ch2)"
    "handler IN_EVENT (el_events (ch_loop ch2) t) = Some OnTimer"
    using ref idle call(7) [OF assms(6)] assms(7) by simp_all
  let ?el2 = "add_task (Some (Call OnTimer)) False (ch_loop ch2)"
  obtain tm where tick: "tick (io_timer_fd io) (io_clock io) ch2 = Some (call_timeout ctl (ch2\<lparr>ch_loop := (ch_loop ch2)\<lparr>m_timer := tm\<rparr>\<rparr>))"
    by (rule call_timer_due [of ctl p ch2 "fst (get_now_ms clk) + m_timeout_ms (ch_controllers ch ctl)" "io_timer_fd io" j "io_clock io"])
      (use call(6) way ref assms(11,12) in simp_all)
  let ?ch3 = "call_timeout ctl (ch2\<lparr>ch_loop := (ch_loop ch2)\<lparr>m_timer := tm\<rparr>\<rparr>)"
  have r3: "loop_round ?run (ce_tid env) (Some [(EPOLLIN, Some t)]) (ch_loop ch2, Some (ch2, k)) = Inr (?el2, Some (ch2, k))"
    using idle_round(1) [OF two(1), of ?run "ce_tid env" t "Some (ch2, k)"] two(3) by simp
  have "run_callback env io OnTimer (ch2\<lparr>ch_loop := ch_loop ch2\<rparr>, k) = Some (Inr (?ch3, k))"
    using tick by (simp add: channel_loop_same)
  note q2 = queued_callback [OF two(1) this refl]
  have r4: "loop_round ?run (ce_tid env) None (?el2, Some (ch2, k)) = Inr (ch_loop ?ch3, Some (?ch3, k))" by (rule one_task_round(3) [OF q2])
  have "loop_rounds ?run (ce_tid env) [Some [(EPOLLIN, Some t)], None] (ch_loop ch2, Some (ch2, k)) = Inr (ch_loop ?ch3, Some (?ch3, k))"
    using r3 r4 two(2) by (simp add: add_task_def)
  moreover have ch3: "ch_ran ?ch3 = [f]" "m_error_code (ch_controllers ?ch3 ctl) = ERROR_RPC_CALL_TIMEOUT" "m_is_init ?ch3"
    "m_connect_error_code (m_client ?ch3) = ERROR_PEER_CLOSED" "m_connection (m_client ?ch3) = m_connection (m_client ch)"
    using way ref call(4,8) assms(1)
    by (simp_all add: call_timeout_def run_closure_def RpcClosure_Run_def on_controller_def controller_set_error_def StartCancel_def
        idle_channel_def)
  moreover have "rc_msg_id (ch_controllers ?ch3 c) = rc_msg_id (ch_controllers ch c)" for c
    using ref(13) [of c] way(3)
    by (auto simp: call_timeout_def on_controller_def controller_set_error_def StartCancel_def)
  moreover have "ERROR_PEER_CLOSED \<noteq> 0" by (simp add: ERROR_PEER_CLOSED_def)
  ultimately show ?thesis
    using one ref(3,4,6) way(1) CallMethod_stale_error [OF ch3(3,4)] by fastforce
qed

section \<open>Applying the lemmas\<close>

definition sample_io :: "sock client_io" where
  "sample_io = \<lparr>io_read = sock_read, io_write = sock_write, io_connect = None, io_socket = 11,
     io_timer_fd = (\<lambda>k. if k = 0 then (8, 0) else (-1, 11)), io_clock = \<lparr>clk_reading = (\<lambda>i. (50, 0)), clk_calls = 0\<rparr>\<rparr>"

lemma sample_loop_ready: "loop_ready sample_channel_env 2 sample_channel"
  by (simp add: loop_ready_def sample_channel_env_def sample_channel_def channel_init_def RpcChannel_new_def TcpClient_new_def
      TcpConnection_new_def TcpBuffer_new_def sample_rpc_loop_def EventLoop_new_def init_wakeup_fd_event_def init_timer_def
      Timer_new_def vec_new_def Let_def)

lemma sample_call_in_progress:
  obtains ch1 nxt where "CallMethod 4 ''seed'' sample_channel_env (Some EINPROGRESS) 3 sample_clock name (Some 0) ''order'' sample_channel =
    Inr (ch1, nxt)"
proof (cases "CallMethod 4 ''seed'' sample_channel_env (Some EINPROGRESS) 3 sample_clock name (Some 0) ''order'' sample_channel")
  case (Inl e)
  then show thesis
    using sample_channel_idle
    by (simp add: CallMethod_def Let_def idle_channel_def sample_channel_env_def connect_def case_prod_unfold split: if_splits)
next
  case (Inr x)
  then show thesis using that by (cases x) simp
qed

lemma sample_timer_event: "handler IN_EVENT (el_events (ch_loop sample_channel) 1) = Some OnTimer"
  by (simp add: sample_channel_def channel_init_def RpcChannel_new_def TcpClient_new_def TcpConnection_new_def TcpBuffer_new_def
      sample_rpc_loop_def EventLoop_new_def init_wakeup_fd_event_def init_timer_def Timer_new_def vec_new_def Let_def
      add_epoll_event_def add_to_epoll_def FdEvent_new_def listen_def is_in_current_loop_thread_def)

lemma sample_due: "fst (get_now_ms sample_clock) + m_timeout_ms (ch_controllers sample_channel 0) \<le> fst (get_now_ms (io_clock sample_io))"
  by (simp add: sample_channel_idle(5) set_msg_id_def RpcController_new_def sample_clock_def sample_io_def get_now_ms_def)

lemma unanswered_call_times_out_witness:
  "\<exists>ch1 nxt ch2.
    CallMethod 4 ''seed'' sample_channel_env (Some EINPROGRESS) 3 sample_clock ''Order.make'' (Some 0) ''order'' sample_channel = Inr (ch1, nxt) \<and>
    loop (client_run sample_channel_env sample_io) 1 [Some [(EPOLLIN, Some 1)], None]
      (ch_loop ch1, Some (ch1, \<lparr>sk_in = [], sk_eof = False, sk_out = []\<rparr>)) =
      Inr (ch_loop ch2, Some (ch2, \<lparr>sk_in = [], sk_eof = False, sk_out = []\<rparr>)) \<and>
    ch_ran ch2 = [77] \<and> m_error_code (ch_controllers ch2 0) = ERROR_RPC_CALL_TIMEOUT \<and> m_response ch2 = Some []"
proof -
  obtain ch1 nxt where call: "CallMethod 4 ''seed'' sample_channel_env (Some EINPROGRESS) 3 sample_clock ''Order.make'' (Some 0) ''order''
      sample_channel = Inr (ch1, nxt)"
    by (rule sample_call_in_progress)
  have io: "io_timer_fd sample_io 1 = (-1, 11)" by (simp add: sample_io_def)
  from unanswered_call_times_out [OF sample_channel_idle(1,2) _ sample_loop_ready sample_channel_idle(3) _ sample_timer_event _ call io sample_due,
      of "''order''" "\<lparr>sk_in = [], sk_eof = False, sk_out = []\<rparr>"] call
  show ?thesis by (auto simp: sample_channel_env_def sample_channel_idle(4))
qed

lemma refused_call_spoils_channel_witness:
  "\<exists>ch1 nxt ch2 ch3 ch4.
    CallMethod 4 ''seed'' sample_channel_env (Some EINPROGRESS) 3 sample_clock ''Order.make'' (Some 0) ''order'' sample_channel = Inr (ch1, nxt) \<and>
    loop (client_run sample_channel_env (sample_io\<lparr>io_connect := Some ECONNREFUSED\<rparr>)) 1 [Some [(EPOLLOUT, Some 2)], None]
      (ch_loop ch1, Some (ch1, \<lparr>sk_in = [], sk_eof = False, sk_out = []\<rparr>)) =
      Inr (ch_loop ch2, Some (ch2, \<lparr>sk_in = [], sk_eof = False, sk_out = []\<rparr>)) \<and>
    ch_ran ch2 = [] \<and> m_error_code (ch_controllers ch2 0) = ERROR_PEER_CLOSED \<and>
    ch_ran ch3 = [77] \<and> m_error_code (ch_controllers ch3 0) = ERROR_RPC_CALL_TIMEOUT \<and>
    CallMethod 4 ''seed'' sample_channel_env None 5 sample_clock ''Order.make'' (Some 1) ''order'' ch3 = Inr (ch4, Nothing) \<and>
    m_error_code (ch_controllers ch4 1) = ERROR_PEER_CLOSED \<and> ch_ran ch4 = [77]"
proof -
  obtain ch1 nxt where call: "CallMethod 4 ''seed'' sample_channel_env (Some EINPROGRESS) 3 sample_clock ''Order.make'' (Some 0) ''order''
      sample_channel = Inr (ch1, nxt)"
    by (rule sample_call_in_progress)
  let ?io = "sample_io\<lparr>io_connect := Some ECONNREFUSED\<rparr>"
  have io: "io_connect ?io = Some ECONNREFUSED" "io_timer_fd ?io 1 = (-1, 11)" by (simp_all add: sample_io_def)
  have env: "ce_tid sample_channel_env = 1" "ce_serialize sample_channel_env x = Some x" for x by (simp_all add: sample_channel_env_def)
  have due: "fst (get_now_ms sample_clock) + m_timeout_ms (ch_controllers sample_channel 0) \<le> fst (get_now_ms (io_clock ?io))"
    using sample_due by (simp add: sample_io_def)
  have "''42'' \<noteq> []" "1 \<noteq> (2 :: nat)" by simp_all
  note spoils = refused_call_spoils_channel [OF sample_channel_idle(1,2) this(1) sample_loop_ready sample_channel_idle(3) this(2)
      sample_timer_event env(2) call io due, of "\<lparr>sk_in = [], sk_eof = False, sk_out = []\<rparr>", unfolded env(1)]
  obtain ch2 ch3 where r: "loop (client_run sample_channel_env ?io) 1 [Some [(EPOLLOUT, Some 2)], None]
      (ch_loop ch1, Some (ch1, \<lparr>sk_in = [], sk_eof = False, sk_out = []\<rparr>)) =
      Inr (ch_loop ch2, Some (ch2, \<lparr>sk_in = [], sk_eof = False, sk_out = []\<rparr>))"
    "ch_ran ch2 = []" "m_error_code (ch_controllers ch2 0) = ERROR_PEER_CLOSED"
    "ch_ran ch3 = [77]" "m_error_code (ch_controllers ch3 0) = ERROR_RPC_CALL_TIMEOUT"
    and later: "rc_msg_id (ch_controllers sample_channel 1) \<noteq> [] \<and> ce_serialize sample_channel_env ''order'' \<noteq> None \<longrightarrow>
      (\<exists>ch4. CallMethod 4 ''seed'' sample_channel_env None 5 sample_clock ''Order.make'' (Some 1) ''order'' ch3 = Inr (ch4, Nothing) \<and>
        m_error_code (ch_controllers ch4 1) = ERROR_PEER_CLOSED \<and> ch_ran ch4 = [77])"
    using spoils by (elim exE conjE) (rule that, assumption+, blast)
  have "rc_msg_id (ch_controllers sample_channel 1) \<noteq> []" using sample_channel_idle(2) [of 1] by simp
  then obtain ch4 where "CallMethod 4 ''seed'' sample_channel_env None 5 sample_clock ''Order.make'' (Some 1) ''order'' ch3 = Inr (ch4, Nothing)"
    "m_error_code (ch_controllers ch4 1) = ERROR_PEER_CLOSED" "ch_ran ch4 = [77]"
    using later env(2) [of "''order''"] by auto
  with call r show ?thesis by blast
qed

end
