(* ===== verification/Fragmentation.thy ===== *)
theory Fragmentation
  imports Tcp_Connection
begin

text \<open>
  TCP delivers a stream, not messages: how the bytes of a client's requests are cut into reads is up
  to the network. This theory runs \<open>on_read\<close> of a server's connection
  (\<open>src/net/tcp/tcp_connection.cc\<close>, with the decoder of \<open>src/net/coder/protobuf_coder.cc\<close>) over
  any sequence of reads.

  The lemmas show that the cuts do not matter as long as none falls inside the length field of a
  frame and no frame holds a second start byte; and what happens when the first cut does fall there.
\<close>

section \<open>A sequence of reads\<close>

text \<open>One \<open>on_read\<close> for each fragment, with the socket empty in between.\<close>

fun feed ::
  "('cb, 'd, 'm, 'req, 'rsp) conn_env \<Rightarrow> int \<Rightarrow> string list \<Rightarrow> ('cb, 'd) conn_loop \<Rightarrow> ('cb, 'd) conn_loop res option" where
  "feed env tid [] s = Some (Inr s)"
| "feed env tid (ds # dss) s = bindO (on_read env tid (one_read ds) 0 s) (\<lambda>(s', _). feed env tid dss s')"

section \<open>Where a stream is cut\<close>

text \<open>The position \<open>n\<close> of the stream of frames falls behind the start byte of a frame and before the end of its length field.\<close>

definition in_header :: "protobuf_protocol list \<Rightarrow> nat \<Rightarrow> bool" where
  "in_header ms n \<longleftrightarrow> (\<exists>i<length ms. n \<in> (+) (length (concat (map frame (take i ms)))) ` {2, 3, 4})"

fun clean_cuts :: "protobuf_protocol list \<Rightarrow> nat \<Rightarrow> string list \<Rightarrow> bool" where
  "clean_cuts ms n [] \<longleftrightarrow> True"
| "clean_cuts ms n (ds # dss) \<longleftrightarrow> \<not> in_header ms (n + length ds) \<and> clean_cuts ms (n + length ds) dss"

definition quiet :: "protobuf_protocol \<Rightarrow> bool" where
  "quiet m \<longleftrightarrow> s_start \<notin> set (tl (frame m))"

lemma in_header_drop:
  assumes "\<not> in_header ms (length (concat (map frame (take k ms))) + n)"
  shows "\<not> in_header (drop k ms) n"
proof
  assume "in_header (drop k ms) n"
  then obtain i j where i: "i < length (drop k ms)" "j \<in> {2, 3, 4 :: nat}" "n = length (concat (map frame (take i (drop k ms)))) + j"
    unfolding in_header_def by blast
  have "concat (map frame (take (k + i) ms)) = concat (map frame (take k ms)) @ concat (map frame (take i (drop k ms)))"
    by (simp add: take_add)
  then have "length (concat (map frame (take k ms))) + n = length (concat (map frame (take (k + i) ms))) + j"
    using i(3) by simp
  moreover have "k + i < length ms" using i(1) by simp
  ultimately show False using assms i(2) unfolding in_header_def by (metis imageI)
qed

lemma clean_cuts_drop:
  "clean_cuts ms (length (concat (map frame (take k ms))) + n) dss \<Longrightarrow> clean_cuts (drop k ms) n dss"
  by (induction dss arbitrary: n) (auto simp: add.assoc in_header_drop)

text \<open>A prefix of the stream is some whole frames and a part of the next.\<close>

lemma stream_prefix:
  assumes "x @ y = concat (map frame ms)"
  obtains k r where "k \<le> length ms" "x = concat (map frame (take k ms)) @ r" "r @ y = concat (map frame (drop k ms))"
    "r = [] \<or> (\<exists>m t. drop k ms = m # t \<and> length r < length (frame m) \<and> r = take (length r) (frame m))"
proof -
  have "\<exists>k r. k \<le> length ms \<and> x = concat (map frame (take k ms)) @ r \<and> r @ y = concat (map frame (drop k ms)) \<and>
    (r = [] \<or> (\<exists>m t. drop k ms = m # t \<and> length r < length (frame m) \<and> r = take (length r) (frame m)))"
    using assms
  proof (induction ms arbitrary: x)
    case (Cons m ms)
    show ?case
    proof (cases "length (frame m) \<le> length x")
      case True
      define x' where "x' = drop (length (frame m)) x"
      have "take (length (frame m)) x = frame m"
        using arg_cong [OF Cons.prems, of "take (length (frame m))"] True by simp
      then have x: "x = frame m @ x'" by (metis append_take_drop_id x'_def)
      then have "x' @ y = concat (map frame ms)" using Cons.prems by simp
      then obtain k r where k: "k \<le> length ms" "x' = concat (map frame (take k ms)) @ r" "r @ y = concat (map frame (drop k ms))"
        "r = [] \<or> (\<exists>m t. drop k ms = m # t \<and> length r < length (frame m) \<and> r = take (length r) (frame m))"
        using Cons.IH by blast
      then show ?thesis using x by (intro exI [of _ "Suc k"] exI [of _ r]) simp
    next
      case False
      then have "x = take (length x) (frame m)"
        using arg_cong [OF Cons.prems, of "take (length x)"] by simp
      then show ?thesis using Cons.prems False by (intro exI [of _ 0] exI [of _ x]) auto
    qed
  qed simp
  then show thesis using that by blast
qed

text \<open>Such a part is left for later, unless the cut is in the length field.\<close>

lemma partial_awaits:
  assumes "wire_ok m" and "quiet m" and "r = take (length r) (frame m)" and "length r < length (frame m)"
    and "length r \<notin> {2, 3, 4}" and "length (frame m) \<le> buf_limit"
  shows "awaits r"
proof (cases "length r < 2")
  case True
  then have "butlast r = []" by (cases r rule: rev_cases) auto
  then show ?thesis by (simp add: awaits_def)
next
  case False
  then have five: "5 \<le> length r" using assms(5) by (simp add: eval_nat_numeral)
  have sz: "sized m" using assms(1) by (simp add: wire_ok_def)
  have "frame m = s_start # tl (frame m)" using arg_cong [OF frame_split [OF sz], of hd] frame_nonempty [of m] by (cases "frame m") auto
  then have hd: "hd r = s_start" "s_start \<notin> set (tl r)"
  proof -
    obtain t where t: "frame m = s_start # t" "s_start \<notin> set t"
      using assms(2) \<open>frame m = s_start # tl (frame m)\<close> unfolding quiet_def by (metis list.sel(3))
    obtain n where n: "length r = Suc n" using five by (cases "length r") auto
    have "r = s_start # take n t" using assms(3) unfolding t(1) n by simp
    then show "hd r = s_start" "s_start \<notin> set (tl r)" using t(2) by (auto dest: in_set_takeD)
  qed
  have "get_int32_from_netbyte (frame m) 1 = Inr (int (length (frame m)))"
    by (rule get_int32_at [of _ "[s_start]"])
      (subst frame_split [OF sz], simp, use assms(6) in \<open>simp_all add: in_i32_def buf_limit_def\<close>)
  moreover have "frame m = r @ drop (length r) (frame m)" using append_take_drop_id [of "length r" "frame m"] assms(3) by simp
  ultimately have "get_int32_from_netbyte r 1 = Inr (int (length (frame m)))"
    using get_int32_shift [OF five, of "[]" "drop (length r) (frame m)"] by simp
  then show ?thesis using five hd assms(4,6) by (auto simp: awaits_def dest: in_set_butlastD)
qed

section \<open>Cuts that do not matter\<close>

definition serving :: "int \<Rightarrow> ipv4_net_addr \<Rightarrow> ipv4_net_addr \<Rightarrow> ('cb, 'd) conn_loop \<Rightarrow> bool" where
  "serving tid l q = (\<lambda>(c, el). m_state c = Connected \<and> m_connection_type c = TcpConnectionByServer \<and>
     roomy (m_in_buffer c) \<and> buf_tight (m_out_buffer c) \<and> conn_local_addr c = Some l \<and> conn_peer_addr c = Some q \<and>
     loop_inv el \<and> m_thread_id el = tid)"

text \<open>Compaction leaves two thirds of the vector for what is unfinished and what comes next.\<close>

lemma room_for:
  assumes "roomy b" and "3 * (length (content b) + n) < 2 * length (m_buffer b)"
  shows "int n < can_write_bytes_num b"
proof -
  have "m_write_index b = m_read_index b + int (length (content b))"
    using content_length [OF roomyE(2) [OF assms(1)]] by (simp add: can_read_bytes_num_def)
  moreover have "3 * m_read_index b \<le> int (length (m_buffer b))"
    using roomyE(1) [OF assms(1)] by (auto simp: buf_tight_def)
  moreover have "3 * (int (length (content b)) + int n) < 2 * int (length (m_buffer b))"
    using assms(2) unfolding of_nat_less_iff [where 'a = int, symmetric] by simp
  ultimately show ?thesis using roomyE(4) [OF assms(1)] by simp
qed

text \<open>One fragment: the messages it completes are answered, the rest is kept.\<close>

lemma feed_one:
  assumes "serving tid l q (c, el)" and "content (m_in_buffer c) @ ds = concat (map frame ms) @ r" and "awaits r"
    and "list_all wire_ok ms" and "list_all (\<lambda>m. sized (answer env c (decoded m))) ms"
    and "length (content (m_out_buffer c)) + length (concat (map (\<lambda>m. frame (answer env c (decoded m))) ms)) \<le> buf_limit"
    and "3 * (length (content (m_in_buffer c)) + length ds) < 2 * length (m_buffer (m_in_buffer c))"
  obtains in_b out_b el' where "on_read env tid (one_read ds) 0 (c, el) = Some (Inr ((c\<lparr>m_in_buffer := in_b, m_out_buffer := out_b\<rparr>, el'), 1))"
    "serving tid l q (c\<lparr>m_in_buffer := in_b, m_out_buffer := out_b\<rparr>, el')" "content in_b = r"
    "length (m_buffer in_b) = length (m_buffer (m_in_buffer c))"
    "content out_b = content (m_out_buffer c) @ concat (map (\<lambda>m. frame (answer env c (decoded m))) ms)"
proof -
  have c: "m_state c = Connected" "m_connection_type c = TcpConnectionByServer" "roomy (m_in_buffer c)" "buf_tight (m_out_buffer c)"
    "conn_local_addr c = Some l" "conn_peer_addr c = Some q" "loop_inv el" "m_thread_id el = tid"
    using assms(1) by (simp_all add: serving_def)
  have room: "int (length ds) < can_write_bytes_num (m_in_buffer c)" by (rule room_for [OF c(3) assms(7)])
  then have rd: "one_read ds 0 (can_write_bytes_num (m_in_buffer c)) = (ReadData ds, 1)" by (simp add: one_read_def)
  obtain in_b out_b el' where r:
    "on_read env tid (one_read ds) 0 (c, el) = Some (Inr ((c\<lparr>m_in_buffer := in_b, m_out_buffer := out_b\<rparr>, el'), 1))"
    "roomy in_b" "content in_b = r" "buf_tight out_b"
    "content out_b = content (m_out_buffer c) @ concat (map (\<lambda>m. frame (answer env c (decoded m))) ms)"
    "loop_inv el'" "length (m_buffer in_b) = length (m_buffer (m_in_buffer c))" "m_thread_id el' = tid"
    by (rule on_read_server [of c l q "one_read ds" 0 ds 1 ms r env el tid, OF c(1-6) rd room assms(2,4,3,5,6) c(7,8)])
  show thesis using r c by (intro that [of out_b in_b el']) (simp_all add: serving_def)
qed

text \<open>Messages that survive any clean cut.\<close>

definition sendable :: "protobuf_protocol \<Rightarrow> bool" where
  "sendable m \<longleftrightarrow> wire_ok m \<and> quiet m \<and> length (frame m) \<le> buf_limit"

lemma next_cut:
  assumes "r0 @ concat (ds # dss) = concat (map frame ms)" and "list_all sendable ms" and "clean_cuts ms (length r0) (ds # dss)"
  obtains k r where "r0 @ ds = concat (map frame (take k ms)) @ r" "r @ concat dss = concat (map frame (drop k ms))"
    "awaits r" "clean_cuts (drop k ms) (length r) dss" "\<forall>m t. drop k ms = m # t \<longrightarrow> length r < length (frame m)"
proof -
  have "(r0 @ ds) @ concat dss = concat (map frame ms)" using assms(1) by simp
  then obtain k r where k: "r0 @ ds = concat (map frame (take k ms)) @ r" "r @ concat dss = concat (map frame (drop k ms))"
    "r = [] \<or> (\<exists>m t. drop k ms = m # t \<and> length r < length (frame m) \<and> r = take (length r) (frame m))"
    by (rule stream_prefix)
  have len: "length r0 + length ds = length (concat (map frame (take k ms))) + length r"
    using arg_cong [OF k(1), of length] by simp
  have cuts: "\<not> in_header (drop k ms) (length r)" "clean_cuts (drop k ms) (length r) dss"
    using assms(3) in_header_drop [of ms k "length r"] clean_cuts_drop [of ms k "length r" dss] by (simp_all add: len)
  have "awaits r \<and> (\<forall>m t. drop k ms = m # t \<longrightarrow> length r < length (frame m))"
    using k(3)
  proof
    assume "\<exists>m t. drop k ms = m # t \<and> length r < length (frame m) \<and> r = take (length r) (frame m)"
    then obtain m t where m: "drop k ms = m # t" "length r < length (frame m)" "r = take (length r) (frame m)" by blast
    have "m \<in> set ms" using m(1) by (metis in_set_dropD list.set_intros(1))
    then have "sendable m" using assms(2) by (simp add: list_all_iff)
    moreover have "length r \<notin> {2, 3, 4}" using cuts(1) m(1) unfolding in_header_def by force
    ultimately show ?thesis using m partial_awaits [of m r] by (simp add: sendable_def)
  qed (use frame_nonempty in \<open>auto simp: awaits_def\<close>)
  then show thesis using that [OF k(1,2)] cuts(2) by blast
qed

definition fits :: "nat \<Rightarrow> protobuf_protocol list \<Rightarrow> string list \<Rightarrow> bool" where
  "fits n ms dss \<longleftrightarrow> (\<forall>m\<in>set ms. \<forall>ds\<in>set dss. 3 * (length (frame m) + length ds) \<le> 2 * n)"

lemma fits_first:
  assumes "fits n ms (ds # dss)" and "r0 @ concat (ds # dss) = concat (map frame ms)" and "ds \<noteq> []"
    and "\<forall>m t. ms = m # t \<longrightarrow> length r0 < length (frame m)"
  shows "3 * (length r0 + length ds) < 2 * n"
proof (cases ms)
  case (Cons m t)
  then have "length r0 < length (frame m)" "3 * (length (frame m) + length ds) \<le> 2 * n"
    using assms by (simp_all add: fits_def)
  then show ?thesis by simp
qed (use assms in simp)

lemma fits_rest: "fits n ms (ds # dss) \<Longrightarrow> fits n (drop k ms) dss"
  by (auto simp: fits_def dest: in_set_dropD)

text \<open>All of them, by induction on the fragments, with the unfinished part of the first message in the in buffer.\<close>

lemma feed_all:
  assumes "serving tid l q (c, el)" and "content (m_in_buffer c) @ concat dss = concat (map frame ms)"
    and "\<forall>m t. ms = m # t \<longrightarrow> length (content (m_in_buffer c)) < length (frame m)"
    and "clean_cuts ms (length (content (m_in_buffer c))) dss" and "[] \<notin> set dss"
    and "fits (length (m_buffer (m_in_buffer c))) ms dss" and "list_all sendable ms"
    and "list_all (\<lambda>m. sized (answer env c (decoded m))) ms"
    and "length (content (m_out_buffer c)) + length (concat (map (\<lambda>m. frame (answer env c (decoded m))) ms)) \<le> buf_limit"
  shows "\<exists>in_b out_b el'. feed env tid dss (c, el) = Some (Inr (c\<lparr>m_in_buffer := in_b, m_out_buffer := out_b\<rparr>, el')) \<and>
      serving tid l q (c\<lparr>m_in_buffer := in_b, m_out_buffer := out_b\<rparr>, el') \<and> content in_b = [] \<and>
      content out_b = content (m_out_buffer c) @ concat (map (\<lambda>m. frame (answer env c (decoded m))) ms)"
  using assms
proof (induction dss arbitrary: c el ms)
  case Nil
  then have "ms = []" by (cases ms) auto
  then show ?case
    using Nil.prems(1,2) by (intro exI [of _ "m_in_buffer c"] exI [of _ "m_out_buffer c"] exI [of _ el]) simp
next
  case (Cons ds dss)
  let ?ans = "\<lambda>ms. concat (map (\<lambda>m. frame (answer env c (decoded m))) ms)"
  obtain k r where k: "content (m_in_buffer c) @ ds = concat (map frame (take k ms)) @ r"
    "r @ concat dss = concat (map frame (drop k ms))" "awaits r" "clean_cuts (drop k ms) (length r) dss"
    "\<forall>m t. drop k ms = m # t \<longrightarrow> length r < length (frame m)"
    by (rule next_cut [OF Cons.prems(2,7,4)])
  have ms: "list_all wire_ok (take k ms)" "list_all (\<lambda>m. sized (answer env c (decoded m))) (take k ms)"
    "list_all sendable (drop k ms)" "list_all (\<lambda>m. sized (answer env c (decoded m))) (drop k ms)"
    using Cons.prems(7,8) by (auto simp: list_all_iff sendable_def dest: in_set_takeD in_set_dropD)
  have split: "?ans ms = ?ans (take k ms) @ ?ans (drop k ms)"
    by (metis append_take_drop_id concat_append map_append)
  have lim: "length (content (m_out_buffer c)) + length (?ans (take k ms)) \<le> buf_limit"
    using Cons.prems(9) unfolding split by simp
  have room: "3 * (length (content (m_in_buffer c)) + length ds) < 2 * length (m_buffer (m_in_buffer c))"
    by (rule fits_first [OF Cons.prems(6,2) _ Cons.prems(3)]) (use Cons.prems(5) in auto)
  obtain in_b out_b el1 where one:
    "on_read env tid (one_read ds) 0 (c, el) = Some (Inr ((c\<lparr>m_in_buffer := in_b, m_out_buffer := out_b\<rparr>, el1), 1))"
    "serving tid l q (c\<lparr>m_in_buffer := in_b, m_out_buffer := out_b\<rparr>, el1)" "content in_b = r"
    "length (m_buffer in_b) = length (m_buffer (m_in_buffer c))"
    "content out_b = content (m_out_buffer c) @ ?ans (take k ms)"
    by (rule feed_one [of tid l q c el ds "take k ms" r env, OF Cons.prems(1) k(1,3) ms(1,2) lim room])
  let ?c = "c\<lparr>m_in_buffer := in_b, m_out_buffer := out_b\<rparr>"
  have same: "answer env ?c = answer env c" by (simp add: answer_def [abs_def])
  have "\<exists>in_b2 out_b2 el'. feed env tid dss (?c, el1) = Some (Inr (?c\<lparr>m_in_buffer := in_b2, m_out_buffer := out_b2\<rparr>, el')) \<and>
      serving tid l q (?c\<lparr>m_in_buffer := in_b2, m_out_buffer := out_b2\<rparr>, el') \<and> content in_b2 = [] \<and>
      content out_b2 = content (m_out_buffer ?c) @ concat (map (\<lambda>m. frame (answer env ?c (decoded m))) (drop k ms))"
    by (rule Cons.IH [of ?c el1 "drop k ms"])
      (use one k Cons.prems(5,9) fits_rest [OF Cons.prems(6)] ms split in \<open>simp_all add: same\<close>)
  then show ?case unfolding same split using one(1,5) by auto
qed

text \<open>C3 (The cuts of the stream do not matter).
  A server's connection with an empty in buffer receives the frames of well-formed requests, each without a second start byte,
  in any number of reads: cut anywhere, inside a frame or across several, but not inside a length field, and small enough for
  the buffer. Then every \<open>on_read\<close> returns, and at the end the out buffer has gained exactly one answer per request, in order,
  just as if each request had come alone; nothing is left unread.\<close>

theorem fragmentation_does_not_matter:
  assumes "serving tid l q (c, el)" and "content (m_in_buffer c) = []" and "concat dss = concat (map frame ms)"
    and "clean_cuts ms 0 dss" and "[] \<notin> set dss" and "fits (length (m_buffer (m_in_buffer c))) ms dss" and "list_all sendable ms"
    and "list_all (\<lambda>m. sized (answer env c (decoded m))) ms"
    and "length (content (m_out_buffer c)) + length (concat (map (\<lambda>m. frame (answer env c (decoded m))) ms)) \<le> buf_limit"
  shows "\<exists>c' el'. feed env tid dss (c, el) = Some (Inr (c', el')) \<and> serving tid l q (c', el') \<and> content (m_in_buffer c') = [] \<and>
    content (m_out_buffer c') = content (m_out_buffer c) @ concat (map (\<lambda>m. frame (answer env c (decoded m))) ms)"
proof -
  have "\<exists>in_b out_b el'. feed env tid dss (c, el) = Some (Inr (c\<lparr>m_in_buffer := in_b, m_out_buffer := out_b\<rparr>, el')) \<and>
      serving tid l q (c\<lparr>m_in_buffer := in_b, m_out_buffer := out_b\<rparr>, el') \<and> content in_b = [] \<and>
      content out_b = content (m_out_buffer c) @ concat (map (\<lambda>m. frame (answer env c (decoded m))) ms)"
    by (rule feed_all [OF assms(1)]) (use assms frame_nonempty in simp_all)
  then show ?thesis by fastforce
qed

definition quiet_request :: protobuf_protocol where
  "quiet_request = sample_request\<lparr>m_msg_id := ''123''\<rparr>"

lemma put_int32_small: "0 \<le> x \<Longrightarrow> x < 256 \<Longrightarrow> put_int32 x = [nul, nul, nul, char_of (nat x)]"
proof -
  assume x: "0 \<le> x" "x < 256"
  have "unat (word_of_int x :: 32 word) = nat x" using x by (simp add: unat_eq_nat_uint uint_word_of_int_eq take_bit_eq_mod)
  then show ?thesis
    using x unfolding put_int32_big_endian list.map unat_drop_bit_eq by (simp add: drop_bit_eq_div nul_def)
qed

lemma quiet_request: "sendable quiet_request" "length (frame quiet_request) = 43"
proof -
  have f: "frame quiet_request = s_start # put_int32 43 @ put_int32 3 @ ''123'' @ put_int32 10 @ ''Order.make'' @ put_int32 0 @
      put_int32 0 @ ''body'' @ put_int32 1 @ [s_end]"
    by (simp add: frame_def frame_chunks_def pk_len_of_def quiet_request_def sample_request_def with_msg_id_def ProtobufProtocol_new_def
        int_length_def in_i32_def)
  then show len: "length (frame quiet_request) = 43" by simp
  have "wire_ok quiet_request"
    by (auto simp: wire_ok_def sized_def frame_length quiet_request_def sample_request_def with_msg_id_def
        ProtobufProtocol_new_def buf_limit_def in_i32_def nul_def char_of_def)
  moreover have "quiet quiet_request"
    by (simp add: quiet_def f put_int32_small s_start_def s_end_def nul_def char_of_def bit_0)
  ultimately show "sendable quiet_request" using len by (simp add: sendable_def buf_limit_def)
qed

section \<open>A cut in the length field\<close>

text \<open>C24 (A split length field).
  The first read of a new connection of a server delivers only the first two, three or four bytes of the frame of a request.
  The decoder takes the length field for complete: it reads on behind the bytes received, where the vector still
  holds zeros, looks for the end byte in front of the frame, and so reads before the start of the vector.\<close>

theorem split_length_field_faults:
  assumes "m_state c = Connected" and "m_connection_type c = TcpConnectionByServer" and "m_in_buffer c = fresh_buffer n"
    and "5 \<le> n" and "n \<le> 2147483647" and "sized m" and "length (frame m) < 256" and "k \<in> {2, 3, 4}"
  shows "on_read env tid (one_read (take k (frame m))) 0 (c, el) = Some (Inl OutOfBounds)"
proof -
  let ?ds = "s_start # replicate (k - 1) nul" and ?v = "s_start # replicate (n - 1) nul"
  let ?b = "\<lparr>m_read_index = 0, m_write_index = int k, m_size = int n, m_buffer = ?v\<rparr>"
  have ds: "take k (frame m) = ?ds"
    using assms(7,8) by (subst frame_split [OF assms(6)]) (auto simp: put_int32_small eval_nat_numeral)
  have k: "length ?ds = k" "int k < can_write_bytes_num (fresh_buffer n)" "k \<le> n - 1"
    using assms(4,5,8) fresh_buffer(3) [of n] by auto
  have n: "0 < int n div 3" "in_i32 (int n div 3)" "k < n" "n \<le> 2147483647"
    using assms(4,5) k(3) by (auto simp: in_i32_def)
  have "?ds @ replicate (n - k) nul = ?v"
    using k(3) assms(8) by (auto simp flip: replicate_add replicate_Suc)
  then have "mem_write (m_buffer (fresh_buffer n)) 0 ?ds = Inr ?v"
    using k by (simp add: fresh_buffer_def mem_write_def)
  moreover have "adjust_write_index (int k) (fresh_buffer n\<lparr>m_buffer := ?v\<rparr>) = Inr ?b"
    using k(3) n by (simp add: adjust_write_index_def adjust_buffer_def fresh_buffer_def to_size_id in_i32_def Let_def)
  ultimately have "receive ?ds (fresh_buffer n) = Inr ?b"
    using k(1) by (simp add: receive_def fresh_buffer_def)
  then have "read_loop (one_read ?ds) (0, fresh_buffer n) = Some (Inr (False, 1, ?b))"
    using k fresh_buffer(1) [of n] assms(4,5) by (subst read_loop.simps) (simp add: read_round_def make_room_roomy one_read_def)
  moreover have "ProtobufCoder_decode [] ?b = Some (Inl OutOfBounds)"
  proof -
    have "get_int32_from_netbyte ?v 1 = Inr 0"
      by (rule get_put_int32) (use assms(4) in \<open>simp_all add: in_i32_def put_int32_small eval_nat_numeral nul_def\<close>)
    then have "scan_frame ?v (int k) 0 = Inl OutOfBounds"
      using assms(4,8) by (subst scan_frame.simps) (auto simp: mem_at_def in_i32_def)
    then show ?thesis by (subst ProtobufCoder_decode.simps) (simp add: decode_step_def Let_def)
  qed
  ultimately show ?thesis using assms(1-3) by (simp add: ds on_read_def excute_def excute_server_def)
qed

lemma quiet_reply: "answer sample_env (sample_conn TcpConnectionByServer) (decoded quiet_request) =
    ProtobufProtocol_new\<lparr>m_msg_id := ''123'', m_method_name := ''Order.make'', m_pb_data := ''body123''\<rparr>"
  by (simp add: answer_def sample_env_def sample_conn_def quiet_request_def sample_request_def decoded_def encoded_def Let_def
      with_msg_id_def dispatcher_def parse_service_full_name_def register_service_def echo_service_def
      controller_defs ProtobufProtocol_new_def)

lemma fragmentation_does_not_matter_witness:
  "\<exists>c' el'. feed sample_env 1 [take 20 (frame quiet_request), drop 20 (frame quiet_request)]
      (sample_conn TcpConnectionByServer, the_sample_loop) = Some (Inr (c', el')) \<and>
    content (m_out_buffer c') = frame (ProtobufProtocol_new\<lparr>m_msg_id := ''123'', m_method_name := ''Order.make'', m_pb_data := ''body123''\<rparr>)"
proof -
  let ?c = "sample_conn TcpConnectionByServer" and ?f = "frame quiet_request"
  have c: "m_in_buffer ?c = fresh_buffer 128" "m_out_buffer ?c = fresh_buffer 128" by (simp_all add: sample_conn_def)
  have "serving 1 sample_addr sample_addr (?c, the_sample_loop)"
    using fresh_buffer(1) [of 128] the_sample_loop_inv the_sample_loop_fields(1) by (simp add: serving_def c roomy_def) (simp add: sample_conn_def)
  moreover have "clean_cuts [quiet_request] 0 [take 20 ?f, drop 20 ?f]" "[] \<notin> set [take 20 ?f, drop 20 ?f]"
    "fits (length (m_buffer (m_in_buffer ?c))) [quiet_request] [take 20 ?f, drop 20 ?f]"
    using quiet_request(2) by (auto simp: in_header_def fits_def c fresh_buffer)
  moreover have "sized (answer sample_env ?c (decoded quiet_request))" "length (frame (answer sample_env ?c (decoded quiet_request))) \<le> buf_limit"
    by (simp_all add: quiet_reply sized_def frame_length with_msg_id_def ProtobufProtocol_new_def buf_limit_def)
  ultimately show ?thesis
    using fragmentation_does_not_matter [of 1 sample_addr sample_addr ?c the_sample_loop "[take 20 ?f, drop 20 ?f]" "[quiet_request]" sample_env]
      quiet_request(1) fresh_buffer [of 128] quiet_reply
    by (auto simp: c)
qed

lemma split_length_field_faults_witness:
  "on_read sample_env 1 (one_read (take 3 (frame sample_request))) 0 (sample_conn TcpConnectionByServer, the_sample_loop) = Some (Inl OutOfBounds)"
  by (rule split_length_field_faults [where n = 128])
    (use sample_request_wire in \<open>simp_all add: sample_conn_def wire_ok_def\<close>)

end
