(* ===== verification/Log_Config.thy ===== *)
theory Log_Config
  imports Net_Addr
begin

text \<open>
  The configuration \<open>LogConfig\<close> (\<open>src/common/config.cc\<close>, \<open>src/include/common/log_config.h\<close>). The XML
  library is a parameter: how to find the first child of a given name of the document and of an
  element, and the text of an element (\<open>None\<close> for a null pointer).

  The lemmas show that the constructor computes what a declarative description of the required
  paths says, and which configuration the process ends up with.
\<close>

section \<open>Reading a configuration\<close>

record 'n xml =
  xml_load :: bool
  document_child :: "string \<Rightarrow> 'n option"
  element_child :: "'n \<Rightarrow> string \<Rightarrow> 'n option"
  element_text :: "'n \<Rightarrow> string option"

record log_config =
  m_log_level :: string
  m_file_path :: string
  m_file_name :: string
  m_file_max_size :: int
  m_log_sync_inteval :: int
  cfg_ip :: string
  cfg_port :: int

definition get_son_node :: "(string \<Rightarrow> 'n option) \<Rightarrow> string \<Rightarrow> 'n res" where
  "get_son_node father name = (case father name of None \<Rightarrow> Inl (ProcessExit 1) | Some n \<Rightarrow> Inr n)"

text \<open>Assigning a null \<open>char*\<close> to a string, or \<open>atoi\<close> of one, reads through the null pointer.\<close>

definition get_text :: "'n xml \<Rightarrow> 'n \<Rightarrow> string res" where
  "get_text x n = (case element_text x n of None \<Rightarrow> Inl NullDeref | Some s \<Rightarrow> Inr s)"

definition config_nodes :: "'n xml \<Rightarrow> 'n list res" where
  "config_nodes x =
     bindR (get_son_node (document_child x) ''root'') (\<lambda>root_ptr.
     bindR (get_son_node (element_child x root_ptr) ''log'') (\<lambda>root_log_ptr.
     bindR (mapR (get_son_node (element_child x root_log_ptr))
              [''log_level'', ''log_file_path'', ''log_file_name'', ''log_file_max_size'', ''log_file_sync_interval'']) (\<lambda>logs.
     bindR (get_son_node (element_child x root_ptr) ''server'') (\<lambda>root_server_ptr.
     bindR (mapR (get_son_node (element_child x root_server_ptr)) [''ip'', ''port'']) (\<lambda>servers.
     Inr (logs @ servers))))))"

definition LogConfig_new :: "'n xml \<Rightarrow> log_config res" where
  "LogConfig_new x =
     (if \<not> xml_load x then Inl (ProcessExit 1)
      else bindR (config_nodes x) (\<lambda>ns.
           bindR (mapR (get_text x) ns) (\<lambda>ts.
           Inr \<lparr>m_log_level = ts ! 0, m_file_path = ts ! 1, m_file_name = ts ! 2, m_file_max_size = atoi (ts ! 3),
                m_log_sync_inteval = atoi (ts ! 4), cfg_ip = ts ! 5, cfg_port = atoi (ts ! 6)\<rparr>)))"

text \<open>The global pointer: only the first call constructs a configuration.\<close>

definition SET_GLOBAL_CONFIG :: "'n xml \<Rightarrow> log_config option \<Rightarrow> log_config option res" where
  "SET_GLOBAL_CONFIG x g_log_config =
     (case g_log_config of Some c \<Rightarrow> Inr (Some c) | None \<Rightarrow> bindR (LogConfig_new x) (\<lambda>c. Inr (Some c)))"

section \<open>What it reads\<close>

text \<open>The element at the end of a path of names.\<close>

fun at_path :: "'n xml \<Rightarrow> 'n \<Rightarrow> string list \<Rightarrow> 'n option" where
  "at_path x n [] = Some n"
| "at_path x n (name # names) = Option.bind (element_child x n name) (\<lambda>m. at_path x m names)"

definition element_at :: "'n xml \<Rightarrow> string list \<Rightarrow> 'n option" where
  "element_at x names = Option.bind (document_child x (hd names)) (\<lambda>n. at_path x n (tl names))"

definition required_paths :: "string list list" where
  "required_paths =
     [[''root'', ''log'', ''log_level''], [''root'', ''log'', ''log_file_path''], [''root'', ''log'', ''log_file_name''],
      [''root'', ''log'', ''log_file_max_size''], [''root'', ''log'', ''log_file_sync_interval''],
      [''root'', ''server'', ''ip''], [''root'', ''server'', ''port'']]"

definition config_of :: "string list \<Rightarrow> log_config" where
  "config_of ts =
     \<lparr>m_log_level = ts ! 0, m_file_path = ts ! 1, m_file_name = ts ! 2, m_file_max_size = atoi (ts ! 3),
      m_log_sync_inteval = atoi (ts ! 4), cfg_ip = ts ! 5, cfg_port = atoi (ts ! 6)\<rparr>"

lemma get_nodes: "mapR (get_son_node f) ns = (case those (map f ns) of None \<Rightarrow> Inl (ProcessExit 1) | Some ms \<Rightarrow> Inr ms)"
  by (rule mapR_option) (simp add: get_son_node_def)

lemma get_texts: "mapR (get_text x) ns = (case those (map (element_text x) ns) of None \<Rightarrow> Inl NullDeref | Some ts \<Rightarrow> Inr ts)"
  by (rule mapR_option) (simp add: get_text_def)

lemma config_nodes_paths:
  "config_nodes x = (case those (map (element_at x) required_paths) of None \<Rightarrow> Inl (ProcessExit 1) | Some ns \<Rightarrow> Inr ns)"
proof (cases "document_child x ''root''")
  case None
  then show ?thesis by (simp add: config_nodes_def get_son_node_def required_paths_def element_at_def)
next
  case (Some root)
  let ?logs = "[''log_level'', ''log_file_path'', ''log_file_name'', ''log_file_max_size'', ''log_file_sync_interval'']"
  define log_part where "log_part = map (\<lambda>n. at_path x root [''log'', n]) ?logs"
  define server_part where "server_part = map (\<lambda>n. at_path x root [''server'', n]) [''ip'', ''port'']"
  have req: "map (element_at x) required_paths = log_part @ server_part"
    using Some by (simp add: required_paths_def element_at_def log_part_def server_part_def)
  have none: "those (map (\<lambda>n. None) (m # ms)) = None" for m :: string and ms by simp
  have part: "those (map (\<lambda>n. at_path x root [son, n]) (m # ms)) =
      (case element_child x root son of None \<Rightarrow> None | Some e \<Rightarrow> those (map (element_child x e) (m # ms)))" for son m ms
    by (cases "element_child x root son") (simp_all add: bind_split cong: option.case_cong)
  show ?thesis
    unfolding req those_append log_part_def server_part_def part config_nodes_def
    using Some by (simp only: get_nodes get_son_node_def) (simp del: those.simps split: option.split)
qed

definition all_texts :: "'n xml \<Rightarrow> 'n list \<Rightarrow> log_config res" where
  "all_texts x ns =
     (case those (map (element_text x) ns) of None \<Rightarrow> Inl NullDeref | Some ts \<Rightarrow> Inr (config_of ts))"

text \<open>Lemma (The configuration is what the required paths hold).
  Constructing the configuration from a file that can be parsed agrees with looking up seven paths: if an element
  of any of them is missing the process exits with code 1, whatever else is wrong; if all are there but one has no
  text, a null pointer is read; otherwise each field is the text at its path, as a number for the three numeric ones.\<close>

theorem log_config_reads_paths:
  assumes "xml_load x"
  shows "LogConfig_new x =
    (case those (map (element_at x) required_paths) of
       None \<Rightarrow> Inl (ProcessExit 1)
     | Some ns \<Rightarrow> all_texts x ns)"
  using assms unfolding LogConfig_new_def config_nodes_paths get_texts
  by (simp add: all_texts_def config_of_def split: option.split)

datatype element = Element string "string option" "element list"

fun element_name :: "element \<Rightarrow> string" where "element_name (Element n t es) = n"
fun element_sons :: "element \<Rightarrow> element list" where "element_sons (Element n t es) = es"
fun element_content :: "element \<Rightarrow> string option" where "element_content (Element n t es) = t"

definition tree_xml :: "element list \<Rightarrow> element xml" where
  "tree_xml es = \<lparr>xml_load = True, document_child = (\<lambda>n. find (\<lambda>e. element_name e = n) es),
     element_child = (\<lambda>e n. find (\<lambda>e'. element_name e' = n) (element_sons e)), element_text = element_content\<rparr>"

definition sample_xml :: "element xml" where
  "sample_xml = tree_xml [Element ''root'' None
     [Element ''log'' None
       [Element ''log_level'' (Some ''Info'') [], Element ''log_file_path'' (Some ''/tmp/'') [],
        Element ''log_file_name'' (Some ''rpc'') [], Element ''log_file_max_size'' (Some ''1000'') [],
        Element ''log_file_sync_interval'' (Some ''500'') []],
      Element ''server'' None [Element ''ip'' (Some ''127.0.0.1'') [], Element ''port'' (Some ''12347'') []]]]"

lemma log_config_reads_paths_witness:
  "\<exists>ns. those (map (element_at sample_xml) required_paths) = Some ns \<and>
    LogConfig_new sample_xml = all_texts sample_xml ns \<and> element_text sample_xml (ns ! 5) = Some ''127.0.0.1''"
  using log_config_reads_paths [of sample_xml]
  by (simp add: sample_xml_def tree_xml_def required_paths_def element_at_def)

end
