(* ===== verification/Logger.thy ===== *)
theory Logger
  imports Event_Loop Log_Config
begin

text \<open>
  The logger (\<open>src/common/log.cc\<close>, \<open>src/include/common/log.h\<close>): the levels and the line format, the
  \<open>Logger\<close> that collects lines, and the \<open>AsyncLogger\<close> whose thread writes batches of lines to files that
  it changes with the date and the size. The date and the time are arguments, the file system is
  a map from names to contents. What the logger's own code logs is left out.

  The lemmas show which messages are kept, that every batch is written once and in order, how large a
  log file can get, that \<open>sync_loop\<close> hands out the whole history each time while \<open>log\<close> hands out every
  line once, and that the timer event of \<open>sync_loop\<close> goes to a loop nobody keeps.
\<close>

section \<open>Levels\<close>

datatype log_level = Unknown | Debug | Info | Error

fun level_value :: "log_level \<Rightarrow> int" where
  "level_value Unknown = -1"
| "level_value Debug = 1"
| "level_value Info = 2"
| "level_value Error = 3"

lemma level_value_inject [simp]: "level_value a = level_value b \<longleftrightarrow> a = b"
  by (cases a; cases b) simp_all

instantiation log_level :: linorder
begin

definition less_eq_log_level :: "log_level \<Rightarrow> log_level \<Rightarrow> bool" where
  "a \<le> b \<longleftrightarrow> level_value a \<le> level_value b"

definition less_log_level :: "log_level \<Rightarrow> log_level \<Rightarrow> bool" where
  "a < b \<longleftrightarrow> level_value a < level_value b"

instance
  by standard (auto simp: less_eq_log_level_def less_log_level_def)

end

lemmas log_level_order = less_eq_log_level_def less_log_level_def

definition loglevel_to_string :: "log_level \<Rightarrow> string" where
  "loglevel_to_string loglevel =
     (if loglevel = Debug then ''Debug'' else if loglevel = Info then ''Info''
      else if loglevel = Error then ''Error'' else ''Unkown'')"

definition string_to_loglevel :: "string \<Rightarrow> log_level" where
  "string_to_loglevel s =
     (if s = ''Debug'' then Debug else if s = ''Info'' then Info else if s = ''Error'' then Error else Unknown)"

section \<open>Lines\<close>

text \<open>The labels of a line in UTF-8.\<close>

definition cn_year :: string where "cn_year = [CHR 0xE5, CHR 0xB9, CHR 0xB4]"
definition cn_month :: string where "cn_month = [CHR 0xE6, CHR 0x9C, CHR 0x88]"
definition cn_day :: string where "cn_day = [CHR 0xE6, CHR 0x97, CHR 0xA5]"
definition cn_hour :: string where "cn_hour = [CHR 0xE6, CHR 0x97, CHR 0xB6]"
definition cn_minute :: string where "cn_minute = [CHR 0xE5, CHR 0x88, CHR 0x86]"
definition cn_second :: string where "cn_second = [CHR 0xE7, CHR 0xA7, CHR 0x92]"
definition cn_file_name :: string where "cn_file_name = [CHR 0xE6, CHR 0x96, CHR 0x87, CHR 0xE4, CHR 0xBB, CHR 0xB6, CHR 0xE5, CHR 0x90, CHR 0x8D]"
definition cn_process_id :: string where "cn_process_id = [CHR 0xE8, CHR 0xBF, CHR 0x9B, CHR 0xE7, CHR 0xA8, CHR 0x8B, CHR 0xE5, CHR 0x8F, CHR 0xB7]"
definition cn_thread_id :: string where "cn_thread_id = [CHR 0xE7, CHR 0xBA, CHR 0xBF, CHR 0xE7, CHR 0xA8, CHR 0x8B, CHR 0xE5, CHR 0x8F, CHR 0xB7]"

record tm_time =
  tm_year :: int
  tm_mon :: int
  tm_mday :: int
  tm_hour :: int
  tm_min :: int
  tm_sec :: int

definition get_log :: "log_level \<Rightarrow> tm_time \<Rightarrow> int \<Rightarrow> int \<Rightarrow> string \<Rightarrow> int \<Rightarrow> id_cache \<Rightarrow> string \<times> id_cache" where
  "get_log level now getpid gettid file_name file_line ids =
     (let (pid, ids1) = get_pid getpid ids;
          (thread_pid, ids2) = get_thread_id gettid ids1
      in (''['' @ loglevel_to_string level @ '']['' @ int_to_string (tm_year now + 1900) @ cn_year @
          int_to_string (tm_mon now + 1) @ cn_month @ int_to_string (tm_mday now) @ cn_day @
          int_to_string (tm_hour now) @ cn_hour @ int_to_string (tm_min now) @ cn_minute @
          int_to_string (tm_sec now) @ cn_second @ '']['' @ cn_file_name @ '' '' @ file_name @ '':'' @
          int_to_string file_line @ '', '' @ cn_process_id @ '': '' @ int_to_string pid @ '' '' @
          cn_thread_id @ '':'' @ int_to_string thread_pid @ '']'', ids2))"

section \<open>The asynchronous logger\<close>

text \<open>\<open>al_handler\<close> is the name of the open file and \<open>al_files\<close> the contents of the file system.\<close>

record async_logger =
  al_buffer :: "string list list"
  al_file_path :: string
  al_file_name :: string
  al_file_max_size :: int
  al_date :: string
  al_handler :: "string option"
  al_reopen_flag :: bool
  al_number :: int
  al_stop_flag :: bool
  al_files :: "string \<Rightarrow> string"
  al_signals :: nat

definition AsyncLogger_new :: "string \<Rightarrow> string \<Rightarrow> int \<Rightarrow> (string \<Rightarrow> string) \<Rightarrow> async_logger" where
  "AsyncLogger_new file_path file_name file_max_size files =
     \<lparr>al_buffer = [], al_file_path = file_path, al_file_name = file_name, al_file_max_size = file_max_size,
      al_date = [], al_handler = None, al_reopen_flag = False, al_number = 0, al_stop_flag = False,
      al_files = files, al_signals = 0\<rparr>"

definition push_log_buffer :: "string list \<Rightarrow> async_logger \<Rightarrow> async_logger" where
  "push_log_buffer vec al = al\<lparr>al_buffer := al_buffer al @ [vec], al_signals := al_signals al + 1\<rparr>"

definition async_stop :: "async_logger \<Rightarrow> async_logger" where
  "async_stop al = al\<lparr>al_stop_flag := True\<rparr>"

definition batch_text :: "string list \<Rightarrow> string" where
  "batch_text tmp = concat (map (\<lambda>item. item @ [CHR 0x0A]) tmp)"

definition log_prefix :: "string \<Rightarrow> async_logger \<Rightarrow> string" where
  "log_prefix date al = al_file_path al @ al_file_name al @ ''_'' @ date @ ''_log.''"

text \<open>\<open>fopen(name, "a")\<close>: a null handle when the file cannot be opened.\<close>

definition open_file :: "(string \<Rightarrow> bool) \<Rightarrow> string \<Rightarrow> async_logger \<Rightarrow> async_logger" where
  "open_file can_open name al = al\<lparr>al_handler := (if can_open name then Some name else None), al_reopen_flag := False\<rparr>"

definition new_day :: "string \<Rightarrow> async_logger \<Rightarrow> async_logger" where
  "new_day date al =
     (let al1 = (if date \<noteq> al_date al then al\<lparr>al_number := 0, al_reopen_flag := True, al_date := date\<rparr> else al)
      in if al_handler al1 = None then al1\<lparr>al_reopen_flag := True\<rparr> else al1)"

text \<open>\<open>ftell\<close> of a file that is only appended to is its size; on a null handle it faults.\<close>

definition ftell :: "async_logger \<Rightarrow> int res" where
  "ftell al = (case al_handler al of None \<Rightarrow> Inl NullDeref | Some f \<Rightarrow> Inr (int (length (al_files al f))))"

definition write_batch :: "string list \<Rightarrow> async_logger \<Rightarrow> async_logger res" where
  "write_batch tmp al =
     (case al_handler al of
        None \<Rightarrow> Inl NullDeref
      | Some f \<Rightarrow> Inr (al\<lparr>al_files := (al_files al)(f := al_files al f @ batch_text tmp)\<rparr>))"

definition reopen_log :: "(string \<Rightarrow> bool) \<Rightarrow> string \<Rightarrow> async_logger \<Rightarrow> async_logger" where
  "reopen_log can_open date al =
     (if al_reopen_flag al then open_file can_open (log_prefix date al @ int_to_string (al_number al)) al else al)"

definition roll_log :: "(string \<Rightarrow> bool) \<Rightarrow> string \<Rightarrow> async_logger \<Rightarrow> async_logger res" where
  "roll_log can_open date al =
     bindR (ftell al) (\<lambda>pos.
     if pos > al_file_max_size al
     then bindR (chk_i32 (al_number al + 1)) (\<lambda>n.
          Inr ((open_file can_open (log_prefix date al @ int_to_string (al_number al)) al)\<lparr>al_number := n\<rparr>))
     else Inr al)"

text \<open>One round of the thread: it returns (\<open>None\<close>) when the stop flag is set; with an empty queue it waits,
  which changes nothing.\<close>

definition async_round :: "(string \<Rightarrow> bool) \<Rightarrow> string \<Rightarrow> async_logger \<Rightarrow> async_logger option res" where
  "async_round can_open date al =
     (if al_stop_flag al then Inr None
      else if al_buffer al = [] then Inr (Some al)
      else let tmp = hd (al_buffer al);
               al1 = new_day date (al\<lparr>al_buffer := tl (al_buffer al)\<rparr>)
           in bindR (roll_log can_open date (reopen_log can_open date al1)) (\<lambda>al2.
              bindR (write_batch tmp al2) (\<lambda>al3. Inr (Some al3))))"

fun async_rounds :: "(string \<Rightarrow> bool) \<Rightarrow> string list \<Rightarrow> async_logger \<Rightarrow> async_logger res" where
  "async_rounds can_open [] al = Inr al"
| "async_rounds can_open (d # ds) al =
     bindR (async_round can_open d al) (\<lambda>r. case r of None \<Rightarrow> Inr al | Some al' \<Rightarrow> async_rounds can_open ds al')"

section \<open>The logger\<close>

record logger =
  m_set_level :: log_level
  lg_buffer :: "string list"
  m_async_logger :: "async_logger option"
  lg_timer_evnet :: nat
  lg_cout :: "string list"

definition Logger_new :: "log_level \<Rightarrow> logger" where
  "Logger_new level = \<lparr>m_set_level = level, lg_buffer = [], m_async_logger = None, lg_timer_evnet = 0, lg_cout = []\<rparr>"

definition push_log :: "string \<Rightarrow> logger \<Rightarrow> logger" where
  "push_log message lg = lg\<lparr>lg_cout := lg_cout lg @ [message], lg_buffer := lg_buffer lg @ [message]\<rparr>"

text \<open>The macros \<open>DEBUG_LOG\<close>, \<open>INFO_LOG\<close> and \<open>ERROR_LOG\<close>, which differ in the level.\<close>

definition log_at ::
  "log_level \<Rightarrow> tm_time \<Rightarrow> int \<Rightarrow> int \<Rightarrow> string \<Rightarrow> int \<Rightarrow> string \<Rightarrow> logger \<times> id_cache \<Rightarrow> logger \<times> id_cache" where
  "log_at level now getpid gettid file line message = (\<lambda>(lg, ids).
     if m_set_level lg \<le> level
     then let (prefix, ids') = get_log level now getpid gettid file line ids
          in (push_log (prefix @ '' '' @ message) lg, ids')
     else (lg, ids))"

definition to_async :: "string list \<Rightarrow> logger \<Rightarrow> logger res" where
  "to_async tmp_vec lg =
     (if tmp_vec = [] then Inr lg
      else case m_async_logger lg of
             None \<Rightarrow> Inl NullDeref
           | Some al \<Rightarrow> Inr (lg\<lparr>m_async_logger := Some (push_log_buffer tmp_vec al)\<rparr>))"

text \<open>\<open>sync_loop\<close> copies the buffer and swaps it with the copy.\<close>

definition sync_loop :: "logger \<Rightarrow> logger res" where
  "sync_loop lg =
     (let tmp_vec = lg_buffer lg;
          (m_buffer, tmp_vec) = (tmp_vec, lg_buffer lg)
      in to_async tmp_vec (lg\<lparr>lg_buffer := m_buffer\<rparr>))"

text \<open>\<open>log\<close> swaps it with an empty vector.\<close>

definition flush_log :: "logger \<Rightarrow> logger res" where
  "flush_log lg =
     (let tmp_vec = [];
          (tmp_vec, m_buffer) = (lg_buffer lg, tmp_vec)
      in to_async tmp_vec (lg\<lparr>lg_buffer := m_buffer\<rparr>))"

definition logger_stop :: "logger \<Rightarrow> logger res" where
  "logger_stop lg =
     (case m_async_logger lg of None \<Rightarrow> Inl NullDeref
      | Some al \<Rightarrow> Inr (lg\<lparr>m_async_logger := Some (async_stop al)\<rparr>))"

text \<open>\<open>init\<close>: the result also holds the loop that got the timer event, which is a temporary and is destroyed, and the
  thread's current loop afterwards. \<open>p\<close> is the address of the event and \<open>sync_cb\<close> its callback.\<close>

definition logger_init ::
  "log_config \<Rightarrow> (string \<Rightarrow> string) \<Rightarrow> nat \<Rightarrow> 'cb \<Rightarrow> clock \<Rightarrow> 'cb event_loop option \<Rightarrow> 'cb event_loop \<Rightarrow> logger \<Rightarrow>
   logger \<times> 'cb event_loop \<times> 'cb event_loop option" where
  "logger_init cfg files p sync_cb clk slot fresh lg =
     (let al = AsyncLogger_new (m_file_path cfg) (m_file_name cfg) (m_file_max_size cfg) files;
          (e, clk1) = TimerEvent_new (m_log_sync_inteval cfg) True (Some sync_cb) clk;
          (el, slot') = Get_Current_Eventloop slot fresh;
          el1 = el\<lparr>m_timer := (m_timer el)\<lparr>tm_heap := (tm_heap (m_timer el))(p := e)\<rparr>\<rparr>;
          (el2, _) = add_timer_event p (el1, clk1)
      in (lg\<lparr>m_async_logger := Some al, lg_timer_evnet := p\<rparr>, el2, slot'))"

text \<open>The global pointers are null before the configuration and the logger are set up.\<close>

definition INIT_GLOBAL_LOGGER ::
  "log_config option \<Rightarrow> (string \<Rightarrow> string) \<Rightarrow> nat \<Rightarrow> 'cb \<Rightarrow> clock \<Rightarrow> 'cb event_loop option \<Rightarrow> 'cb event_loop \<Rightarrow>
   (logger \<times> 'cb event_loop \<times> 'cb event_loop option) res" where
  "INIT_GLOBAL_LOGGER g_log_config files p sync_cb clk slot fresh =
     (case g_log_config of
        None \<Rightarrow> Inl NullDeref
      | Some cfg \<Rightarrow> Inr (logger_init cfg files p sync_cb clk slot fresh (Logger_new (string_to_loglevel (m_log_level cfg)))))"
section \<open>Which messages are kept\<close>

text \<open>Lemma (The level is a threshold).
  The name of a level is read back as that level. A message is pushed, as one line behind its prefix, exactly if its
  level is at least the one set; a level name that is not known counts as lower than every other, so that
  everything is logged.\<close>

theorem log_level_threshold:
  "string_to_loglevel (loglevel_to_string level) = level \<and>
   lg_buffer (fst (log_at level now getpid gettid file line message (lg, ids))) =
     lg_buffer lg @ (if m_set_level lg \<le> level
       then [fst (get_log level now getpid gettid file line ids) @ '' '' @ message] else []) \<and>
   (s \<notin> {''Debug'', ''Info'', ''Error''} \<longrightarrow> string_to_loglevel s \<le> level)"
  by (cases level)
    (auto simp: loglevel_to_string_def string_to_loglevel_def log_at_def push_log_def log_level_order split: prod.splits)

lemma log_level_threshold_witness:
  "lg_buffer (fst (log_at Debug now 1 2 ''main.cpp'' 7 ''x'' (Logger_new (string_to_loglevel ''Warn''), ids))) \<noteq> [] \<and>
   lg_buffer (fst (log_at Debug now 1 2 ''main.cpp'' 7 ''x'' (Logger_new (string_to_loglevel ''Info''), ids))) = []"
  using log_level_threshold [of Debug now 1 2 "''main.cpp''" 7 "''x''" "Logger_new (string_to_loglevel ''Warn'')" ids "''Warn''"]
    log_level_threshold [of Debug now 1 2 "''main.cpp''" 7 "''x''" "Logger_new (string_to_loglevel ''Info'')" ids]
  by (simp add: Logger_new_def string_to_loglevel_def log_level_order)

section \<open>What is handed to the asynchronous logger\<close>

datatype log_op = PushLog string | SyncLoop | FlushLog

fun log_step :: "log_op \<Rightarrow> logger \<Rightarrow> logger res" where
  "log_step (PushLog m) lg = Inr (push_log m lg)"
| "log_step SyncLoop lg = sync_loop lg"
| "log_step FlushLog lg = flush_log lg"

fun pushed :: "log_op list \<Rightarrow> string list" where
  "pushed [] = []"
| "pushed (PushLog m # ops) = m # pushed ops"
| "pushed (_ # ops) = pushed ops"

text \<open>All lines pushed before each \<open>sync_loop\<close>.\<close>

fun histories :: "string list \<Rightarrow> log_op list \<Rightarrow> string list list" where
  "histories acc [] = []"
| "histories acc (PushLog m # ops) = histories (acc @ [m]) ops"
| "histories acc (SyncLoop # ops) = acc # histories acc ops"
| "histories acc (FlushLog # ops) = histories acc ops"

lemma sync_loop_copy: "sync_loop lg = to_async (lg_buffer lg) lg"
  by (cases lg) (simp add: sync_loop_def)

lemma log_run_sync:
  "m_async_logger lg = Some al \<Longrightarrow> FlushLog \<notin> set ops \<Longrightarrow>
   \<exists>lg' al'. foldR log_step ops lg = Inr lg' \<and> m_async_logger lg' = Some al' \<and>
     lg_buffer lg' = lg_buffer lg @ pushed ops \<and>
     al_buffer al' = al_buffer al @ filter (\<lambda>b. b \<noteq> []) (histories (lg_buffer lg) ops)"
proof (induction ops arbitrary: lg al)
  case (Cons op ops)
  show ?case
  proof (cases op)
    case (PushLog m)
    then show ?thesis using Cons.IH [of "push_log m lg" al] Cons.prems by (auto simp: push_log_def)
  next
    case SyncLoop
    show ?thesis
    proof (cases "lg_buffer lg = []")
      case True
      then show ?thesis using SyncLoop Cons.IH [of lg al] Cons.prems by (auto simp: sync_loop_copy to_async_def)
    next
      case False
      then show ?thesis
        using SyncLoop Cons.IH [of "lg\<lparr>m_async_logger := Some (push_log_buffer (lg_buffer lg) al)\<rparr>" "push_log_buffer (lg_buffer lg) al"]
          Cons.prems
        by (auto simp: sync_loop_copy to_async_def push_log_buffer_def)
    qed
  qed (use Cons.prems in simp)
qed simp

lemma log_run_flush:
  "m_async_logger lg = Some al \<Longrightarrow> SyncLoop \<notin> set ops \<Longrightarrow>
   \<exists>lg' al'. foldR log_step ops lg = Inr lg' \<and> m_async_logger lg' = Some al' \<and>
     concat (al_buffer al') @ lg_buffer lg' = concat (al_buffer al) @ lg_buffer lg @ pushed ops"
proof (induction ops arbitrary: lg al)
  case (Cons op ops)
  show ?case
  proof (cases op)
    case (PushLog m)
    then show ?thesis using Cons.IH [of "push_log m lg" al] Cons.prems by (auto simp: push_log_def)
  next
    case FlushLog
    show ?thesis
    proof (cases "lg_buffer lg = []")
      case True
      then have "flush_log lg = Inr (lg\<lparr>lg_buffer := []\<rparr>)" by (simp add: flush_log_def to_async_def)
      then show ?thesis
        using FlushLog True Cons.IH [of "lg\<lparr>lg_buffer := []\<rparr>" al] Cons.prems by auto
    next
      case False
      let ?lg = "lg\<lparr>lg_buffer := [], m_async_logger := Some (push_log_buffer (lg_buffer lg) al)\<rparr>"
      have "flush_log lg = Inr ?lg" using False Cons.prems(1) by (simp add: flush_log_def to_async_def)
      then show ?thesis
        using FlushLog Cons.IH [of ?lg "push_log_buffer (lg_buffer lg) al"] Cons.prems
        by (auto simp: push_log_buffer_def)
    qed
  qed (use Cons.prems in simp)
qed simp

text \<open>C37 (\<open>sync_loop\<close> hands out everything again).
  However pushes and syncs are interleaved, the buffer keeps every line ever pushed, and each \<open>sync_loop\<close> hands
  all of them to the asynchronous logger once more. With \<open>log\<close> in its place every line is either still in
  the buffer or was handed out exactly once, in order.\<close>

theorem sync_loop_repeats_history:
  assumes "m_async_logger lg = Some al"
  shows "(FlushLog \<notin> set ops \<longrightarrow>
      (\<exists>lg' al'. foldR log_step ops lg = Inr lg' \<and> m_async_logger lg' = Some al' \<and>
        lg_buffer lg' = lg_buffer lg @ pushed ops \<and>
        al_buffer al' = al_buffer al @ filter (\<lambda>b. b \<noteq> []) (histories (lg_buffer lg) ops))) \<and>
    (SyncLoop \<notin> set ops \<longrightarrow>
      (\<exists>lg' al'. foldR log_step ops lg = Inr lg' \<and> m_async_logger lg' = Some al' \<and>
        concat (al_buffer al') @ lg_buffer lg' = concat (al_buffer al) @ lg_buffer lg @ pushed ops))"
  using log_run_sync [OF assms, of ops] log_run_flush [OF assms, of ops] by blast

definition sample_async :: async_logger where
  "sample_async = AsyncLogger_new ''/tmp/'' ''rpc'' 3 (\<lambda>_. [])"

definition sample_logger :: logger where
  "sample_logger = (Logger_new Debug)\<lparr>m_async_logger := Some sample_async\<rparr>"

lemma sync_loop_repeats_history_witness:
  "\<exists>lg' al'. foldR log_step [PushLog ''a'', SyncLoop, PushLog ''b'', SyncLoop] sample_logger = Inr lg' \<and>
    m_async_logger lg' = Some al' \<and> lg_buffer lg' = [''a'', ''b''] \<and> al_buffer al' = [[''a''], [''a'', ''b'']]"
  using sync_loop_repeats_history [of sample_logger sample_async "[PushLog ''a'', SyncLoop, PushLog ''b'', SyncLoop]"]
  by (simp add: sample_logger_def Logger_new_def sample_async_def AsyncLogger_new_def)
section \<open>What is written to the files\<close>

text \<open>The open file is one of the files of the current day.\<close>

definition handler_ok :: "async_logger \<Rightarrow> bool" where
  "handler_ok al \<longleftrightarrow> (\<forall>f. al_handler al = Some f \<longrightarrow> (\<exists>k. f = log_prefix (al_date al) al @ int_to_string k))"

definition add_batch :: "string \<times> string list \<Rightarrow> (string \<Rightarrow> string) \<Rightarrow> string \<Rightarrow> string" where
  "add_batch = (\<lambda>(f, tmp) files. files(f := files f @ batch_text tmp))"

lemma chk_i32_next: "0 \<le> n \<Longrightarrow> n < 2147483647 \<Longrightarrow> chk_i32 (n + 1) = Inr (n + 1)"
  by (simp add: chk_i32_def in_i32_def)

text \<open>What the steps before the writing keep.\<close>

definition same_queue :: "async_logger \<Rightarrow> async_logger \<Rightarrow> bool" where
  "same_queue al al' \<longleftrightarrow> al_buffer al' = al_buffer al \<and> al_stop_flag al' = al_stop_flag al \<and> al_files al' = al_files al \<and>
     al_file_path al' = al_file_path al \<and> al_file_name al' = al_file_name al \<and> al_file_max_size al' = al_file_max_size al"

lemma same_queueD:
  assumes "same_queue al al'"
  shows "al_buffer al' = al_buffer al" "al_stop_flag al' = al_stop_flag al" "al_files al' = al_files al"
    "log_prefix d al' = log_prefix d al" "al_file_max_size al' = al_file_max_size al"
  using assms by (auto simp: same_queue_def log_prefix_def)

lemma same_queue_trans: "same_queue a b \<Longrightarrow> same_queue b c \<Longrightarrow> same_queue a c"
  by (simp add: same_queue_def)

lemma new_day_fields:
  "same_queue al (new_day date al)" "al_date (new_day date al) = date" "al_handler (new_day date al) = al_handler al"
  "al_number (new_day date al) = (if date \<noteq> al_date al then 0 else al_number al)"
  "al_reopen_flag (new_day date al) \<longleftrightarrow> al_reopen_flag al \<or> date \<noteq> al_date al \<or> al_handler al = None"
  by (auto simp: new_day_def Let_def same_queue_def)

lemma reopen_log_fields:
  "same_queue al (reopen_log can_open date al)" "al_date (reopen_log can_open date al) = al_date al"
  "al_number (reopen_log can_open date al) = al_number al" "\<not> al_reopen_flag (reopen_log can_open date al)"
  "al_handler (reopen_log (\<lambda>_. True) date al) =
     (if al_reopen_flag al then Some (log_prefix date al @ int_to_string (al_number al)) else al_handler al)"
  by (auto simp: reopen_log_def open_file_def same_queue_def)

lemma roll_log_fields:
  assumes "al_handler al = Some f" and "0 \<le> al_number al" and "al_number al < 2147483647" and "\<not> al_reopen_flag al"
  obtains al' where "roll_log (\<lambda>_. True) date al = Inr al'" "same_queue al al'" "al_date al' = al_date al"
    "\<not> al_reopen_flag al'"
    "if int (length (al_files al f)) > al_file_max_size al
     then al_handler al' = Some (log_prefix date al @ int_to_string (al_number al)) \<and> al_number al' = al_number al + 1
     else al_handler al' = Some f \<and> al_number al' = al_number al"
  using assms chk_i32_next [of "al_number al"]
  by (cases "int (length (al_files al f)) > al_file_max_size al")
    (auto simp: roll_log_def ftell_def open_file_def same_queue_def)

lemma async_round_writes:
  assumes "\<not> al_stop_flag al" and "al_buffer al = b # bs" and "handler_ok al" and "0 \<le> al_number al" and "al_number al < 2147483647"
  obtains al' k where "async_round (\<lambda>_. True) date al = Inr (Some al')"
    "al_files al' = add_batch (log_prefix date al @ int_to_string k, b) (al_files al)"
    "al_buffer al' = bs" "\<not> al_stop_flag al'" "handler_ok al'" "0 \<le> al_number al'" "al_number al' \<le> al_number al + 1"
    "\<And>d. log_prefix d al' = log_prefix d al"
proof -
  define al0 where "al0 = al\<lparr>al_buffer := bs\<rparr>"
  define al2 where "al2 = reopen_log (\<lambda>_. True) date (new_day date al0)"
  have q: "same_queue al0 al2"
    unfolding al2_def by (rule same_queue_trans [OF new_day_fields(1) reopen_log_fields(1)])
  have pre: "log_prefix d al0 = log_prefix d al" for d by (simp add: al0_def log_prefix_def)
  note pre2 = same_queueD(4) [OF q, unfolded pre]
  have num: "0 \<le> al_number al2" "al_number al2 \<le> al_number al" "al_date al2 = date" "\<not> al_reopen_flag al2"
    using assms(4) by (auto simp: al2_def reopen_log_fields new_day_fields al0_def)
  have "\<exists>k. al_handler al2 = Some (log_prefix date al @ int_to_string k)"
    using assms(3) same_queueD(4) [OF new_day_fields(1) [of al0 date], of date] pre
    by (cases "al_handler al") (auto simp: al2_def reopen_log_fields new_day_fields handler_ok_def al0_def)
  then obtain k where k: "al_handler al2 = Some (log_prefix date al @ int_to_string k)" by blast
  obtain al3 where three: "roll_log (\<lambda>_. True) date al2 = Inr al3" "same_queue al2 al3" "al_date al3 = al_date al2"
    "if int (length (al_files al2 (log_prefix date al @ int_to_string k))) > al_file_max_size al2
     then al_handler al3 = Some (log_prefix date al2 @ int_to_string (al_number al2)) \<and> al_number al3 = al_number al2 + 1
     else al_handler al3 = Some (log_prefix date al @ int_to_string k) \<and> al_number al3 = al_number al2"
    using roll_log_fields [OF k num(1) _ num(4), of date] num(2) assms(5) by auto
  then obtain k3 where k3: "al_handler al3 = Some (log_prefix date al @ int_to_string k3)"
    "0 \<le> al_number al3" "al_number al3 \<le> al_number al + 1"
    using num pre2 by (auto split: if_splits)
  note q3 = same_queue_trans [OF q three(2)]
  define al4 where "al4 = al3\<lparr>al_files := add_batch (log_prefix date al @ int_to_string k3, b) (al_files al)\<rparr>"
  have "write_batch b al3 = Inr al4"
    using k3(1) same_queueD(3) [OF q3] by (simp add: write_batch_def al4_def add_batch_def al0_def)
  then have run: "async_round (\<lambda>_. True) date al = Inr (Some al4)"
    using assms(1,2) three(1) by (simp add: async_round_def Let_def al2_def al0_def)
  have pre4: "log_prefix d al4 = log_prefix d al" for d
    using same_queueD(4) [OF q3] pre by (simp add: al4_def log_prefix_def)
  show thesis
  proof (rule that [OF run])
    show "handler_ok al4" unfolding handler_ok_def pre4 using k3(1) three(3) num(3) by (auto simp: al4_def)
  qed (use k3 pre4 same_queueD(1,2) [OF q3] assms(1) in \<open>simp_all add: al4_def al0_def\<close>)
qed
lemma async_rounds_write:
  "\<not> al_stop_flag al \<Longrightarrow> handler_ok al \<Longrightarrow> 0 \<le> al_number al \<Longrightarrow> al_number al + int (length ds) < 2147483647 \<Longrightarrow>
   length (al_buffer al) = length ds \<Longrightarrow>
   \<exists>al' ks. async_rounds (\<lambda>_. True) ds al = Inr al' \<and> al_buffer al' = [] \<and> length ks = length ds \<and>
     al_files al' = fold add_batch (zip (map (\<lambda>(d, k). log_prefix d al @ int_to_string k) (zip ds ks)) (al_buffer al)) (al_files al)"
proof (induction ds arbitrary: al)
  case Nil
  then show ?case by auto
next
  case (Cons d ds)
  obtain b bs where b: "al_buffer al = b # bs" using Cons.prems(5) by (cases "al_buffer al") auto
  obtain al1 k where one: "async_round (\<lambda>_. True) d al = Inr (Some al1)"
    "al_files al1 = add_batch (log_prefix d al @ int_to_string k, b) (al_files al)"
    "al_buffer al1 = bs" "\<not> al_stop_flag al1" "handler_ok al1" "0 \<le> al_number al1" "al_number al1 \<le> al_number al + 1"
    "\<And>d. log_prefix d al1 = log_prefix d al"
    using async_round_writes [OF Cons.prems(1) b Cons.prems(2,3), of d] Cons.prems(4) by auto
  obtain al' ks where rest: "async_rounds (\<lambda>_. True) ds al1 = Inr al'" "al_buffer al' = []" "length ks = length ds"
    "al_files al' = fold add_batch (zip (map (\<lambda>(d, k). log_prefix d al1 @ int_to_string k) (zip ds ks)) (al_buffer al1)) (al_files al1)"
    using Cons.IH [OF one(4-6)] one(3,7) Cons.prems(4,5) b by auto
  show ?case
    by (rule exI [of _ al'], rule exI [of _ "k # ks"]) (use one rest b in simp)
qed

text \<open>C38 (Every batch is written).
  As long as files can be opened and the logger is not stopped, the thread takes one round per queued batch,
  whatever the dates of the rounds: afterwards the queue is empty, and the only change to the file system is that
  each batch, its lines ended by newlines, was appended once and in order to a file of the day of its round.\<close>

theorem async_logger_drains_queue:
  assumes "al_buffer al = batches" and "length ds = length batches" and "\<not> al_stop_flag al"
    and "handler_ok al" and "0 \<le> al_number al" and "al_number al + int (length ds) < 2147483647"
  shows "\<exists>al' ks. async_rounds (\<lambda>_. True) ds al = Inr al' \<and> al_buffer al' = [] \<and> length ks = length ds \<and>
    al_files al' = fold add_batch (zip (map (\<lambda>(d, k). log_prefix d al @ int_to_string k) (zip ds ks)) batches) (al_files al)"
  using async_rounds_write [of al ds] assms by simp

lemma async_logger_drains_queue_witness:
  "\<exists>al'. async_rounds (\<lambda>_. True) [''20240401''] (push_log_buffer [''a'', ''b''] sample_async) = Inr al' \<and> al_buffer al' = []"
  using async_logger_drains_queue [of "push_log_buffer [''a'', ''b''] sample_async" "[[''a'', ''b'']]" "[''20240401'']"]
  by (auto simp: sample_async_def AsyncLogger_new_def push_log_buffer_def handler_ok_def)

text \<open>Once the stop flag is set nothing is written any more, whatever is still queued.\<close>

lemma stop_drops_queue:
  "async_rounds can_open ds (async_stop al) = Inr (async_stop al)"
  by (cases ds) (simp_all add: async_round_def async_stop_def)

section \<open>How large a file gets\<close>

lemma int_to_string_inject: "0 \<le> a \<Longrightarrow> 0 \<le> b \<Longrightarrow> int_to_string a = int_to_string b \<longleftrightarrow> a = b"
proof
  assume "0 \<le> a" "0 \<le> b" "int_to_string a = int_to_string b"
  then have "dec_val (dec_digits (nat a)) = dec_val (dec_digits (nat b))" by (simp add: int_to_string_def)
  then show "a = b" using dec_digits_ok(2) \<open>0 \<le> a\<close> \<open>0 \<le> b\<close> by simp
qed simp

definition day_file :: "string \<Rightarrow> async_logger \<Rightarrow> int \<Rightarrow> string" where
  "day_file d al k = log_prefix d al @ int_to_string k"

definition day_size :: "string \<Rightarrow> async_logger \<Rightarrow> int \<Rightarrow> int" where
  "day_size d al k = int (length (al_files al (day_file d al k)))"

lemma day_file_inject: "0 \<le> a \<Longrightarrow> 0 \<le> b \<Longrightarrow> day_file d al a = day_file d al b \<longleftrightarrow> a = b"
  by (simp add: day_file_def int_to_string_inject)

text \<open>File \<open>i\<close> of the day is open and the next one to open is \<open>n\<close>: it is the one after \<open>i\<close>, except at the start of
  a day, when the first file is opened a second time.\<close>

definition rolling :: "string \<Rightarrow> int \<Rightarrow> int \<Rightarrow> async_logger \<Rightarrow> bool" where
  "rolling d M B al \<longleftrightarrow>
     (\<exists>i. 0 \<le> i \<and> al_date al = d \<and> \<not> al_reopen_flag al \<and> al_handler al = Some (day_file d al i) \<and> al_file_max_size al = M \<and>
       (al_number al = i + 1 \<or> i = 0 \<and> al_number al = 0 \<and> day_size d al 0 \<le> M + B) \<and>
       (\<forall>k>i. day_size d al k = 0) \<and> day_size d al 0 \<le> M + 2 * B \<and> (\<forall>k>0. day_size d al k \<le> M + B))"

lemma write_batch_fields:
  assumes "al_handler al = Some f"
  obtains al' where "write_batch b al = Inr al'" "al_files al' = (al_files al)(f := al_files al f @ batch_text b)"
    "al_handler al' = Some f" "al_date al' = al_date al" "al_reopen_flag al' = al_reopen_flag al" "al_number al' = al_number al"
    "al_buffer al' = al_buffer al" "al_stop_flag al' = al_stop_flag al" "al_file_max_size al' = al_file_max_size al"
    "\<And>d. log_prefix d al' = log_prefix d al"
  using assms by (simp add: write_batch_def log_prefix_def)
lemma roll_and_write_rolling:
  assumes "rolling d M B al" and "0 \<le> M" and "int (length (batch_text b)) \<le> B" and "al_number al < 2147483647"
    and "roll_log (\<lambda>_. True) d al = Inr al1" and "write_batch b al1 = Inr al2"
  shows "rolling d M B al2" and "al_number al2 \<le> al_number al + 1"
proof -
  obtain i where i: "0 \<le> i" "al_date al = d" "\<not> al_reopen_flag al" "al_handler al = Some (day_file d al i)" "al_file_max_size al = M"
    "al_number al = i + 1 \<or> i = 0 \<and> al_number al = 0 \<and> day_size d al 0 \<le> M + B"
    "\<forall>k>i. day_size d al k = 0" "day_size d al 0 \<le> M + 2 * B" "\<forall>k>0. day_size d al k \<le> M + B"
    using assms(1) by (auto simp: rolling_def)
  define j where "j = (if day_size d al i > M then al_number al else i)"
  have num: "0 \<le> al_number al" using i(1,6) by auto
  have one: "same_queue al al1" "al_date al1 = d" "\<not> al_reopen_flag al1" "al_handler al1 = Some (day_file d al j)"
    "al_number al1 = (if day_size d al i > M then al_number al + 1 else al_number al)"
  proof -
    obtain al1' where r: "roll_log (\<lambda>_. True) d al = Inr al1'" "same_queue al al1'" "al_date al1' = al_date al" "\<not> al_reopen_flag al1'"
      "if day_size d al i > M then al_handler al1' = Some (day_file d al (al_number al)) \<and> al_number al1' = al_number al + 1
       else al_handler al1' = Some (day_file d al i) \<and> al_number al1' = al_number al"
      by (rule roll_log_fields [OF i(4) num assms(4) i(3), of d, folded day_size_def day_file_def, unfolded i(5)])
    have eq: "al1' = al1" using r(1) assms(5) by simp
    show "same_queue al al1" "al_date al1 = d" "\<not> al_reopen_flag al1" "al_handler al1 = Some (day_file d al j)"
      "al_number al1 = (if day_size d al i > M then al_number al + 1 else al_number al)"
      using r(2-5) i(2) unfolding eq j_def by (simp_all split: if_splits)
  qed
  obtain al2' where "write_batch b al1 = Inr al2'" and two: "al_files al2' = (al_files al1)(day_file d al j := al_files al1 (day_file d al j) @ batch_text b)"
    "al_handler al2' = Some (day_file d al j)" "al_date al2' = al_date al1" "al_reopen_flag al2' = al_reopen_flag al1"
    "al_number al2' = al_number al1" "al_file_max_size al2' = al_file_max_size al1" "\<And>d. log_prefix d al2' = log_prefix d al1"
    by (rule write_batch_fields [OF one(4), of b]) (rule that, assumption+)
  then have eq: "al2' = al2" using assms(6) by simp
  note two = two [unfolded eq]
  note q = same_queueD [OF one(1)]
  have j: "0 \<le> j" "i \<le> j" using i(1,6) num by (auto simp: j_def)
  have fl: "day_file d al2 k = day_file d al k" for k by (simp add: day_file_def two(7) q(4))
  have size: "day_size d al2 k = day_size d al k + (if k = j then int (length (batch_text b)) else 0)" if "0 \<le> k" for k
    using that day_file_inject [OF that j(1), of d al] by (simp add: day_size_def fl two(1) q(3))
  have next_file: "al_number al2 = j + 1 \<or> j = 0 \<and> al_number al2 = 0 \<and> day_size d al2 0 \<le> M + B"
    using i(6) one(5) two(5) size [of 0] assms(3) by (auto simp: j_def)
  have later: "\<forall>k>j. day_size d al2 k = 0" using i(7) size j by auto
  have first: "day_size d al2 0 \<le> M + 2 * B"
    using size [of 0] i(1,6,8) assms(2,3) by (auto simp: j_def split: if_splits)
  have others: "day_size d al2 k \<le> M + B" if "0 < k" for k
  proof (cases "k = j")
    case True
    then have "day_size d al k \<le> M"
      using that i(6,7) assms(2) by (auto simp: j_def split: if_splits)
    then show ?thesis using size [of k] that True assms(3) by simp
  qed (use size [of k] that i(9) in simp)
  show "rolling d M B al2"
    unfolding rolling_def using next_file later first others j two one q(5) i(5) fl
    by (intro exI [of _ j]) simp
  show "al_number al2 \<le> al_number al + 1" using one(5) two(5) by simp
qed

text \<open>A logger that has written nothing on day \<open>d\<close> yet.\<close>

definition before_day :: "string \<Rightarrow> int \<Rightarrow> async_logger \<Rightarrow> bool" where
  "before_day d M al \<longleftrightarrow> al_date al \<noteq> d \<and> al_file_max_size al = M \<and> (\<forall>k\<ge>0. day_size d al k = 0)"

lemma async_round_rolling:
  assumes "rolling d M B al \<or> before_day d M al" and "0 \<le> M" and "\<forall>b \<in> set (al_buffer al). int (length (batch_text b)) \<le> B"
    and "0 \<le> al_number al" and "al_number al < 2147483647" and "al_buffer al \<noteq> []" and "async_round (\<lambda>_. True) d al = Inr (Some al')"
    and "\<not> al_stop_flag al"
  shows "rolling d M B al' \<and> al_number al' \<le> al_number al + 1 \<and> al_buffer al' = tl (al_buffer al) \<and> \<not> al_stop_flag al'"
proof -
  let ?b = "hd (al_buffer al)"
  define al0 where "al0 = al\<lparr>al_buffer := tl (al_buffer al)\<rparr>"
  define al1 where "al1 = reopen_log (\<lambda>_. True) d (new_day d al0)"
  obtain al2 where two: "roll_log (\<lambda>_. True) d al1 = Inr al2" "write_batch ?b al2 = Inr al'"
    using assms(6,7,8) by (auto simp: async_round_def Let_def al0_def al1_def fault_simps)
  have q: "same_queue al0 al1"
    unfolding al1_def by (rule same_queue_trans [OF new_day_fields(1) reopen_log_fields(1)])
  have fl: "day_file d al1 k = day_file d al k" for k
    using same_queueD(4) [OF q] by (simp add: day_file_def al0_def log_prefix_def)
  have size: "day_size d al1 k = day_size d al k" for k
    using same_queueD(3) [OF q] by (simp add: day_size_def fl al0_def)
  have b: "int (length (batch_text ?b)) \<le> B" using assms(3,6) by simp
  have max: "al_file_max_size al1 = al_file_max_size al" using same_queueD(5) [OF q] by (simp add: al0_def)
  have num: "al_number al1 \<le> al_number al" using assms(4) by (auto simp: al1_def reopen_log_fields new_day_fields al0_def)
  have "rolling d M B al1"
    using assms(1)
  proof
    assume r: "rolling d M B al"
    then have "al1 = al0" by (auto simp: rolling_def al1_def reopen_log_def new_day_def al0_def Let_def)
    then show ?thesis using r unfolding rolling_def fl size by (simp add: al0_def)
  next
    assume r: "before_day d M al"
    then have "al_handler al1 = Some (day_file d al1 0)" "al_number al1 = 0" "al_date al1 = d" "\<not> al_reopen_flag al1"
      using same_queueD(4) [OF new_day_fields(1) [of al0 d], of d] same_queueD(4) [OF q, of d]
      by (auto simp: al1_def reopen_log_fields new_day_fields before_day_def al0_def day_file_def)
    then show ?thesis
      using r b assms(2) max by (auto simp: rolling_def size before_day_def intro!: exI [of _ 0])
  qed
  note r = roll_and_write_rolling [OF this assms(2) b _ two]
  have "al_buffer al2 = al_buffer al1" "al_stop_flag al2 = al_stop_flag al1"
    using two(1) by (auto simp: roll_log_def ftell_def open_file_def fault_simps split: option.splits if_splits)
  moreover have "al_buffer al' = al_buffer al2" "al_stop_flag al' = al_stop_flag al2"
    using two(2) by (auto simp: write_batch_def split: option.splits)
  ultimately show ?thesis
    using r num assms(5,8) same_queueD(1,2) [OF q] by (simp add: al0_def)
qed

lemma rolling_number: "rolling d M B al \<Longrightarrow> 0 \<le> al_number al"
  by (auto simp: rolling_def)

lemma async_rounds_rolling:
  "rolling d M B al \<or> before_day d M al \<Longrightarrow> 0 \<le> M \<Longrightarrow> \<forall>b \<in> set (al_buffer al). int (length (batch_text b)) \<le> B \<Longrightarrow>
   0 \<le> al_number al \<Longrightarrow> al_number al + int (length (al_buffer al)) < 2147483647 \<Longrightarrow> \<not> al_stop_flag al \<Longrightarrow> al_buffer al \<noteq> [] \<Longrightarrow>
   async_rounds (\<lambda>_. True) (replicate (length (al_buffer al)) d) al = Inr al' \<Longrightarrow> rolling d M B al'"
proof (induction "al_buffer al" arbitrary: al)
  case (Cons b bs)
  obtain al1 where one: "async_round (\<lambda>_. True) d al = Inr (Some al1)"
    and rest: "async_rounds (\<lambda>_. True) (replicate (length bs) d) al1 = Inr al'"
    using Cons.prems(6,7,8) Cons.hyps(2) [symmetric]
    by (auto simp: fault_simps async_round_def Let_def split: option.splits)
  have r: "rolling d M B al1" "al_number al1 \<le> al_number al + 1" "al_buffer al1 = bs" "\<not> al_stop_flag al1"
    using async_round_rolling [OF Cons.prems(1-4) _ Cons.prems(7) one Cons.prems(6)] Cons.prems(5) Cons.hyps(2) [symmetric]
    by auto
  show ?case
  proof (cases "bs = []")
    case True
    then show ?thesis using rest r(1) by simp
  next
    case False
    then show ?thesis
      using Cons.hyps(1) [of al1] r rest Cons.prems(2,3,5) Cons.hyps(2) [symmetric] rolling_number [OF r(1)] by auto
  qed
qed simp
text \<open>C39 (Files are bounded, the first of a day less well).
  If a logger that has written nothing on a day writes its whole queue on that day, every file of the day ends up with at
  most the maximal size and one batch more, except the first: there \<open>m_number++\<close> names the file that is already
  open, so that it can get two batches more.\<close>

theorem log_files_bounded:
  assumes "before_day d M al" and "0 \<le> M" and "\<forall>b \<in> set (al_buffer al). int (length (batch_text b)) \<le> B"
    and "0 \<le> al_number al" and "al_number al + int (length (al_buffer al)) < 2147483647"
    and "\<not> al_stop_flag al" and "al_buffer al \<noteq> []"
    and "async_rounds (\<lambda>_. True) (replicate (length (al_buffer al)) d) al = Inr al'"
  shows "day_size d al' 0 \<le> M + 2 * B \<and> (\<forall>k>0. day_size d al' k \<le> M + B)"
  using async_rounds_rolling [of d M B al al'] assms by (auto simp: rolling_def)

definition three_batches :: async_logger where
  "three_batches = sample_async\<lparr>al_buffer := [[''abcd''], [''ef''], [''g'']]\<rparr>"

lemma log_files_bounded_witness:
  "\<exists>al'. async_rounds (\<lambda>_. True) (replicate 3 ''20240401'') three_batches = Inr al' \<and>
    day_size ''20240401'' al' 0 = 8 \<and> day_size ''20240401'' al' 0 \<le> 3 + 2 * 5 \<and> day_size ''20240401'' al' 1 \<le> 3 + 5"
proof -
  let ?run = "async_rounds (\<lambda>_. True) (replicate 3 ''20240401'') three_batches"
  have names: "int_to_string 0 = ''0''" "int_to_string 1 = ''1''"
    by code_simp+
  have run: "\<exists>al'. ?run = Inr al' \<and> day_size ''20240401'' al' 0 = 8"
    by (simp add: three_batches_def sample_async_def AsyncLogger_new_def numeral_3_eq_3 async_round_def new_day_def
        reopen_log_def open_file_def roll_log_def ftell_def write_batch_def batch_text_def log_prefix_def day_size_def
        day_file_def names chk_i32_def in_i32_def Let_def)
  then obtain al' where al': "?run = Inr al'" "day_size ''20240401'' al' 0 = 8" by blast
  have q: "al_buffer three_batches = [[''abcd''], [''ef''], [''g'']]" by (simp add: three_batches_def)
  have "day_size ''20240401'' al' 0 \<le> 3 + 2 * 5 \<and> (\<forall>k>0. day_size ''20240401'' al' k \<le> 3 + 5)"
  proof (rule log_files_bounded)
    show "async_rounds (\<lambda>_. True) (replicate (length (al_buffer three_batches)) ''20240401'') three_batches = Inr al'"
      using al'(1) by (simp add: q numeral_3_eq_3)
  qed (simp_all add: q batch_text_def before_day_def three_batches_def sample_async_def AsyncLogger_new_def day_size_def)
  then show ?thesis using al' by auto
qed

section \<open>Setting the logger up\<close>

text \<open>Lemma (The timer of \<open>sync_loop\<close> is thrown away).
  \<open>init\<close> adds the repeating event of \<open>sync_loop\<close> to a loop it takes out of the thread's slot. The slot is left empty, so
  the loop is destroyed with the temporary that holds it, and whatever loop the thread asks for next is a new one.\<close>

theorem logger_timer_is_dropped:
  "case logger_init cfg files p sync_cb clk slot fresh lg of (lg', el, slot') \<Rightarrow>
     (m_arrive_time (tm_heap (m_timer el) p), p) \<in> set (m_pending_events (m_timer el)) \<and>
     m_task (tm_heap (m_timer el) p) = Some sync_cb \<and>
     slot' = None \<and> fst (Get_Current_Eventloop slot' fresh2) = fresh2"
proof -
  obtain e clk1 where e: "TimerEvent_new (m_log_sync_inteval cfg) True (Some sync_cb) clk = (e, clk1)" by fastforce
  then have task: "m_task e = Some sync_cb" by (auto simp: TimerEvent_new_def split: prod.splits)
  obtain el slot' where el: "Get_Current_Eventloop slot fresh = (el, slot')" by fastforce
  then have slot: "slot' = None" by (auto simp: Get_Current_Eventloop_def split: option.splits)
  let ?tm = "(m_timer el)\<lparr>tm_heap := (tm_heap (m_timer el))(p := e)\<rparr>"
  obtain tm clk2 where add: "add_time_event p (?tm, clk1) = (tm, clk2)" by fastforce
  note fields = add_time_event_fields [OF add]
  have "logger_init cfg files p sync_cb clk slot fresh lg = (lg\<lparr>m_async_logger := Some (AsyncLogger_new (m_file_path cfg)
      (m_file_name cfg) (m_file_max_size cfg) files), lg_timer_evnet := p\<rparr>, el\<lparr>m_timer := tm\<rparr>, None)"
    using e el add slot by (simp add: logger_init_def add_timer_event_def Let_def)
  then show ?thesis using fields task by (simp add: Get_Current_Eventloop_def)
qed

end
