(* ===== verification/Scope_Mutex.thy ===== *)
theory Scope_Mutex
  imports Rpc_Prelude
begin

text \<open>
  The locks of the logger: \<open>Mutex\<close> and \<open>ScopeMutex\<close> (\<open>src/include/common/mutex.h\<close>, \<open>src/common/mutex.cc\<close>) and
  \<open>SpinLock\<close> (\<open>src/include/common/spin_lock.h\<close>). A blocked call is \<open>None\<close>. The mutex has the default
  kind, which on Linux does not check who unlocks it.

  The lemmas show that a guard that is only released by its destructor excludes every other
  thread, for both kinds of lock, and that a \<open>ScopeMutex\<close> that is also unlocked by hand does not.
\<close>

section \<open>The locks\<close>

text \<open>The state of either lock is whether it is taken.\<close>

definition mutex_lock :: "bool \<Rightarrow> bool option" where
  "mutex_lock m = (if m then None else Some True)"

definition mutex_unlock :: "bool \<Rightarrow> bool" where
  "mutex_unlock m = False"

text \<open>\<open>flag.exchange(true)\<close>: the old value and the new one. \<open>lock\<close> tries again while the old one was true.\<close>

definition flag_exchange :: "bool \<Rightarrow> bool \<times> bool" where
  "flag_exchange flag = (flag, True)"

definition spin_lock :: "bool \<Rightarrow> bool option" where
  "spin_lock flag = (let (old, new) = flag_exchange flag in if old then None else Some new)"

definition spin_unlock :: "bool \<Rightarrow> bool" where
  "spin_unlock flag = False"

section \<open>The guard\<close>

record scope_mutex =
  m_is_lock :: bool

definition ScopeMutex_new :: "('l \<Rightarrow> 'l option) \<Rightarrow> 'l \<Rightarrow> (scope_mutex \<times> 'l) option" where
  "ScopeMutex_new acquire l = map_option (\<lambda>l'. (\<lparr>m_is_lock = True\<rparr>, l')) (acquire l)"

definition scope_destroy :: "('l \<Rightarrow> 'l) \<Rightarrow> scope_mutex \<times> 'l \<Rightarrow> scope_mutex \<times> 'l" where
  "scope_destroy release = (\<lambda>(g, l). (g\<lparr>m_is_lock := False\<rparr>, release l))"

definition scope_lock :: "('l \<Rightarrow> 'l option) \<Rightarrow> scope_mutex \<times> 'l \<Rightarrow> (scope_mutex \<times> 'l) option" where
  "scope_lock acquire = (\<lambda>(g, l). if \<not> m_is_lock g then map_option (\<lambda>l'. (g, l')) (acquire l) else Some (g, l))"

definition scope_unlock :: "('l \<Rightarrow> 'l) \<Rightarrow> scope_mutex \<times> 'l \<Rightarrow> scope_mutex \<times> 'l" where
  "scope_unlock release = (\<lambda>(g, l). if m_is_lock g then (g, release l) else (g, l))"

section \<open>Threads that use a guard\<close>

text \<open>A thread constructs a guard, is in its critical section, unlocks the guard by hand if it is one of
  those that do, and leaves the scope.\<close>

datatype phase = Outside | Inside scope_mutex | Unlocked scope_mutex

record 'l guarded =
  the_lock :: 'l
  phase_of :: "nat \<Rightarrow> phase"

definition guard_step :: "('l \<Rightarrow> 'l option) \<Rightarrow> ('l \<Rightarrow> 'l) \<Rightarrow> (nat \<Rightarrow> bool) \<Rightarrow> nat \<Rightarrow> 'l guarded \<Rightarrow> 'l guarded option" where
  "guard_step acquire release early t s =
     (case phase_of s t of
        Outside \<Rightarrow>
          map_option (\<lambda>(g, l). s\<lparr>the_lock := l, phase_of := (phase_of s)(t := Inside g)\<rparr>) (ScopeMutex_new acquire (the_lock s))
      | Inside g \<Rightarrow>
          (if early t
           then let (g', l) = scope_unlock release (g, the_lock s)
                in Some (s\<lparr>the_lock := l, phase_of := (phase_of s)(t := Unlocked g')\<rparr>)
           else let (_, l) = scope_destroy release (g, the_lock s)
                in Some (s\<lparr>the_lock := l, phase_of := (phase_of s)(t := Outside)\<rparr>))
      | Unlocked g \<Rightarrow>
          let (_, l) = scope_destroy release (g, the_lock s)
          in Some (s\<lparr>the_lock := l, phase_of := (phase_of s)(t := Outside)\<rparr>))"

fun guard_run :: "('l \<Rightarrow> 'l option) \<Rightarrow> ('l \<Rightarrow> 'l) \<Rightarrow> (nat \<Rightarrow> bool) \<Rightarrow> nat list \<Rightarrow> 'l guarded \<Rightarrow> 'l guarded option" where
  "guard_run acquire release early [] s = Some s"
| "guard_run acquire release early (t # ts) s =
     Option.bind (guard_step acquire release early t s) (guard_run acquire release early ts)"

definition no_guards :: "'l \<Rightarrow> 'l guarded" where
  "no_guards l = \<lparr>the_lock = l, phase_of = (\<lambda>_. Outside)\<rparr>"

fun is_inside :: "phase \<Rightarrow> bool" where
  "is_inside (Inside g) = True"
| "is_inside _ = False"

section \<open>Exclusion\<close>

text \<open>What a lock promises: it is given only when it is free, and it is free after a release.\<close>

locale lock_contract =
  fixes acquire :: "'l \<Rightarrow> 'l option" and release :: "'l \<Rightarrow> 'l" and held :: "'l \<Rightarrow> bool"
  assumes acquire_free: "acquire l = Some l' \<Longrightarrow> \<not> held l \<and> held l'"
    and acquire_ready: "\<not> held l \<Longrightarrow> acquire l \<noteq> None"
    and release_free: "\<not> held (release l)"
begin

definition exclusive :: "'l guarded \<Rightarrow> bool" where
  "exclusive s \<longleftrightarrow> (\<forall>t u. is_inside (phase_of s t) \<longrightarrow> is_inside (phase_of s u) \<longrightarrow> t = u) \<and>
     (\<forall>t. is_inside (phase_of s t) \<longrightarrow> held (the_lock s)) \<and>
     (\<forall>t g. phase_of s t \<noteq> Unlocked g)"

lemma guard_step_exclusive:
  assumes "exclusive s" and "guard_step acquire release (\<lambda>_. False) t s = Some s'"
  shows "exclusive s'"
proof (cases "phase_of s t")
  case Outside
  then obtain l where l: "acquire (the_lock s) = Some l"
    and s': "s' = s\<lparr>the_lock := l, phase_of := (phase_of s)(t := Inside \<lparr>m_is_lock = True\<rparr>)\<rparr>"
    using assms(2) by (auto simp: guard_step_def ScopeMutex_new_def)
  have "\<not> is_inside (phase_of s u)" for u using assms(1) acquire_free [OF l] by (auto simp: exclusive_def)
  then show ?thesis using assms(1) acquire_free [OF l] by (auto simp: exclusive_def s')
next
  case (Inside g)
  then have s': "s' = s\<lparr>the_lock := release (the_lock s), phase_of := (phase_of s)(t := Outside)\<rparr>"
    using assms(2) by (simp add: guard_step_def scope_destroy_def)
  have "\<not> is_inside (phase_of s u)" if "u \<noteq> t" for u using assms(1) Inside that by (auto simp: exclusive_def)
  then show ?thesis using assms(1) by (auto simp: exclusive_def s')
next
  case (Unlocked g)
  then show ?thesis using assms(1) by (auto simp: exclusive_def)
qed

lemma guard_run_exclusive:
  "exclusive s \<Longrightarrow> guard_run acquire release (\<lambda>_. False) ts s = Some s' \<Longrightarrow> exclusive s'"
proof (induction ts arbitrary: s)
  case (Cons t ts)
  then obtain s1 where "guard_step acquire release (\<lambda>_. False) t s = Some s1"
    "guard_run acquire release (\<lambda>_. False) ts s1 = Some s'" by (auto simp: bind_eq_Some_conv)
  then show ?case using Cons guard_step_exclusive by blast
qed simp

lemma mutual_exclusion:
  assumes "guard_run acquire release (\<lambda>_. False) ts (no_guards l) = Some s"
    and "is_inside (phase_of s t)" and "is_inside (phase_of s u)"
  shows "t = u"
proof -
  have "exclusive (no_guards l)" by (simp add: exclusive_def no_guards_def)
  then show ?thesis using guard_run_exclusive [OF _ assms(1)] assms(2,3) by (auto simp: exclusive_def)
qed

end

interpretation pmutex: lock_contract mutex_lock mutex_unlock "\<lambda>m. m"
  by unfold_locales (auto simp: mutex_lock_def mutex_unlock_def split: if_splits)

interpretation spin: lock_contract spin_lock spin_unlock "\<lambda>flag. flag"
  by unfold_locales (auto simp: spin_lock_def flag_exchange_def spin_unlock_def split: if_splits)

text \<open>C36 (When a guard excludes other threads).
  With a lock that is only released at the end of the scope, be it the spin lock or the mutex, no two threads
  are ever in their critical sections together. A \<open>ScopeMutex\<close> does not clear its flag in \<open>unlock\<close>, so a
  thread that unlocks it by hand unlocks the mutex once more at the end of the scope, when another
  thread may have it: then two threads can be inside together.\<close>

theorem guards_exclude:
  assumes "guard_run spin_lock spin_unlock (\<lambda>_. False) ts (no_guards False) = Some s"
    and "guard_run mutex_lock mutex_unlock (\<lambda>_. False) ts' (no_guards False) = Some s'"
  shows "(is_inside (phase_of s t) \<and> is_inside (phase_of s u) \<longrightarrow> t = u) \<and>
    (is_inside (phase_of s' t) \<and> is_inside (phase_of s' u) \<longrightarrow> t = u) \<and>
    (\<exists>schedule s2. guard_run mutex_lock mutex_unlock (\<lambda>_. True) schedule (no_guards False) = Some s2 \<and>
       is_inside (phase_of s2 2) \<and> is_inside (phase_of s2 3))"
proof (intro conjI)
  let ?run = "guard_run mutex_lock mutex_unlock (\<lambda>_. True) [1, 1, 2, 1, 3] (no_guards False)"
  show "\<exists>schedule s2. guard_run mutex_lock mutex_unlock (\<lambda>_. True) schedule (no_guards False) = Some s2 \<and>
       is_inside (phase_of s2 2) \<and> is_inside (phase_of s2 3)"
    by (intro exI [of _ "[1, 1, 2, 1, 3]"] exI [of _ "the ?run"])
      (simp add: no_guards_def guard_step_def ScopeMutex_new_def scope_unlock_def scope_destroy_def mutex_lock_def
        mutex_unlock_def)
qed (use spin.mutual_exclusion [OF assms(1)] pmutex.mutual_exclusion [OF assms(2)] in blast)+

lemma guards_exclude_witness:
  "\<exists>s. guard_run spin_lock spin_unlock (\<lambda>_. False) [4, 4, 5] (no_guards False) = Some s \<and>
    is_inside (phase_of s 5) \<and> \<not> is_inside (phase_of s 4)"
proof -
  let ?run = "guard_run spin_lock spin_unlock (\<lambda>_. False) [4, 4, 5] (no_guards False)"
  have run: "?run = Some (the ?run)" "is_inside (phase_of (the ?run) 5)"
    by (simp_all add: no_guards_def guard_step_def ScopeMutex_new_def scope_destroy_def spin_lock_def flag_exchange_def
        spin_unlock_def)
  show ?thesis
    using guards_exclude [OF run(1), of "[]" "no_guards False" 4 5] run by auto
qed

end
