(* ===== verification/Spec2Isabelle.thy ===== *)
theory Spec2Isabelle
  imports Client_Loop Fragmentation Logger Scope_Mutex
begin

text \<open>
  tiny_rpc: a remote procedure call library over TCP with one event loop per thread.

  The program and its model. A server (\<open>TcpServer\<close>) has a main \<open>EventLoop\<close> that watches the listening
  socket of its \<open>TcpAcceptor\<close>, and a group of \<open>IOThread\<close>s with a loop each. An accepted connection
  (\<open>TcpConnection\<close>) goes to the loop of one thread. The loop asks \<open>epoll\<close> for ready descriptors
  (\<open>FdEvent\<close>) and runs their callbacks and those of its \<open>Timer\<close>. A connection reads bytes into its in
  \<open>TcpBuffer\<close>, \<open>ProtobufCoder\<close> decodes frames, \<open>RpcDispatcher\<close> calls the named method, and the coder
  encodes the answer into the out buffer. A client (\<open>RpcChannel\<close> over \<open>TcpClient\<close>) queues a request with a
  callback under its message id (\<open>MsgIdUtils\<close>), with a timeout in the loop's timer.

  Theories, each with the files under \<open>src/\<close> it models:

    \<^item> \<open>Rpc_Prelude\<close>: faults and the result type \<open>fault + 'a\<close>, 32-bit \<open>int\<close> checks, access to \<open>std::vector\<close>
      with its bounds, loops that stop at a fault, the lemma collections.
    \<^item> \<open>Rpc_Utils\<close> (\<open>common/utils.cc\<close>, \<open>error_code.h\<close>), \<open>Msg_Id\<close> (\<open>common/msg_id_utils.cc\<close>).
    \<^item> \<open>Tcp_Buffer\<close> (\<open>net/tcp/tcp_buffer\<close>): vector and two indices. Its invariant, the content as a
      list, what every operation does to it, and the refinement of an unbounded queue (a locale).
    \<^item> \<open>Coder\<close>, \<open>Decoder\<close> (\<open>net/coder\<close>): messages, \<open>encode\<close> and \<open>decode\<close> byte by byte. The wire format
      \<open>frame\<close>, the locales of a coder and of a stream decoder, the round trip, the inputs that break the decoder.
    \<^item> \<open>Fd_Event\<close> (\<open>net/fd_event\<close>, \<open>net/wakeup_fd_event.cc\<close>): interest masks, callbacks, the table of events.
    \<^item> \<open>Timer_Queue\<close> (\<open>net/time\<close>): the multimap of timers as a sorted list, arming, firing, deletion.
    \<^item> \<open>Event_Loop\<close> (\<open>net/eventloop\<close>): registrations in the kernel, tasks from other threads, one round of
      \<open>loop\<close>; a locale for the registry of interests.
    \<^item> \<open>Net_Addr\<close> (\<open>net/tcp/ipv4_net_addr\<close>), \<open>Rpc_Dispatcher\<close> (\<open>net/rpc/rpc_dispatchor\<close>,
      \<open>rpc_controller\<close>, \<open>rpc_closure\<close>): services, the five ways a request can fail.
    \<^item> \<open>Tcp_Connection\<close> (\<open>net/tcp/tcp_connection\<close>): \<open>on_read\<close>, \<open>excute\<close>, \<open>on_write\<close>, \<open>clear\<close>,
      \<open>shutdown\<close> for both kinds of connection.
    \<^item> \<open>Io_Thread\<close> (\<open>net/io_thread\<close>): start and end of a thread as two programs under any schedule.
    \<^item> \<open>Tcp_Client\<close> (\<open>net/tcp/tcp_client\<close>), \<open>Tcp_Server\<close> (\<open>net/tcp/tcp_server\<close>, \<open>tcp_acceptor\<close>).
    \<^item> \<open>Rpc_Channel\<close> (\<open>net/rpc/rpc_channel\<close>): the call, its timeout and its reply, in any order.
    \<^item> \<open>Reactor\<close>: the loop of an I/O thread with all its connections (\<open>eventloop.cc\<close>, \<open>tcp_connection.cc\<close> and
      \<open>tcp_server.cc\<close> together). Callbacks are the handlers of the connections, sockets are in the state; the
      invariant of every reachable state, and the way of a client from \<open>on_accept\<close> to the answer.
    \<^item> \<open>Fragmentation\<close>: a server's connection over any sequence of reads (\<open>tcp_connection.cc\<close> with the decoder):
      the cuts of the stream that do not matter, and those that do.
    \<^item> \<open>Rpc_Call\<close>: client, wire and server put together, for the theorems of this file.
    \<^item> \<open>Client_Loop\<close>: the client's side of a call in its own loop (\<open>rpc_channel.cc\<close>, \<open>tcp_client.cc\<close>, \<open>tcp_connection.cc\<close>
      and \<open>eventloop.cc\<close> together): connect in progress or refused, request, reply or timeout, round by round.
    \<^item> \<open>Scope_Mutex\<close> (\<open>common/mutex\<close>, \<open>spin_lock.h\<close>): guards of many threads under any schedule, over a
      locale that the spin lock and the mutex both interpret.
    \<^item> \<open>Log_Config\<close> (\<open>common/config.cc\<close>, \<open>log_config.h\<close>), \<open>Logger\<close> (\<open>common/log\<close>): the configuration, the
      levels, the buffer and the thread that writes and rolls files.

  How code becomes definitions. A class is a record, an operation a function on it that keeps the
  code's name (with a prefix where two classes share one); a constructor ends in \<open>_new\<close>. An access
  outside a vector, a null pointer, a signed overflow, misuse of a mutex and \<open>exit\<close> are values of
  \<open>fault\<close>. A callback is data: an element of a type parameter, or a constructor with what the lambda
  captures, and what runs it is an argument or a function next to it. Objects other objects point to
  live in maps from addresses. System calls are arguments: a function from a state to a result and a
  state for the sockets (\<open>reader\<close>, \<open>writer\<close>), a clock for the time. Protobuf's reflection, serialising
  and parsing is the record \<open>service\<close> and two fields of \<open>channel_env\<close>; TinyXML is the record \<open>xml\<close>. What
  another thread does is a queue of tasks or a schedule.

  Bounds and loops. \<open>int\<close> is checked where the code can leave it; buffers are proved correct up to
  \<open>buf_limit\<close> bytes, at which the growth by a factor still fits in \<open>int\<close>. Loops that may not end (\<open>decode\<close>, the read and write
  loops, draining a descriptor) are partial functions to \<open>option\<close>, so that returning is \<open>Some\<close> and is
  part of every theorem that says what they do; two theorems show inputs on which \<open>decode\<close> is \<open>None\<close>. No fuel is used.

  What the theorems show, in three groups: the library does what it promises (round trips of the wire
  format, the buffer as a queue, one answer per request, callbacks by id, timers in order, kernel
  registrations in step with the loop, one completion per call, a timeout for a call that hears nothing, and the whole call,
  answered or failed, below, with each side run by its own loop); invariants
  that every operation keeps (connections of a loop do not get into each other's way, what the decoder delivers from
  any bytes is well formed, how TCP cuts a stream of requests does not change the answers); and the exact behaviour at the edges where the code fails (full
  buffers, frames of length 0, a length field that arrives in two pieces, bytes before a frame, partial writes, replies after an error, locks taken twice, threads that were never started, a refused connect).

  Not modelled: the life times of shared objects, the memory they free and the descriptors their destructors close; members
  that only return a field; \<open>IOThreadGroup::join\<close>, which waits for the threads in turn; the order in which two threads interleave inside one operation of
  a loop (their effects reach each other only through its task queue); relaxed memory; the lines the library logs
  about itself; \<open>fflush\<close> and the standard output except where the logger writes to it; failures of
  \<open>pthread_create\<close> and of memory allocation; the example programs and tests, generated protobuf
  code, TinyXML, fmt and the build files.
\<close>

section \<open>A whole call\<close>

text \<open>Lemma (A remote call, end to end).
  A client channel that is set up and idle calls \<open>service.method\<close> on a server at which the service is
  registered. \<open>CallMethod\<close> connects at once; the client's \<open>on_write\<close> sends one frame, the request; the
  server's \<open>on_read\<close> decodes it, calls the method on the parsed argument with a controller carrying the
  call's id, and its \<open>on_write\<close> sends one frame, the result under the same id; the client's \<open>on_read\<close>
  hands exactly that message to the callback registered for the id, and the channel then runs the
  caller's closure once with the parsed result as response. No step faults or fails to return.\<close>

theorem rpc_end_to_end:
  assumes "ready_client p ctl mid ch" and "m_closure ch = Some (Some f)" and "m_response ch = Some rsp0"
    and "\<not> m_is_cancled (ch_controllers ch ctl)" and "keeps_writes (client_env (ce_tid cenv) reply)"
    and "ce_serialize cenv request = Some data" and "ce_parse cenv result rsp0 = (True, rsp1)"
    and "CallMethod open_fd urandom cenv None p clk (method_full_name svc meth) (Some ctl) request ch = Inr (ch1, nxt)"
    and "ready_server tid l q (sv, sel)" and "env_services senv = register_service svc m" and "CHR ''.'' \<notin> set (full_name svc)"
    and "find_method svc meth = Some md" and "parse_request svc md data = Some arg"
    and "serialize svc (call_method svc md (call_controller mid l q) arg) = (True, result)"
    and "wire_ok (request_protocol mid (method_full_name svc meth) data)"
    and "wire_ok (request_protocol mid (method_full_name svc meth) result)"
    and "int (length (frame (request_protocol mid (method_full_name svc meth) data))) < can_write_bytes_num (m_in_buffer sv)"
    and "int (length (frame (request_protocol mid (method_full_name svc meth) result))) <
      can_write_bytes_num (m_in_buffer (m_connection (m_client ch)))"
  shows "\<exists>s' ch2.
    exchange (client_env (ce_tid cenv) reply) (ce_tid cenv) senv tid ctl reply (conn_part ch1) (sv, sel)
      (request_protocol mid (method_full_name svc meth) data) (request_protocol mid (method_full_name svc meth) result) s' \<and>
    deliver cenv (ProtobufP (decoded (request_protocol mid (method_full_name svc meth) result))) (with_conn s' ch1) = Inr ch2 \<and>
    ch_ran ch2 = [f] \<and> m_response ch2 = Some rsp1"
proof -
  let ?q = "request_protocol mid (method_full_name svc meth) data" and ?a = "request_protocol mid (method_full_name svc meth) result"
  have mid: "idle_channel p ch" "rc_msg_id (ch_controllers ch ctl) = mid" "mid \<noteq> []" using assms(1) by (simp_all add: ready_client_def)
  have "answer senv sv (decoded ?q) = ?a"
    using registered_answer [of senv svc m meth md data arg mid l q result sv] assms(9-14) mid(3) by (simp add: ready_server_def)
  then obtain s' where ex: "exchange (client_env (ce_tid cenv) reply) (ce_tid cenv) senv tid ctl reply (conn_part ch1) (sv, sel) ?q ?a s'"
    "m_read_dones (fst s') = [mid \<mapsto> ReadDone True ctl]" "m_msg_id ?a = mid"
    using exchange_ok [OF assms(1,9,5,6,8) _ assms(15-18)] by blast
  have "m_err_code ?a = 0" "m_pb_data ?a = result" by (simp_all add: request_protocol_def ProtobufProtocol_new_def)
  then obtain ch2 where "deliver cenv (ProtobufP (decoded ?a)) (with_conn s' ch1) = Inr ch2" "ch_ran ch2 = [f]" "m_response ch2 = Some rsp1"
    using call_completes [of s' mid ctl ch1 f rsp0 ?a cenv rsp1] ex(2,3) assms(2-4,7) mid(3)
      CallMethod_connected [OF mid assms(6,8)] by auto
  with ex(1) show ?thesis by blast
qed

lemma rpc_end_to_end_witness:
  "\<exists>ch1 s' ch2.
    CallMethod 4 ''seed'' sample_channel_env None 3 sample_clock ''Order.make'' (Some 0) ''order'' sample_channel = Inr (ch1, Nothing) \<and>
    exchange (client_env 1 (\<lambda>_ _ s. s)) 1 sample_env 1 0 (\<lambda>_ _ s. s) (conn_part ch1) (sample_conn TcpConnectionByServer, the_sample_loop)
      (request_protocol ''42'' ''Order.make'' ''order'') (request_protocol ''42'' ''Order.make'' ''order42'') s' \<and>
    deliver sample_channel_env (ProtobufP (decoded (request_protocol ''42'' ''Order.make'' ''order42''))) (with_conn s' ch1) = Inr ch2 \<and>
    ch_ran ch2 = [77] \<and> m_response ch2 = Some ''order42''"
proof -
  have name: "method_full_name echo_service ''make'' = ''Order.make''" by (simp add: method_full_name_def echo_service_def)
  have service: "CHR ''.'' \<notin> set (full_name echo_service)" "find_method echo_service ''make'' = Some ()"
    "parse_request echo_service () ''order'' = Some ''order''"
    "serialize echo_service (call_method echo_service () (call_controller ''42'' sample_addr sample_addr) ''order'') = (True, ''order42'')"
    by (simp_all add: echo_service_def call_controller_def RpcController_new_def)
  have frames: "nul \<notin> set ''Order.make''" by (simp add: nul_def char_of_def)
  obtain ch1 where call: "CallMethod 4 ''seed'' sample_channel_env None 3 sample_clock ''Order.make'' (Some 0) ''order'' sample_channel = Inr (ch1, Nothing)"
    by (rule sample_call_ok)
  show ?thesis
    using rpc_end_to_end [of 3 0 "''42''" sample_channel 77 "[]" sample_channel_env "\<lambda>_ _ s. s" "''order''" "''order''" "''order42''"
        "''order42''" 4 "''seed''" sample_clock echo_service "''make''" ch1 Nothing 1 sample_addr sample_addr
        "sample_conn TcpConnectionByServer" the_sample_loop sample_env Map.empty "()" "''order''", unfolded name sample_channel_env]
      sample_client sample_channel_idle(3,4) sample_server_ready service call
      sample_frames [OF _ frames, of "''order''"] sample_frames [OF _ frames, of "''order42''"]
    by simp
qed

lemma registered_reply:
  assumes "env_services env = register_service svc m" and "CHR ''.'' \<notin> set (full_name svc)"
    and "find_method svc meth = Some md" and "parse_request svc md data = Some arg"
    and "serialize svc (call_method svc md (call_controller mid l q) arg) = (True, result)" and "mid \<noteq> []"
  shows "server_reply env l q (request_protocol mid (method_full_name svc meth) data) = request_protocol mid (method_full_name svc meth) result"
  using registered_answer [OF assms(1-5) _ _ assms(6), of "undefined\<lparr>conn_local_addr := Some l, conn_peer_addr := Some q\<rparr>"]
    server_reply_answer [of "undefined\<lparr>conn_local_addr := Some l, conn_peer_addr := Some q\<rparr>" l q env] by simp

lemma sample_name: "method_full_name echo_service ''make'' = ''Order.make''"
  by (simp add: method_full_name_def echo_service_def)

lemma sample_service:
  "env_services reactor_env = register_service echo_service Map.empty"
  "CHR ''.'' \<notin> set (full_name echo_service)" "find_method echo_service ''make'' = Some ()"
  "parse_request echo_service () ''order'' = Some ''order''"
  "serialize echo_service (call_method echo_service () (call_controller ''42'' (srv_local_addr reactor_server)
     (IPv4NetAddr_sockaddr (\<lambda>_. ''10.0.0.1'') sockaddr_zero)) ''order'') = (True, ''order42'')"
  by (simp_all add: reactor_env_def echo_service_def call_controller_def RpcController_new_def)

lemma sample_call_frames:
  "wire_ok (request_protocol ''42'' ''Order.make'' ''order'')" "wire_ok (request_protocol ''42'' ''Order.make'' ''order42'')"
  "length (frame (request_protocol ''42'' ''Order.make'' ''order'')) < 128"
  "int (length (frame (request_protocol ''42'' ''Order.make'' ''order42''))) < can_write_bytes_num (m_in_buffer (m_connection (m_client sample_channel)))"
proof -
  have frames: "nul \<notin> set ''Order.make''" by (simp add: nul_def char_of_def)
  show "wire_ok (request_protocol ''42'' ''Order.make'' ''order'')" "wire_ok (request_protocol ''42'' ''Order.make'' ''order42'')"
    "length (frame (request_protocol ''42'' ''Order.make'' ''order'')) < 128"
    "int (length (frame (request_protocol ''42'' ''Order.make'' ''order42''))) < can_write_bytes_num (m_in_buffer (m_connection (m_client sample_channel)))"
    using sample_frames [OF _ frames, of "''order''"] sample_frames [OF _ frames, of "''order42''"] sample_client(3) by simp_all
qed

text \<open>The server's half: three rounds of the I/O thread's loop answer the request.\<close>

lemma served_call:
  assumes "has_run senv tid sock_read sock_write el cs" and "m_pending_tasks el = []" and "\<not> m_stop_flag el"
    and "cs i = None" and "fresh_fd fd p el cs" and "tid' \<noteq> tid" and "next_loop srv a el"
    and "on_accept tid' inet_ntoa fd ca p (ConnRead i) (ConnWrite i) srv = Inr srv'"
    and "server_reply senv (srv_local_addr srv) (IPv4NetAddr_sockaddr inet_ntoa ca) q = r"
    and "wire_ok q" and "wire_ok r" and "length (frame q) < 128"
  obtains c el1 c2 el2 where "srv_client srv' = srv_client srv @ [c]"
    "io_event_loop (m_io_thread_groups (m_io_thread_group srv') ! a) = Some el1"
    "loop_rounds (reactor_run senv tid sock_read sock_write) tid [Some [(EPOLLIN, Some p)], Some [(EPOLLOUT, Some p)], None]
      (el1, Some (cs(i \<mapsto> (c, \<lparr>sk_in = frame q, sk_eof = False, sk_out = []\<rparr>)))) =
      Inr (el2, Some (cs(i \<mapsto> (c2, \<lparr>sk_in = [], sk_eof = False, sk_out = frame r\<rparr>))))"
proof -
  have ok: "list_all wire_ok [q]" "length (concat (map frame [q])) < 128" "sized r" "length (frame r) \<le> buf_limit" "[q] \<noteq> []"
    using assms(10-12) by (simp_all add: wire_ok_def sized_def)
  obtain c el1 c2 el2 where srv: "srv_client srv' = srv_client srv @ [c]"
    "io_event_loop (m_io_thread_groups (m_io_thread_group srv') ! a) = Some el1"
    "loop_rounds (reactor_run senv tid sock_read sock_write) tid [Some [(EPOLLIN, Some p)], Some [(EPOLLOUT, Some p)], None]
      (el1, Some (cs(i \<mapsto> (c, \<lparr>sk_in = concat (map frame [q]), sk_eof = False, sk_out = []\<rparr>)))) =
      Inr (el2, Some (cs(i \<mapsto> (c2, \<lparr>sk_in = [], sk_eof = False, sk_out =
        concat (map (\<lambda>m. frame (server_reply senv (srv_local_addr srv) (IPv4NetAddr_sockaddr inet_ntoa ca) m)) [q])\<rparr>))))"
    by (rule accepted_rounds [OF has_run_inv [OF assms(1)] assms(2-8) ok(5,1,2), where env = senv]) (use assms(9) ok in simp_all)
  have "concat (map frame [q]) = frame q"
    "concat (map (\<lambda>m. frame (server_reply senv (srv_local_addr srv) (IPv4NetAddr_sockaddr inet_ntoa ca) m)) [q]) = frame r"
    by (simp_all add: assms(9))
  note srv(3) [unfolded this]
  with srv(1,2) show thesis by (rule that)
qed



text \<open>C1 (A remote call over both loops).
  The whole call, with each side run by its own event loop and the connect still in progress. \<open>CallMethod\<close> on an idle channel
  of an idle loop gets \<open>EINPROGRESS\<close>; in three rounds the client's loop hears that the socket can be written, ends the
  connect, queues the request and sends its frame and nothing else. On the server, \<open>on_accept\<close> hands the connection to the
  loop of an I/O thread that has been serving others; in three rounds that loop reads those bytes, calls the registered
  method and sends the frame of the result. Two more rounds of the client's loop, which find that frame in the socket, run the
  caller's closure once, leave the parsed result as response and the timeout unable to fire. No step faults or hangs.\<close>

theorem call_over_both_loops:
  assumes "ready_client cp ctl mid ch" and "loop_ready cenv e ch" and "m_closure ch = Some (Some f)" and "m_response ch = Some rsp0"
    and "\<not> m_is_cancled (ch_controllers ch ctl)"
    and "io_read io = sock_read" and "io_write io = sock_write" and "io_connect io \<in> {None, Some EISCONN}"
    and "ce_serialize cenv request = Some data" and "ce_parse cenv result rsp0 = (True, rsp1)"
    and "q = request_protocol mid (method_full_name svc meth) data" and "r = request_protocol mid (method_full_name svc meth) result"
    and "CallMethod open_fd urandom cenv (Some EINPROGRESS) cp clk (method_full_name svc meth) (Some ctl) request ch = Inr (ch1, nxt)"
    and "has_run senv tid sock_read sock_write el cs" and "m_pending_tasks el = []" and "\<not> m_stop_flag el"
    and "cs i = None" and "fresh_fd fd p el cs" and "tid' \<noteq> tid" and "next_loop srv a el"
    and "on_accept tid' inet_ntoa fd ca p (ConnRead i) (ConnWrite i) srv = Inr srv'"
    and "env_services senv = register_service svc m" and "CHR ''.'' \<notin> set (full_name svc)"
    and "find_method svc meth = Some md" and "parse_request svc md data = Some arg"
    and "serialize svc (call_method svc md (call_controller mid (srv_local_addr srv) (IPv4NetAddr_sockaddr inet_ntoa ca)) arg) = (True, result)"
    and "wire_ok q" and "wire_ok r" and "length (frame q) < 128"
    and "int (length (frame r)) < can_write_bytes_num (m_in_buffer (m_connection (m_client ch)))"
  shows "\<exists>ch3 ch4 c c2 el1 el2.
    loop (client_run cenv io) (ce_tid cenv) [Some [(EPOLLOUT, Some e)], Some [(EPOLLOUT, Some e)], None]
      (ch_loop ch1, Some (ch1, \<lparr>sk_in = [], sk_eof = False, sk_out = []\<rparr>)) =
      Inr (ch_loop ch3, Some (ch3, \<lparr>sk_in = [], sk_eof = False, sk_out = frame q\<rparr>)) \<and>
    srv_client srv' = srv_client srv @ [c] \<and> io_event_loop (m_io_thread_groups (m_io_thread_group srv') ! a) = Some el1 \<and>
    loop_rounds (reactor_run senv tid sock_read sock_write) tid [Some [(EPOLLIN, Some p)], Some [(EPOLLOUT, Some p)], None]
      (el1, Some (cs(i \<mapsto> (c, \<lparr>sk_in = frame q, sk_eof = False, sk_out = []\<rparr>)))) =
      Inr (el2, Some (cs(i \<mapsto> (c2, \<lparr>sk_in = [], sk_eof = False, sk_out = frame r\<rparr>)))) \<and>
    loop_rounds (client_run cenv io) (ce_tid cenv) [Some [(EPOLLIN, Some e)], None]
      (ch_loop ch3, Some (ch3, \<lparr>sk_in = frame r, sk_eof = False, sk_out = frame q\<rparr>)) =
      Inr (ch_loop ch4, Some (ch4, \<lparr>sk_in = [], sk_eof = False, sk_out = frame q\<rparr>)) \<and>
    ch_ran ch4 = [f] \<and> m_response ch4 = Some rsp1 \<and> \<not> may_fire cp (channel_timer ch4)"
proof -
  have mid: "mid \<noteq> []" using assms(1) by (simp add: ready_client_def)
  have r: "m_msg_id r = mid" "m_err_code r = 0" "m_pb_data r = result"
    unfolding assms(12) by (simp_all add: request_protocol_def ProtobufProtocol_new_def)
  have buf: "roomy (m_in_buffer (m_connection (m_client ch)))" "content (m_in_buffer (m_connection (m_client ch))) = []"
    using assms(1) by (simp_all add: ready_client_def fresh_conn_def)
  have q: "sized (request_protocol mid (method_full_name svc meth) data)" using assms(11,27) by (simp add: wire_ok_def)
  obtain ch3 where ch3: "loop (client_run cenv io) (ce_tid cenv) [Some [(EPOLLOUT, Some e)], Some [(EPOLLOUT, Some e)], None]
      (ch_loop ch1, Some (ch1, \<lparr>sk_in = [], sk_eof = False, sk_out = []\<rparr>)) =
      Inr (ch_loop ch3, Some (ch3, \<lparr>sk_in = [], sk_eof = False, sk_out = frame q\<rparr>))"
    "under_way ctl cp ch ch3" "handler IN_EVENT (el_events (ch_loop ch3) e) = Some OnRead"
    "m_pending_tasks (ch_loop ch3) = []" "\<not> m_stop_flag (ch_loop ch3)" "m_state (m_connection (m_client ch3)) = Connected"
    "m_in_buffer (m_connection (m_client ch3)) = m_in_buffer (m_connection (m_client ch))" "reply_map ch3 = [mid \<mapsto> ReadDone True ctl]"
    by (rule rounds_send [OF assms(1,2,9,13) q assms(7,8), where k = "\<lparr>sk_in = [], sk_eof = False, sk_out = []\<rparr>"]) (simp add: assms(11))
  have rep: "server_reply senv (srv_local_addr srv) (IPv4NetAddr_sockaddr inet_ntoa ca) q = r"
    unfolding assms(11,12) by (rule registered_reply [OF assms(22-26) mid])
  obtain c el1 c2 el2 where srv: "srv_client srv' = srv_client srv @ [c]"
    "io_event_loop (m_io_thread_groups (m_io_thread_group srv') ! a) = Some el1"
    "loop_rounds (reactor_run senv tid sock_read sock_write) tid [Some [(EPOLLIN, Some p)], Some [(EPOLLOUT, Some p)], None]
      (el1, Some (cs(i \<mapsto> (c, \<lparr>sk_in = frame q, sk_eof = False, sk_out = []\<rparr>)))) =
      Inr (el2, Some (cs(i \<mapsto> (c2, \<lparr>sk_in = [], sk_eof = False, sk_out = frame r\<rparr>))))"
    by (rule served_call [OF assms(14-21) rep assms(27-29)])
  obtain ch4 where "loop_rounds (client_run cenv io) (ce_tid cenv) [Some [(EPOLLIN, Some e)], None]
      (ch_loop ch3, Some (ch3, \<lparr>sk_in = frame r, sk_eof = False, sk_out = frame q\<rparr>)) =
      Inr (ch_loop ch4, Some (ch4, \<lparr>sk_in = [], sk_eof = False, sk_out = frame q\<rparr>))"
    "ch_ran ch4 = [f]" "m_response ch4 = Some rsp1" "\<not> may_fire cp (channel_timer ch4)"
    by (rule rounds_receive [OF ch3(2-6) _ _ ch3(8) assms(28) r(1) mid r(2), unfolded ch3(7) r(3),
        OF buf assms(30,3,4,5,10,6), where eof = False and out = "frame q"])
  with ch3(1) srv show ?thesis by blast
qed

lemma call_over_both_loops_witness:
  "\<exists>ch1 nxt srv' ch3 ch4 c c2 el1 el2.
    CallMethod 4 ''seed'' sample_channel_env (Some EINPROGRESS) 3 sample_clock ''Order.make'' (Some 0) ''order'' sample_channel = Inr (ch1, nxt) \<and>
    on_accept 3 (\<lambda>_. ''10.0.0.1'') 9 sockaddr_zero 2 (ConnRead 0) (ConnWrite 0) reactor_server = Inr srv' \<and> srv_client srv' = [c] \<and>
    loop (client_run sample_channel_env sample_io) 1 [Some [(EPOLLOUT, Some 2)], Some [(EPOLLOUT, Some 2)], None]
      (ch_loop ch1, Some (ch1, \<lparr>sk_in = [], sk_eof = False, sk_out = []\<rparr>)) =
      Inr (ch_loop ch3, Some (ch3, \<lparr>sk_in = [], sk_eof = False, sk_out = frame (request_protocol ''42'' ''Order.make'' ''order'')\<rparr>)) \<and>
    loop_rounds (reactor_run reactor_env 1 sock_read sock_write) 1 [Some [(EPOLLIN, Some 2)], Some [(EPOLLOUT, Some 2)], None]
      (el1, Some [0 \<mapsto> (c, \<lparr>sk_in = frame (request_protocol ''42'' ''Order.make'' ''order''), sk_eof = False, sk_out = []\<rparr>)]) =
      Inr (el2, Some [0 \<mapsto> (c2, \<lparr>sk_in = [], sk_eof = False, sk_out = frame (request_protocol ''42'' ''Order.make'' ''order42'')\<rparr>)]) \<and>
    loop_rounds (client_run sample_channel_env sample_io) 1 [Some [(EPOLLIN, Some 2)], None]
      (ch_loop ch3, Some (ch3, \<lparr>sk_in = frame (request_protocol ''42'' ''Order.make'' ''order42''), sk_eof = False,
         sk_out = frame (request_protocol ''42'' ''Order.make'' ''order'')\<rparr>)) =
      Inr (ch_loop ch4, Some (ch4, \<lparr>sk_in = [], sk_eof = False, sk_out = frame (request_protocol ''42'' ''Order.make'' ''order'')\<rparr>)) \<and>
    ch_ran ch4 = [77] \<and> m_response ch4 = Some ''order42'' \<and> \<not> may_fire 3 (channel_timer ch4)"
proof -
  note name = sample_name and service = sample_service and fr = sample_call_frames
  obtain ch1 nxt where call: "CallMethod 4 ''seed'' sample_channel_env (Some EINPROGRESS) 3 sample_clock ''Order.make'' (Some 0) ''order''
      sample_channel = Inr (ch1, nxt)"
    by (rule sample_call_in_progress)
  obtain srv' where acc: "on_accept 3 (\<lambda>_. ''10.0.0.1'') 9 sockaddr_zero 2 (ConnRead 0) (ConnWrite 0) reactor_server = Inr srv'"
    by (rule reactor_server_accepts)
  have cli: "io_read sample_io = sock_read" "io_write sample_io = sock_write" "io_connect sample_io \<in> {None, Some EISCONN}"
    "ce_serialize sample_channel_env ''order'' = Some ''order''" "ce_parse sample_channel_env ''order42'' [] = (True, ''order42'')"
    by (simp_all add: sample_io_def sample_channel_env)
  have "0 \<noteq> (1 :: nat)" "Map.empty (0 :: nat) = None" "(3 :: int) \<noteq> 1" by simp_all
  from call_over_both_loops [OF sample_client(1) sample_loop_ready sample_channel_idle(3,4) sample_client(2) cli refl refl call [folded name]
      reactor_loop_ran reactor_loop_fields(2,3) this(2) reactor_loop_fresh this(3) reactor_server_next acc service fr [folded name]]
  show ?thesis unfolding name reactor_server_fields(2) append_Nil sample_channel_env(1)
    using call acc by blast
qed

text \<open>C5 (A failed call, end to end).
  The same call, when the service is not registered at the server: the request and one answer still cross the wire, and the
  client's controller ends up failed, with the code of a missing service if the empty body parses into the
  response and with the code of a failed parse otherwise; the caller's closure is not run.\<close>

theorem rpc_error_end_to_end:
  assumes "ready_client p ctl mid ch" and "m_response ch = Some rsp0" and "keeps_writes (client_env (ce_tid cenv) reply)"
    and "ce_serialize cenv request = Some data" and "ce_parse cenv [] rsp0 = (ok, rsp1)"
    and "CallMethod open_fd urandom cenv None p clk (service @ CHR ''.'' # meth) (Some ctl) request ch = Inr (ch1, nxt)"
    and "ready_server tid l q (sv, sel)" and "env_services senv service = None" and "CHR ''.'' \<notin> set service"
    and "wire_ok (request_protocol mid (service @ CHR ''.'' # meth) data)"
    and "int (length (frame (request_protocol mid (service @ CHR ''.'' # meth) data))) < can_write_bytes_num (m_in_buffer sv)"
    and "int (length (frame (not_found mid (service @ CHR ''.'' # meth)))) < can_write_bytes_num (m_in_buffer (m_connection (m_client ch)))"
  shows "\<exists>s' ch2.
    exchange (client_env (ce_tid cenv) reply) (ce_tid cenv) senv tid ctl reply (conn_part ch1) (sv, sel)
      (request_protocol mid (service @ CHR ''.'' # meth) data) (not_found mid (service @ CHR ''.'' # meth)) s' \<and>
    deliver cenv (ProtobufP (decoded (not_found mid (service @ CHR ''.'' # meth)))) (with_conn s' ch1) = Inr ch2 \<and>
    Failed (ch_controllers ch2 ctl) \<and> ch_ran ch2 = [] \<and>
    m_error_code (ch_controllers ch2 ctl) = (if ok then ERROR_SERVICE_NOT_FOUND else ERROR_FAILED_SERIALIZE)"
proof -
  let ?q = "request_protocol mid (service @ CHR ''.'' # meth) data" and ?a = "not_found mid (service @ CHR ''.'' # meth)"
  have mid: "idle_channel p ch" "rc_msg_id (ch_controllers ch ctl) = mid" "mid \<noteq> []" using assms(1) by (simp_all add: ready_client_def)
  have "answer senv sv (decoded ?q) = ?a" using not_found_answer [OF assms(8,9) mid(3)] by blast
  then obtain s' where ex: "exchange (client_env (ce_tid cenv) reply) (ce_tid cenv) senv tid ctl reply (conn_part ch1) (sv, sel) ?q ?a s'"
    "m_read_dones (fst s') = [mid \<mapsto> ReadDone True ctl]" "m_msg_id ?a = mid"
    using exchange_ok [OF assms(1,7,3,4,6) _ assms(10) not_found_wire [OF assms(10)] assms(11,12)] by blast
  obtain ch2 where "deliver cenv (ProtobufP (decoded ?a)) (with_conn s' ch1) = Inr ch2" "ch_ran ch2 = []" "Failed (ch_controllers ch2 ctl)"
    "m_error_code (ch_controllers ch2 ctl) = (if ok then m_err_code ?a else ERROR_FAILED_SERIALIZE)"
    using call_fails [of s' mid ctl ch1 rsp0 ?a cenv ok rsp1] ex(2,3) assms(2,5) mid(3) not_found_fields
      CallMethod_connected [OF mid assms(4,6)] by auto
  with ex(1) show ?thesis unfolding not_found_fields(1) by blast
qed

lemma rpc_error_end_to_end_witness:
  "\<exists>ch1 s' ch2.
    CallMethod 4 ''seed'' sample_channel_env None 3 sample_clock ''Stock.find'' (Some 0) ''order'' sample_channel = Inr (ch1, Nothing) \<and>
    exchange (client_env 1 (\<lambda>_ _ s. s)) 1 sample_env 1 0 (\<lambda>_ _ s. s) (conn_part ch1) (sample_conn TcpConnectionByServer, the_sample_loop)
      (request_protocol ''42'' ''Stock.find'' ''order'') (not_found ''42'' ''Stock.find'') s' \<and>
    deliver sample_channel_env (ProtobufP (decoded (not_found ''42'' ''Stock.find''))) (with_conn s' ch1) = Inr ch2 \<and>
    Failed (ch_controllers ch2 0) \<and> ch_ran ch2 = [] \<and> m_error_code (ch_controllers ch2 0) = ERROR_FAILED_SERIALIZE"
proof -
  have frames: "nul \<notin> set ''Stock.find''" by (simp add: nul_def char_of_def)
  obtain ch1 where call: "CallMethod 4 ''seed'' sample_channel_env None 3 sample_clock ''Stock.find'' (Some 0) ''order'' sample_channel = Inr (ch1, Nothing)"
    by (rule sample_call_ok)
  have "env_services sample_env ''Stock'' = None" by (simp add: sample_server_ready(3) register_service_def echo_service_def)
  then show ?thesis
    using rpc_error_end_to_end [of 3 0 "''42''" sample_channel "[]" sample_channel_env "\<lambda>_ _ s. s" "''order''" "''order''" False "[]"
        4 "''seed''" sample_clock "''Stock''" "''find''" ch1 Nothing 1 sample_addr sample_addr
        "sample_conn TcpConnectionByServer" the_sample_loop sample_env, unfolded sample_channel_env]
      sample_client sample_channel_idle(4) sample_server_ready call sample_frames [OF _ frames, of "''order''"]
    by simp
qed

end
